(* ===== verification/Prelude.thy ===== *)
theory Prelude
  imports Main "HOL-Library.Signed_Division"
begin

text \<open>
  Shared vocabulary of the development: the machine integers of the code, the C++ remainder,
  checked vector reads, the ways a call can end (a reply, a gRPC error status, an exception, a
  thread that never gets its mutex), and generic lemmas on them.

  Integers. \<open>int\<close> and \<open>int32\<close> fields of the code are 32-bit and \<open>int64_t\<close>/\<open>int64\<close> fields
  are 64-bit.  Both are \<open>int\<close> here; wherever the code stores a 64-bit value into a 32-bit
  variable or does arithmetic whose result could leave the width, the model applies
  \<open>to_int32\<close> or \<open>to_int64\<close>, the two's complement reading of the low bits.  \<open>in_int32\<close> and
  \<open>in_int64\<close> are the ranges in which these functions change nothing.
\<close>

section \<open>Machine integers\<close>

definition in_int32 :: "int \<Rightarrow> bool" where
  "in_int32 x \<longleftrightarrow> - (2 ^ 31) \<le> x \<and> x < 2 ^ 31"

definition in_int64 :: "int \<Rightarrow> bool" where
  "in_int64 x \<longleftrightarrow> - (2 ^ 63) \<le> x \<and> x < 2 ^ 63"

definition to_int32 :: "int \<Rightarrow> int" where
  "to_int32 x = signed_take_bit 31 x"

definition to_int64 :: "int \<Rightarrow> int" where
  "to_int64 x = signed_take_bit 63 x"

definition to_uint32 :: "int \<Rightarrow> int" where
  "to_uint32 x = x mod 2 ^ 32"

lemma to_int32_id [simp]: "in_int32 x \<Longrightarrow> to_int32 x = x"
  by (simp add: in_int32_def to_int32_def signed_take_bit_int_eq_self)

lemma to_int64_id [simp]: "in_int64 x \<Longrightarrow> to_int64 x = x"
  by (simp add: in_int64_def to_int64_def signed_take_bit_int_eq_self)

lemma in_int32_to_int32 [simp, intro]: "in_int32 (to_int32 x)"
  using signed_take_bit_int_greater_eq_minus_exp [of 31 x] signed_take_bit_int_less_exp [of 31 x]
  by (simp add: in_int32_def to_int32_def)

lemma in_int64_to_int64 [simp, intro]: "in_int64 (to_int64 x)"
  using signed_take_bit_int_greater_eq_minus_exp [of 63 x] signed_take_bit_int_less_exp [of 63 x]
  by (simp add: in_int64_def to_int64_def)

lemma in_int32_int64 [intro]: "in_int32 x \<Longrightarrow> in_int64 x"
  by (simp add: in_int32_def in_int64_def)

lemma in_int32_small [simp]: "in_int32 0" "in_int32 1" "in_int32 (- 1)"
  by (simp_all add: in_int32_def)

section \<open>The C++ remainder\<close>

text \<open>
  \<open>a % b\<close> truncates towards zero, which is \<open>smod\<close> of \<open>HOL-Library.Signed_Division\<close>.
\<close>

lemma smod_nonneg: "0 \<le> a \<Longrightarrow> 0 < b \<Longrightarrow> a smod b = a mod (b :: int)"
  by (simp add: signed_modulo_int_def signed_divide_int_def sgn_if minus_div_mult_eq_mod)

section \<open>Vectors\<close>

text \<open>
  \<open>v[i]\<close> of a \<open>std::vector\<close> is undefined out of range; \<open>vec_get\<close> returns \<open>None\<close> there
  and every caller turns that into the exception \<open>Out_of_bounds\<close>.
\<close>

definition vec_get :: "'a list \<Rightarrow> int \<Rightarrow> 'a option" where
  "vec_get xs i = (if 0 \<le> i \<and> i < int (length xs) then Some (xs ! nat i) else None)"

lemma vec_get_None_iff: "vec_get xs i = None \<longleftrightarrow> i < 0 \<or> int (length xs) \<le> i"
  by (auto simp: vec_get_def)

lemma vec_get_Some_iff:
  "vec_get xs i = Some x \<longleftrightarrow> 0 \<le> i \<and> i < int (length xs) \<and> x = xs ! nat i"
  by (auto simp: vec_get_def)

section \<open>How a call ends\<close>

text \<open>
  The exceptions of the code, with \<open>Out_of_bounds\<close> for an undefined vector read and
  \<open>Null_pointer\<close> for the dereference of an empty \<open>unique_ptr\<close>.
\<close>

datatype exn = Invalid_argument | Out_of_range | Out_of_bounds | System_error | Null_pointer

datatype grpc_code = INVALID_ARGUMENT | ABORTED | UNKNOWN | UNAVAILABLE | DEADLINE_EXCEEDED

text \<open>
  \<open>Ok r\<close>: \<open>Status::OK\<close> with the response \<open>r\<close>; \<open>Error c\<close>: another gRPC status;
  \<open>Raise x\<close>: the handler ends by an exception; \<open>Blocked\<close>: the calling thread waits for a
  mutex that is held, and no step of the modelled run releases it.
\<close>

datatype 'r result = Ok 'r | Error grpc_code | Raise exn | Blocked

fun is_Ok :: "'r result \<Rightarrow> bool" where
  "is_Ok (Ok _) = True"
| "is_Ok _ = False"

lemma is_Ok_iff: "is_Ok r \<longleftrightarrow> (\<exists>x. r = Ok x)"
  by (cases r) auto

end
