(* ===== verification/Address.thy ===== *)
theory Address
  imports StdMap "HOL-Library.List_Lexorder" "HOL-Library.Char_ord"
begin

text \<open>
  The strings of the program: decimal numbers (\<open>std::to_string\<close>, \<open>std::stoi\<close>), server
  addresses \<open>127.0.0.1:port\<close> and the \<open>path#mode\<close> strings that go through Paxos, with
  \<open>PaxosImpl::getPortNumber\<close>, \<open>PaxosImpl::getKeyValue\<close> and the address table that
  \<open>PaxosImpl::InitializeServerStubs\<close> and \<open>ChubbyImpl::InitializeServerStubs\<close> build.
  A \<open>std::string\<close> is a list of bytes; its order, the order of the keys of a \<open>std::map\<close>, is the
  lexicographic order on bytes.
\<close>

section \<open>std::string::find\<close>

fun find_char :: "char \<Rightarrow> string \<Rightarrow> nat option" where
  "find_char c [] = None"
| "find_char c (x # xs) = (if x = c then Some 0 else map_option Suc (find_char c xs))"

lemma find_char_None: "find_char c s = None \<longleftrightarrow> c \<notin> set s"
  by (induction s) auto

lemma find_char_append: "c \<notin> set s \<Longrightarrow> find_char c (s @ c # t) = Some (length s)"
  by (induction s) auto

lemma find_char_split:
  "find_char c s = Some p \<Longrightarrow> s = take p s @ c # drop (Suc p) s \<and> c \<notin> set (take p s)"
proof (induction s arbitrary: p)
  case Nil
  then show ?case by simp
next
  case (Cons x s)
  then show ?case by (cases p) (auto split: if_splits)
qed

section \<open>std::to_string and std::stoi\<close>

definition digit :: "nat \<Rightarrow> char" where
  "digit d = char_of (48 + d)"

fun nat_to_string :: "nat \<Rightarrow> string" where
  "nat_to_string n =
     (if n < 10 then [digit n] else nat_to_string (n div 10) @ [digit (n mod 10)])"

declare nat_to_string.simps [simp del]

definition to_string :: "int \<Rightarrow> string" where
  "to_string i = (if i < 0 then CHR ''-'' # nat_to_string (nat (- i)) else nat_to_string (nat i))"

definition is_digit :: "char \<Rightarrow> bool" where
  "is_digit c \<longleftrightarrow> 48 \<le> (of_char c :: nat) \<and> (of_char c :: nat) \<le> 57"

definition digit_val :: "char \<Rightarrow> nat" where
  "digit_val c = of_char c - 48"

definition is_space :: "char \<Rightarrow> bool" where
  "is_space c \<longleftrightarrow> (of_char c :: nat) \<in> {9, 10, 11, 12, 13, 32}"

definition digits_val :: "string \<Rightarrow> nat" where
  "digits_val ds = foldl (\<lambda>a c. 10 * a + digit_val c) 0 ds"

text \<open>
  \<open>std::stoi\<close>: skip white space, an optional sign, the longest run of digits; what follows
  them is ignored. No digit is \<open>invalid_argument\<close>, a number outside \<open>int\<close> \<open>out_of_range\<close>.
\<close>

definition stoi :: "string \<Rightarrow> exn + int" where
  "stoi s =
     (let t = dropWhile is_space s;
          neg = (t \<noteq> [] \<and> hd t = CHR ''-'');
          u = (if t \<noteq> [] \<and> (hd t = CHR ''-'' \<or> hd t = CHR ''+'') then tl t else t);
          ds = takeWhile is_digit u;
          n = int (digits_val ds);
          i = (if neg then - n else n)
      in if ds = [] then Inl Invalid_argument
         else if in_int32 i then Inr i
         else Inl Out_of_range)"

lemma of_char_digit: "d < 10 \<Longrightarrow> (of_char (digit d) :: nat) = 48 + d"
  by (simp add: digit_def)

lemma is_digit_digit [simp]: "d < 10 \<Longrightarrow> is_digit (digit d)"
  by (simp add: is_digit_def of_char_digit)

lemma digit_val_digit [simp]: "d < 10 \<Longrightarrow> digit_val (digit d) = d"
  by (simp add: digit_val_def of_char_digit)

lemma digits_val_snoc [simp]: "digits_val (ds @ [c]) = 10 * digits_val ds + digit_val c"
  by (simp add: digits_val_def)

lemma digits_val_single [simp]: "digits_val [c] = digit_val c"
  by (simp add: digits_val_def)

lemma digits_val_nat_to_string [simp]: "digits_val (nat_to_string n) = n"
proof (induction n rule: nat_to_string.induct)
  case (1 n)
  then show ?case by (simp add: nat_to_string.simps [of n])
qed

lemma nat_to_string_digits: "c \<in> set (nat_to_string n) \<Longrightarrow> is_digit c"
proof (induction n rule: nat_to_string.induct)
  case (1 n)
  then show ?case by (auto simp: nat_to_string.simps [of n] split: if_splits)
qed

lemma nat_to_string_Nil [simp]: "nat_to_string n \<noteq> []"
  by (simp add: nat_to_string.simps [of n])

lemma digit_not_special:
  "is_digit c \<Longrightarrow> \<not> is_space c \<and> c \<noteq> CHR ''-'' \<and> c \<noteq> CHR ''+'' \<and> c \<noteq> CHR '':'' \<and> c \<noteq> CHR ''#''"
  by (auto simp: is_digit_def is_space_def)

lemma dropWhile_not: "(\<And>c. c \<in> set s \<Longrightarrow> \<not> P c) \<Longrightarrow> dropWhile P s = s"
  by (cases s) auto

lemma stoi_nat_to_string: "n < 2 ^ 31 \<Longrightarrow> stoi (nat_to_string n) = Inr (int n)"
proof -
  assume n: "n < 2 ^ 31"
  let ?s = "nat_to_string n"
  have d: "\<And>c. c \<in> set ?s \<Longrightarrow> is_digit c" by (rule nat_to_string_digits)
  have "dropWhile is_space ?s = ?s"
    using d digit_not_special by (intro dropWhile_not) blast
  moreover have "hd ?s \<noteq> CHR ''-'' \<and> hd ?s \<noteq> CHR ''+''"
    using d [of "hd ?s"] digit_not_special by auto
  moreover have tw: "takeWhile is_digit ?s = ?s"
    using d by simp
  moreover have "in_int32 (int n)"
    using n by (simp add: in_int32_def)
  ultimately show ?thesis by (simp add: stoi_def tw)
qed

text \<open>\<open>std::atoi\<close>: no number is \<open>0\<close>; what a number outside \<open>int\<close> does is undefined (\<open>Out_of_range\<close>).\<close>

definition atoi :: "string \<Rightarrow> exn + int" where
  "atoi s = (case stoi s of Inl Invalid_argument \<Rightarrow> Inr 0 | r \<Rightarrow> r)"

lemma atoi_to_string: "0 \<le> n \<Longrightarrow> n < 2 ^ 31 \<Longrightarrow> atoi (to_string n) = Inr n"
  using stoi_nat_to_string [of "nat n"] by (simp add: atoi_def to_string_def nat_less_iff)

section \<open>Addresses and ports\<close>

definition host_prefix :: string where
  "host_prefix = ''127.0.0.1:''"

definition server_addr :: "int \<Rightarrow> string" where
  "server_addr port = host_prefix @ to_string port"

definition getPortNumber :: "string \<Rightarrow> exn + int" where
  "getPortNumber address =
     (case find_char CHR '':'' address of
        None \<Rightarrow> Inl Invalid_argument
      | Some colon_pos \<Rightarrow> stoi (drop (colon_pos + 1) address))"

lemma to_string_nonneg: "0 \<le> p \<Longrightarrow> to_string p = nat_to_string (nat p)"
  by (simp add: to_string_def)

lemma find_colon_server_addr: "find_char CHR '':'' (server_addr p) = Some 9"
  by (simp add: server_addr_def host_prefix_def)

lemma getPortNumber_server_addr:
  assumes "0 \<le> p" "in_int32 p"
  shows "getPortNumber (server_addr p) = Inr p"
proof -
  have "drop 10 (server_addr p) = to_string p"
    by (simp add: server_addr_def host_prefix_def)
  moreover have "nat p < 2 ^ 31"
    using assms by (simp add: in_int32_def nat_less_iff)
  ultimately show ?thesis
    using assms stoi_nat_to_string [of "nat p"]
    by (simp add: getPortNumber_def find_colon_server_addr to_string_nonneg)
qed

lemma inj_server_addr:
  "0 \<le> p \<Longrightarrow> 0 \<le> q \<Longrightarrow> server_addr p = server_addr q \<Longrightarrow> p = q"
  using digits_val_nat_to_string
  by (metis eq_nat_nat_iff same_append_eq server_addr_def to_string_nonneg)

section \<open>The address table\<close>

text \<open>
  \<open>InitializeServerStubs\<close> inserts the addresses of the ports \<open>first_port\<close> to \<open>last_port\<close> in a
  \<open>std::map\<close>; what the map stores is the gRPC channel to that address, which is not code of
  the program, so that the model stores \<open>()\<close>.
\<close>

definition InitializeServerStubs :: "int \<Rightarrow> int \<Rightarrow> (string, unit) smap" where
  "InitializeServerStubs lo hi =
     foldl (\<lambda>m port. smap_put (server_addr port) () m) [] [lo..hi]"

text \<open>
  The iteration order of the table.  The code walks the table in every broadcast; the order is
  that of the strings, which for ports of five digits is the order of the ports.
\<close>

lemma lex_append_eq_length:
  "length xs = length ys \<Longrightarrow> xs < ys \<Longrightarrow> xs @ us < ys @ (vs :: 'a :: linorder list)"
  by (auto simp: list_less_def intro: lexord_sufI)

lemma lex_append_same: "us < vs \<Longrightarrow> xs @ us < xs @ (vs :: 'a :: linorder list)"
  by (simp add: list_less_def lexord_append_leftI)

lemma digit_less: "a < b \<Longrightarrow> b < 10 \<Longrightarrow> digit a < digit b"
  by (simp add: less_char_def of_char_digit)

lemma nat_to_string_mono:
  "m < n \<Longrightarrow> length (nat_to_string m) = length (nat_to_string n) \<Longrightarrow>
   nat_to_string m < nat_to_string n"
proof (induction m arbitrary: n rule: nat_to_string.induct)
  case (1 m)
  show ?case
  proof (cases "n < 10")
    case True
    with "1.prems"(1) show ?thesis
      by (simp add: nat_to_string.simps [of m] nat_to_string.simps [of n] digit_less)
  next
    case False
    with "1.prems"(2) have m: "\<not> m < 10"
      by (auto simp: nat_to_string.simps [of m] nat_to_string.simps [of n])
    with False "1.prems"(2)
    have len: "length (nat_to_string (m div 10)) = length (nat_to_string (n div 10))"
      by (simp add: nat_to_string.simps [of m] nat_to_string.simps [of n])
    consider "m div 10 < n div 10" | "m div 10 = n div 10" "m mod 10 < n mod 10"
      using "1.prems"(1) by (metis div_le_mono div_mult_mod_eq le_less nat_add_left_cancel_less)
    then show ?thesis
    proof cases
      case 1
      then have "nat_to_string (m div 10) < nat_to_string (n div 10)"
        using "1.IH" m len by blast
      then show ?thesis
        using m False len
        by (simp add: nat_to_string.simps [of m] nat_to_string.simps [of n] lex_append_eq_length)
    next
      case 2
      then show ?thesis
        using m False
        by (simp add: nat_to_string.simps [of m] nat_to_string.simps [of n] lex_append_same
            digit_less)
    qed
  qed
qed

lemma length_five_digits: "10000 \<le> n \<Longrightarrow> n \<le> 99999 \<Longrightarrow> length (nat_to_string n) = 5"
  by (simp add: nat_to_string.simps div_mult2_eq [symmetric]) linarith

lemma server_addr_less:
  assumes "10000 \<le> p" "p < q" "q \<le> 99999"
  shows "server_addr p < server_addr q"
proof -
  have "nat_to_string (nat p) < nat_to_string (nat q)"
    using assms by (intro nat_to_string_mono) (simp_all add: length_five_digits)
  then show ?thesis
    using assms by (simp add: server_addr_def to_string_nonneg lex_append_same)
qed

lemma smap_put_last: "\<forall>j \<in> fst ` set m. j < k \<Longrightarrow> smap_put k v m = m @ [(k, v)]"
  by (induction k v m rule: smap_put.induct) auto

lemma InitializeServerStubs_eq:
  assumes "10000 \<le> lo" "hi \<le> 99999"
  shows "InitializeServerStubs lo hi = map (\<lambda>p. (server_addr p, ())) [lo..hi]"
  using assms
proof (induction "nat (hi + 1 - lo)" arbitrary: hi)
  case 0
  then show ?case by (simp add: InitializeServerStubs_def)
next
  case (Suc n)
  then have split: "[lo..hi] = [lo..hi - 1] @ [hi]"
    by (intro upto_rec2) simp
  have IH: "InitializeServerStubs lo (hi - 1) = map (\<lambda>p. (server_addr p, ())) [lo..hi - 1]"
    using Suc by (intro Suc.hyps(1)) auto
  have "\<forall>j \<in> fst ` set (InitializeServerStubs lo (hi - 1)). j < server_addr hi"
    using Suc.prems by (auto simp: IH intro: server_addr_less)
  then show ?case
    using IH by (simp add: split InitializeServerStubs_def smap_put_last)
qed

lemma keys_InitializeServerStubs:
  "10000 \<le> lo \<Longrightarrow> hi \<le> 99999 \<Longrightarrow>
   smap_keys (InitializeServerStubs lo hi) = map server_addr [lo..hi]"
  by (simp add: InitializeServerStubs_eq smap_keys_def comp_def)

section \<open>The strings that go through Paxos\<close>

definition getKeyValue :: "string \<Rightarrow> exn + string \<times> string" where
  "getKeyValue key_value =
     (case find_char CHR ''#'' key_value of
        None \<Rightarrow> Inl Invalid_argument
      | Some pos \<Rightarrow> Inr (take pos key_value, drop (pos + 1) key_value))"

text \<open>\<open>ChubbyImpl::Put\<close> builds the string that is proposed.\<close>

definition put_string :: "string \<Rightarrow> string \<Rightarrow> string" where
  "put_string path locking_mode = path @ ''#'' @ locking_mode"

lemma getKeyValue_put_string:
  "CHR ''#'' \<notin> set path \<Longrightarrow> getKeyValue (put_string path mode) = Inr (path, mode)"
  by (simp add: getKeyValue_def put_string_def find_char_append)

lemma getKeyValue_Inl_iff: "getKeyValue s = Inl x \<longleftrightarrow> CHR ''#'' \<notin> set s \<and> x = Invalid_argument"
  by (auto simp: getKeyValue_def find_char_None [symmetric] split: option.splits)

lemma getKeyValue_Inr_iff:
  "getKeyValue s = Inr (k, v) \<longleftrightarrow> s = k @ CHR ''#'' # v \<and> CHR ''#'' \<notin> set k"
proof
  assume "getKeyValue s = Inr (k, v)"
  then obtain p where "find_char CHR ''#'' s = Some p" "k = take p s" "v = drop (Suc p) s"
    by (auto simp: getKeyValue_def split: option.splits)
  then show "s = k @ CHR ''#'' # v \<and> CHR ''#'' \<notin> set k"
    using find_char_split by blast
next
  assume "s = k @ CHR ''#'' # v \<and> CHR ''#'' \<notin> set k"
  then show "getKeyValue s = Inr (k, v)"
    by (simp add: getKeyValue_def find_char_append)
qed

lemma digit_literals:
  "digit 0 = CHR ''0''" "digit 1 = CHR ''1''" "digit 2 = CHR ''2''" "digit 3 = CHR ''3''"
  "digit 5 = CHR ''5''" "digit (Suc 0) = CHR ''1''"
  by code_simp+

lemma server_addr_literals:
  "server_addr 50051 = ''127.0.0.1:50051''" "server_addr 50052 = ''127.0.0.1:50052''"
  "server_addr 50053 = ''127.0.0.1:50053''"
  by (simp_all add: server_addr_def host_prefix_def to_string_def nat_to_string.simps digit_literals)

section \<open>Properties\<close>

text \<open>
  C29: what \<open>ChubbyImpl::Put\<close> sends through Paxos is read back by \<open>PaxosImpl::getKeyValue\<close> as the
  path and the mode exactly when the path has no \<open>#\<close>; with one, the learner stores the lock under
  a shorter path.
\<close>
theorem put_string_read_back:
  "getKeyValue (put_string path mode) = Inr (path, mode) \<longleftrightarrow> CHR ''#'' \<notin> set path"
  by (simp add: getKeyValue_Inr_iff put_string_def)

end
