(* ===== verification/RocksDB.thy ===== *)
theory RocksDB
  imports Prelude "HOL-Library.AList"
begin

text \<open>
  \<open>RocksDBWrapper\<close> (src/common/rocksdb_wrapper.cc): one handle \<open>db_\<close> (the field \<open>db_handle\<close>), null when the database
  could not be opened, and the operations the program calls on it.

  RocksDB itself is not part of the program.  Its calls are the fields of the record \<open>env\<close>,
  an argument of every definition that reaches the database; \<open>rocks_ok\<close> says what the wrapper
  relies on (a committed transaction is visible to later reads and changes no other key, a read
  inside a transaction sees the committed data), \<open>rocks_writes\<close> that writes do not fail.
  \<open>mem_env\<close> is an instance, an association list, that has both.

  The record also carries what the code generated by \<open>protoc\<close> does with
  \<open>set_value(nullptr)\<close>: the string \<open>null_str\<close> that the field then holds; and \<open>run_order\<close>, the
  order in which the operating system runs a group of threads that the program starts and joins.
\<close>

record 'd env =
  db_Open :: "string \<Rightarrow> 'd option"
  db_Get :: "'d \<Rightarrow> string \<Rightarrow> string option"
  db_Keys :: "'d \<Rightarrow> string list \<times> bool"
  txn_Get :: "'d \<Rightarrow> string \<Rightarrow> string option"
  txn_Put :: "'d \<Rightarrow> string \<Rightarrow> string \<Rightarrow> bool"
  txn_Commit :: "'d \<Rightarrow> string \<Rightarrow> string \<Rightarrow> 'd option"
  null_str :: string
  run_order :: "string list \<Rightarrow> string list"

definition rocks_ok :: "'d env \<Rightarrow> bool" where
  "rocks_ok E \<longleftrightarrow>
     (\<forall>d k v d'. txn_Commit E d k v = Some d' \<longrightarrow> db_Get E d' = (db_Get E d)(k \<mapsto> v)) \<and>
     (\<forall>d k. txn_Get E d k = db_Get E d k)"

definition rocks_writes :: "'d env \<Rightarrow> bool" where
  "rocks_writes E \<longleftrightarrow> (\<forall>d k v. txn_Put E d k v \<and> txn_Commit E d k v \<noteq> None)"

lemma rocks_ok_commit:
  "rocks_ok E \<Longrightarrow> txn_Commit E d k v = Some d' \<Longrightarrow> db_Get E d' = (db_Get E d)(k \<mapsto> v)"
  by (simp add: rocks_ok_def)

lemma rocks_ok_txn_Get: "rocks_ok E \<Longrightarrow> txn_Get E d k = db_Get E d k"
  by (simp add: rocks_ok_def)

lemma rocks_writes_commit: "rocks_writes E \<Longrightarrow> \<exists>d'. txn_Commit E d k v = Some d'"
  by (auto simp: rocks_writes_def)

section \<open>The interface\<close>

text \<open>
  What the lock service expects of its local store: \<open>get w k b\<close> returns whether \<open>k\<close> is there
  and the contents of the caller's buffer, \<open>put w k v b\<close> a return code (\<open>0\<close> replaced, \<open>1\<close>
  inserted, \<open>-1\<close> failed), the caller's buffer and the store.
\<close>

locale kv_store =
  fixes get :: "'w \<Rightarrow> string \<Rightarrow> string \<Rightarrow> bool \<times> string"
    and put :: "'w \<Rightarrow> string \<Rightarrow> string \<Rightarrow> string \<Rightarrow> int \<times> string \<times> 'w"
    and inv :: "'w \<Rightarrow> bool"
  assumes put_get: "inv w \<Longrightarrow> put w k v b = (rc, b', w') \<Longrightarrow> rc \<noteq> - 1 \<Longrightarrow>
      get w' j c = (if j = k then (True, v) else get w j c)"
    and put_failed: "inv w \<Longrightarrow> put w k v b = (rc, b', w') \<Longrightarrow> rc = - 1 \<Longrightarrow> get w' j c = get w j c"
    and put_code: "inv w \<Longrightarrow> put w k v b = (rc, b', w') \<Longrightarrow> rc \<noteq> - 1 \<Longrightarrow>
      rc = (if fst (get w k c) then 0 else 1)"
    and put_inv: "inv w \<Longrightarrow> put w k v b = (rc, b', w') \<Longrightarrow> inv w'"
begin

lemma get_after_put: "inv w \<Longrightarrow> put w k v b = (rc, b', w') \<Longrightarrow> rc \<noteq> - 1 \<Longrightarrow> get w' k c = (True, v)"
  by (simp add: put_get)

lemma get_unchanged: "inv w \<Longrightarrow> put w k v b = (rc, b', w') \<Longrightarrow> j \<noteq> k \<Longrightarrow> get w' j c = get w j c"
  using put_get [of w k v b rc b' w' j c] put_failed [of w k v b rc b' w' j c]
  by (cases "rc = - 1") auto

text \<open>A second write of a key replaces the first and is reported as a replacement.\<close>

lemma put_twice:
  assumes "inv w" "put w k v b = (rc, b', w')" "rc \<noteq> - 1"
    and "put w' k u d = (rc', d', w'')" "rc' \<noteq> - 1"
  shows "rc' = 0 \<and> get w'' k c = (True, u)"
proof
  have w': "inv w'" using assms put_inv by blast
  show "rc' = 0"
    using put_code [OF w' assms(4,5), of c] get_after_put [OF assms(1-3), of c] by simp
  show "get w'' k c = (True, u)"
    by (rule get_after_put [OF w' assms(4,5)])
qed

end

section \<open>The model\<close>

record 'd rocksdb =
  db_handle :: "'d option"

definition RocksDBWrapper_new :: "'d env \<Rightarrow> string \<Rightarrow> 'd rocksdb" where
  "RocksDBWrapper_new E db_path = \<lparr>db_handle = db_Open E db_path\<rparr>"

definition RocksDB_Get :: "'d env \<Rightarrow> 'd rocksdb \<Rightarrow> string \<Rightarrow> string \<Rightarrow> bool \<times> string" where
  "RocksDB_Get E w key val =
     (case db_handle w of
        None \<Rightarrow> (False, val)
      | Some d \<Rightarrow> (case db_Get E d key of None \<Rightarrow> (False, val) | Some v \<Rightarrow> (True, v)))"

definition RocksDB_GetAllKeys :: "'d env \<Rightarrow> 'd rocksdb \<Rightarrow> string list \<Rightarrow> bool \<times> string list" where
  "RocksDB_GetAllKeys E w keys =
     (case db_handle w of
        None \<Rightarrow> (False, keys)
      | Some d \<Rightarrow> (case db_Keys E d of (ks, status_ok) \<Rightarrow> (status_ok, keys @ ks)))"

definition RocksDB_Put ::
  "'d env \<Rightarrow> 'd rocksdb \<Rightarrow> string \<Rightarrow> string \<Rightarrow> string \<Rightarrow> int \<times> string \<times> 'd rocksdb" where
  "RocksDB_Put E w key val old_value =
     (case db_handle w of
        None \<Rightarrow> (- 1, old_value, w)
      | Some d \<Rightarrow>
          (let key_found = (txn_Get E d key \<noteq> None);
               old = (case txn_Get E d key of None \<Rightarrow> old_value | Some u \<Rightarrow> u)
           in if \<not> txn_Put E d key val then (- 1, old, w)
              else case txn_Commit E d key val of
                     None \<Rightarrow> (- 1, old, w)
                   | Some d' \<Rightarrow> (if key_found then 0 else 1, old, w\<lparr>db_handle := Some d'\<rparr>)))"

text \<open>
  The other three calls, which nothing in the program uses: they hand their arguments on to RocksDB,
  here a function of the database, without the test of \<open>db_\<close> that the calls above make.
\<close>

definition RocksDB_Write ::
  "('d \<Rightarrow> 'o \<Rightarrow> 'b \<Rightarrow> 's \<times> 'd) \<Rightarrow> 'd rocksdb \<Rightarrow> 'o \<Rightarrow> 'b \<Rightarrow> 's result \<times> 'd rocksdb" where
  "RocksDB_Write db_write w options batch =
     (case db_handle w of
        None \<Rightarrow> (Raise Null_pointer, w)
      | Some d \<Rightarrow> (case db_write d options batch of (status, d') \<Rightarrow> (Ok status, w\<lparr>db_handle := Some d'\<rparr>)))"

definition RocksDB_GetSnapshot ::
  "('d \<Rightarrow> 'p \<times> 'd) \<Rightarrow> 'd rocksdb \<Rightarrow> 'p result \<times> 'd rocksdb" where
  "RocksDB_GetSnapshot db_snapshot w =
     (case db_handle w of
        None \<Rightarrow> (Raise Null_pointer, w)
      | Some d \<Rightarrow> (case db_snapshot d of (p, d') \<Rightarrow> (Ok p, w\<lparr>db_handle := Some d'\<rparr>)))"

definition RocksDB_ReleaseSnapshot ::
  "('d \<Rightarrow> 'p \<Rightarrow> 'd) \<Rightarrow> 'd rocksdb \<Rightarrow> 'p \<Rightarrow> unit result \<times> 'd rocksdb" where
  "RocksDB_ReleaseSnapshot db_release w snapshot =
     (case db_handle w of
        None \<Rightarrow> (Raise Null_pointer, w)
      | Some d \<Rightarrow> (Ok (), w\<lparr>db_handle := Some (db_release d snapshot)\<rparr>))"

text \<open>
  A database that could not be opened: the calls above report failure and change nothing, these
  three read a null pointer.
\<close>

lemma closed_database:
  assumes "db_handle w = None"
  shows "RocksDB_Get E w k b = (False, b)" "RocksDB_Put E w k v b = (- 1, b, w)"
    "RocksDB_GetAllKeys E w ks = (False, ks)"
    "RocksDB_Write f w options batch = (Raise Null_pointer, w)"
    "RocksDB_GetSnapshot g w = (Raise Null_pointer, w)"
    "RocksDB_ReleaseSnapshot h w snapshot = (Raise Null_pointer, w)"
  using assms
  by (simp_all add: RocksDB_Get_def RocksDB_Put_def RocksDB_GetAllKeys_def RocksDB_Write_def
      RocksDB_GetSnapshot_def RocksDB_ReleaseSnapshot_def)

text \<open>What a reader of the store sees.\<close>

definition store :: "'d env \<Rightarrow> 'd rocksdb \<Rightarrow> string \<Rightarrow> string option" where
  "store E w key = (case db_handle w of None \<Rightarrow> None | Some d \<Rightarrow> db_Get E d key)"

lemma RocksDB_Get_store:
  "RocksDB_Get E w k b = (case store E w k of None \<Rightarrow> (False, b) | Some v \<Rightarrow> (True, v))"
  by (auto simp: RocksDB_Get_def store_def split: option.splits)

lemma store_Some [simp]: "store E (w\<lparr>db_handle := Some d\<rparr>) = db_Get E d"
  by (auto simp: store_def)

lemma RocksDB_Put_cases:
  assumes ok: "rocks_ok E" and put: "RocksDB_Put E w k v b = (rc, b', w')"
  shows "rc = - 1 \<and> w' = w \<or>
         rc = (if store E w k = None then 1 else 0) \<and> store E w' = (store E w)(k \<mapsto> v)"
proof (cases "db_handle w")
  case None
  with put show ?thesis by (auto simp: RocksDB_Put_def)
next
  case (Some d)
  then have st: "store E w = db_Get E d"
    by (auto simp: store_def)
  show ?thesis
  proof (cases "txn_Put E d k v")
    case True
    with Some put show ?thesis
      by (auto simp: RocksDB_Put_def Let_def st rocks_ok_txn_Get [OF ok] rocks_ok_commit [OF ok]
          split: option.splits)
  qed (use Some put in \<open>auto simp: RocksDB_Put_def Let_def\<close>)
qed

lemma RocksDB_Put_stores:
  assumes ok: "rocks_ok E" and wr: "rocks_writes E" and op: "db_handle w \<noteq> None"
  shows "store E (snd (snd (RocksDB_Put E w k v b))) = (store E w)(k \<mapsto> v)"
    and "db_handle (snd (snd (RocksDB_Put E w k v b))) \<noteq> None"
proof -
  obtain d where d: "db_handle w = Some d" using op by blast
  obtain d' where d': "txn_Commit E d k v = Some d'" using rocks_writes_commit [OF wr] by blast
  have w: "store E w = db_Get E d" using d by (auto simp: store_def)
  have put: "snd (snd (RocksDB_Put E w k v b)) = w\<lparr>db_handle := Some d'\<rparr>"
    using wr d d' by (simp add: RocksDB_Put_def Let_def rocks_writes_def)
  show "store E (snd (snd (RocksDB_Put E w k v b))) = (store E w)(k \<mapsto> v)"
    using rocks_ok_commit [OF ok d'] by (simp add: put w)
  show "db_handle (snd (snd (RocksDB_Put E w k v b))) \<noteq> None"
    by (simp add: put)
qed

interpretation kv: kv_store "RocksDB_Get E" "RocksDB_Put E" "\<lambda>w. rocks_ok E"
  for E :: "'d env"
proof unfold_locales
  fix w w' :: "'d rocksdb" and k v b j c b' :: string and rc :: int
  assume ok: "rocks_ok E" and put: "RocksDB_Put E w k v b = (rc, b', w')"
  note cs = RocksDB_Put_cases [OF ok put]
  show "RocksDB_Get E w' j c = (if j = k then (True, v) else RocksDB_Get E w j c)" if "rc \<noteq> - 1"
    using cs that by (auto simp: RocksDB_Get_store)
  show "RocksDB_Get E w' j c = RocksDB_Get E w j c" if "rc = - 1"
    using cs that by (auto split: if_splits)
  show "rc = (if fst (RocksDB_Get E w k c) then 0 else 1)" if "rc \<noteq> - 1"
    using cs that by (auto simp: RocksDB_Get_store split: option.splits)
qed

section \<open>An instance\<close>

definition mem_env :: "(string \<times> string) list env" where
  "mem_env =
     \<lparr>db_Open = (\<lambda>path. Some []), db_Get = map_of, db_Keys = (\<lambda>d. (map fst d, True)),
      txn_Get = map_of, txn_Put = (\<lambda>d k v. True), txn_Commit = (\<lambda>d k v. Some (AList.update k v d)),
      null_str = [], run_order = (\<lambda>xs. xs)\<rparr>"

lemma mem_env_ok [simp]: "rocks_ok mem_env" "rocks_writes mem_env"
  by (simp_all add: rocks_ok_def rocks_writes_def mem_env_def update_conv')

lemma mem_env_sel [simp]:
  "db_Get mem_env = map_of" "txn_Get mem_env = map_of" "txn_Put mem_env d k v"
  "txn_Commit mem_env d k v = Some (AList.update k v d)" "null_str mem_env = []"
  "run_order mem_env xs = xs"
  by (simp_all add: mem_env_def)

section \<open>Properties\<close>

text \<open>
  A write of the database wrapper that does not report failure is what every later read of
  the key returns, leaves all other keys alone, and says by its code whether the key was there;
  a second write of the key reports a replacement.  The database itself is taken to commit what a
  transaction has put.
\<close>
theorem put_then_get:
  assumes "rocks_ok E" "RocksDB_Put E w k v b = (rc, b', w')" "rc \<noteq> - 1"
    and "RocksDB_Put E w' k u d = (rc', d', w'')" "rc' \<noteq> - 1"
  shows "RocksDB_Get E w' k c = (True, v) \<and> (j \<noteq> k \<longrightarrow> RocksDB_Get E w' j c = RocksDB_Get E w j c) \<and>
    rc = (if fst (RocksDB_Get E w k c) then 0 else 1) \<and>
    rc' = 0 \<and> RocksDB_Get E w'' k c = (True, u)"
  using kv.get_after_put [OF assms(1-3)] kv.get_unchanged [OF assms(1,2)]
    kv.put_code [OF assms(1-3)] kv.put_twice [OF assms] by blast

lemma put_then_get_witness:
  "RocksDB_Get mem_env \<lparr>db_handle = Some [(''a'', ''FREE'')]\<rparr> ''a'' '''' = (True, ''FREE'')"
  using put_then_get [of mem_env "\<lparr>db_handle = Some []\<rparr>" "''a''" "''FREE''" "''''" 1 "''''"
      "\<lparr>db_handle = Some [(''a'', ''FREE'')]\<rparr>" "''SHARED''" "''''" 0 "''FREE''"
      "\<lparr>db_handle = Some [(''a'', ''SHARED'')]\<rparr>" "''''" "''b''"]
  by (simp add: RocksDB_Put_def Let_def)

end
