(* ===== verification/PaxosState.thy ===== *)
theory PaxosState
  imports Address RocksDB
begin

text \<open>
  The data of the Paxos server (src/include/paxos_server.h): the slot, its protobuf image and the
  state of \<open>PaxosImpl\<close>, with the constructor and \<open>initSlot\<close>, \<open>fillSlot\<close>, \<open>ToProtobuf\<close> and
  \<open>addSlots\<close>.

  Slots.  The code keeps \<open>PaxosSlot *\<close> in a \<open>std::map<int, PaxosSlot *>\<close>; every slot object is
  reached through the one entry that owns it, so that the model keeps the slot itself and writes it
  back.  The mutex \<open>mu\<close> of the server is the field \<open>mu_locked\<close>: an operation that would lock it
  while it is held is \<open>Blocked\<close>.  The two mutexes of a slot are free between the operations
  modelled as single steps; the order in which they are taken is the subject of the theory
  \<open>LockOrder\<close>.

  Fields the code never reads (\<open>max_proposal_number_seen_so_far\<close>, \<open>highest_log_idx\<close>,
  \<open>max_accept_retries\<close>, \<open>master_address\<close>, \<open>log\<close>, \<open>accept_thread_pool\<close>) are left out.
\<close>

section \<open>Slots\<close>

text \<open>
  \<open>Raw_status\<close> is a value that \<open>static_cast<ConsensusStatus>\<close> makes of an integer that is not
  one of the enumerators.
\<close>

datatype consensus_status = DECIDED | NOT_DECIDED | PENDING | FORGOTTEN | Raw_status int

record paxos_slot =
  slot_n :: int
  slot_n_p :: int
  slot_n_a :: int
  slot_v_a :: string
  slot_highest_N :: int
  slot_value :: string
  slot_status :: consensus_status

record proto_slot =
  pb_n :: int
  pb_n_p :: int
  pb_n_a :: int
  pb_v_a :: string
  pb_highest_n :: int
  pb_value :: string
  pb_status :: int

fun status_to_int :: "consensus_status \<Rightarrow> int" where
  "status_to_int DECIDED = 0"
| "status_to_int NOT_DECIDED = 1"
| "status_to_int PENDING = 2"
| "status_to_int FORGOTTEN = 3"
| "status_to_int (Raw_status i) = i"

definition status_of_int :: "int \<Rightarrow> consensus_status" where
  "status_of_int i =
     (if i = 0 then DECIDED else if i = 1 then NOT_DECIDED else if i = 2 then PENDING
      else if i = 3 then FORGOTTEN else Raw_status i)"

definition ToProtobuf :: "paxos_slot \<Rightarrow> proto_slot" where
  "ToProtobuf s =
     \<lparr>pb_n = slot_n s, pb_n_p = slot_n_p s, pb_n_a = slot_n_a s, pb_v_a = slot_v_a s,
      pb_highest_n = slot_highest_N s, pb_value = slot_value s,
      pb_status = status_to_int (slot_status s)\<rparr>"

definition fillSlot :: "proto_slot \<Rightarrow> paxos_slot" where
  "fillSlot rpc_slot =
     \<lparr>slot_n = pb_n rpc_slot, slot_n_p = pb_n_p rpc_slot, slot_n_a = pb_n_a rpc_slot,
      slot_v_a = pb_v_a rpc_slot, slot_highest_N = pb_highest_n rpc_slot,
      slot_value = pb_value rpc_slot, slot_status = status_of_int (pb_status rpc_slot)\<rparr>"

definition initSlot :: "int \<Rightarrow> paxos_slot" where
  "initSlot vw =
     \<lparr>slot_n = vw, slot_n_p = - 1, slot_n_a = vw, slot_v_a = '''', slot_highest_N = vw,
      slot_value = '''', slot_status = PENDING\<rparr>"

lemma status_of_to_int: "\<forall>i. s \<noteq> Raw_status i \<Longrightarrow> status_of_int (status_to_int s) = s"
  by (cases s) (auto simp: status_of_int_def)

lemma status_to_of_int [simp]: "status_to_int (status_of_int i) = i"
  by (simp add: status_of_int_def)

section \<open>The server\<close>

record 'd paxos_impl =
  highest_slot :: int
  lowest_slot :: int
  done_vec :: "int list"
  slots :: "(int, paxos_slot) smap"
  view :: int
  mu_locked :: bool
  me :: int
  leader_dead :: bool
  group_size :: int
  first_port :: int
  last_port :: int
  self_port :: int
  missed_heartbeats :: int
  highest_accepted_seq :: int
  num_servers :: int
  is_dead :: int
  leader_election_happened :: bool
  server_address :: string
  paxos_db :: "'d rocksdb"
  paxos_stubs_map :: "(string, unit) smap"

text \<open>
  The constructor assigns some of the fields.  The others (\<open>highest_slot\<close>, \<open>lowest_slot\<close>,
  \<open>view\<close>, \<open>missed_heartbeats\<close>, \<open>highest_accepted_seq\<close>, \<open>is_dead\<close>) have no initializer, so that
  they keep what the storage holds: the argument \<open>raw\<close>.
\<close>

definition PaxosImpl_new ::
  "'d env \<Rightarrow> 'd paxos_impl \<Rightarrow> int \<Rightarrow> string \<Rightarrow> string \<Rightarrow> exn + 'd paxos_impl" where
  "PaxosImpl_new E raw gs db_path addr =
     (case getPortNumber addr of
        Inl x \<Rightarrow> Inl x
      | Inr port \<Rightarrow>
          (let lst = to_int32 (50051 + gs - 1) in
           Inr (raw\<lparr>leader_dead := False, leader_election_happened := False, mu_locked := False,
                    slots := [],
                    paxos_db := RocksDBWrapper_new E db_path,
                    group_size := gs,
                    first_port := 50051,
                    last_port := lst,
                    server_address := addr,
                    self_port := port,
                    me := port smod 50051,
                    num_servers := gs,
                    done_vec := replicate (nat gs) (- 1),
                    paxos_stubs_map := InitializeServerStubs 50051 lst\<rparr>)))"

text \<open>
  \<open>addSlots\<close> makes the slot if it is missing and, in every case, overwrites its \<open>n_a\<close> with the
  server's view.
\<close>

definition get_slot :: "'d paxos_impl \<Rightarrow> int \<Rightarrow> paxos_slot option" where
  "get_slot s seq = map_of (slots s) seq"

definition set_slot :: "int \<Rightarrow> paxos_slot \<Rightarrow> 'd paxos_impl \<Rightarrow> 'd paxos_impl" where
  "set_slot seq sl s = s\<lparr>slots := smap_put seq sl (slots s)\<rparr>"

definition addSlots :: "'d paxos_impl \<Rightarrow> int \<Rightarrow> paxos_slot \<times> 'd paxos_impl" where
  "addSlots s seq =
     (let sl = (case get_slot s seq of None \<Rightarrow> initSlot (view s) | Some sl \<Rightarrow> sl);
          sl' = sl\<lparr>slot_n_a := view s\<rparr>
      in (sl', set_slot seq sl' s))"

text \<open>The value a server has decided for a slot.\<close>

definition decided :: "'d paxos_impl \<Rightarrow> int \<Rightarrow> string option" where
  "decided s seq =
     (case get_slot s seq of
        Some sl \<Rightarrow> (if slot_status sl = DECIDED then Some (slot_value sl) else None)
      | None \<Rightarrow> None)"

text \<open>The number of the prepare request a slot has promised, \<open>-1\<close> before the slot exists.\<close>

definition promised :: "'d paxos_impl \<Rightarrow> int \<Rightarrow> int" where
  "promised s seq = (case get_slot s seq of Some sl \<Rightarrow> slot_n_p sl | None \<Rightarrow> - 1)"

lemma get_set_slot [simp]:
  "get_slot (set_slot q sl s) j = (if j = q then Some sl else get_slot s j)"
  by (simp add: get_slot_def set_slot_def)

lemma set_slot_frame [simp]:
  "highest_slot (set_slot q sl s) = highest_slot s" "lowest_slot (set_slot q sl s) = lowest_slot s"
  "done_vec (set_slot q sl s) = done_vec s" "view (set_slot q sl s) = view s"
  "mu_locked (set_slot q sl s) = mu_locked s" "me (set_slot q sl s) = me s"
  "leader_dead (set_slot q sl s) = leader_dead s" "group_size (set_slot q sl s) = group_size s"
  "first_port (set_slot q sl s) = first_port s" "last_port (set_slot q sl s) = last_port s"
  "self_port (set_slot q sl s) = self_port s"
  "missed_heartbeats (set_slot q sl s) = missed_heartbeats s"
  "highest_accepted_seq (set_slot q sl s) = highest_accepted_seq s"
  "num_servers (set_slot q sl s) = num_servers s" "is_dead (set_slot q sl s) = is_dead s"
  "leader_election_happened (set_slot q sl s) = leader_election_happened s"
  "server_address (set_slot q sl s) = server_address s" "paxos_db (set_slot q sl s) = paxos_db s"
  "paxos_stubs_map (set_slot q sl s) = paxos_stubs_map s"
  by (simp_all add: set_slot_def)

lemma decided_set_slot [simp]:
  "decided (set_slot q sl s) =
     (decided s)(q := (if slot_status sl = DECIDED then Some (slot_value sl) else None))"
  by (auto simp: fun_eq_iff decided_def)

lemma promised_set_slot [simp]: "promised (set_slot q sl s) = (promised s)(q := slot_n_p sl)"
  by (auto simp: fun_eq_iff promised_def)

lemma smap_ok_set_slot [simp]: "smap_ok (slots s) \<Longrightarrow> smap_ok (slots (set_slot q sl s))"
  by (simp add: set_slot_def)

text \<open>\<open>decided\<close> and \<open>promised\<close> read nothing but the slots.\<close>

lemma decided_cong: "slots s = slots t \<Longrightarrow> decided s = decided t"
  by (simp add: decided_def get_slot_def fun_eq_iff)

lemma promised_cong: "slots s = slots t \<Longrightarrow> promised s = promised t"
  by (simp add: promised_def get_slot_def fun_eq_iff)

lemma addSlots_frame [simp]:
  "highest_slot (snd (addSlots s q)) = highest_slot s" "lowest_slot (snd (addSlots s q)) = lowest_slot s"
  "done_vec (snd (addSlots s q)) = done_vec s" "view (snd (addSlots s q)) = view s"
  "mu_locked (snd (addSlots s q)) = mu_locked s" "me (snd (addSlots s q)) = me s"
  "leader_dead (snd (addSlots s q)) = leader_dead s" "group_size (snd (addSlots s q)) = group_size s"
  "first_port (snd (addSlots s q)) = first_port s" "last_port (snd (addSlots s q)) = last_port s"
  "missed_heartbeats (snd (addSlots s q)) = missed_heartbeats s"
  "highest_accepted_seq (snd (addSlots s q)) = highest_accepted_seq s"
  "num_servers (snd (addSlots s q)) = num_servers s" "is_dead (snd (addSlots s q)) = is_dead s"
  "leader_election_happened (snd (addSlots s q)) = leader_election_happened s"
  "server_address (snd (addSlots s q)) = server_address s" "paxos_db (snd (addSlots s q)) = paxos_db s"
  "paxos_stubs_map (snd (addSlots s q)) = paxos_stubs_map s"
  by (simp_all add: addSlots_def Let_def)

lemma addSlots_slot:
  "fst (addSlots s q) =
     (case get_slot s q of None \<Rightarrow> initSlot (view s) | Some sl \<Rightarrow> sl\<lparr>slot_n_a := view s\<rparr>)"
  by (simp add: addSlots_def Let_def initSlot_def split: option.split)

lemma get_addSlots [simp]:
  "get_slot (snd (addSlots s q)) j = (if j = q then Some (fst (addSlots s q)) else get_slot s j)"
  by (simp add: addSlots_def Let_def)

lemma decided_addSlots [simp]: "decided (snd (addSlots s q)) = decided s"
  by (auto simp: fun_eq_iff decided_def addSlots_slot initSlot_def split: option.splits)

lemma promised_addSlots [simp]: "promised (snd (addSlots s q)) = promised s"
  by (auto simp: fun_eq_iff promised_def addSlots_slot initSlot_def split: option.splits)

lemma addSlots_status [simp]:
  "slot_status (fst (addSlots s q)) = DECIDED \<longleftrightarrow> decided s q \<noteq> None"
  by (auto simp: addSlots_slot decided_def initSlot_def split: option.splits)

lemma addSlots_value: "decided s q = Some v \<Longrightarrow> slot_value (fst (addSlots s q)) = v"
  by (auto simp: addSlots_slot decided_def split: option.splits if_splits)

lemma addSlots_n_p [simp]: "slot_n_p (fst (addSlots s q)) = promised s q"
  by (auto simp: addSlots_slot promised_def initSlot_def split: option.splits)

lemma addSlots_n_a [simp]: "slot_n_a (fst (addSlots s q)) = view s"
  by (auto simp: addSlots_slot initSlot_def split: option.splits)

lemma smap_ok_addSlots [simp]: "smap_ok (slots s) \<Longrightarrow> smap_ok (slots (snd (addSlots s q)))"
  by (simp add: addSlots_def Let_def set_slot_def)

text \<open>
  A server of a three-server cell that has just started on an empty database, for the witnesses
  of the theorems.
\<close>

definition sample_addr :: "int \<Rightarrow> string" where
  "sample_addr i =
     (if i = 0 then ''127.0.0.1:50051'' else if i = 1 then ''127.0.0.1:50052'' else ''127.0.0.1:50053'')"

lemma sample_addr_simps [simp]:
  "sample_addr 0 = ''127.0.0.1:50051''" "sample_addr 1 = ''127.0.0.1:50052''"
  "sample_addr 2 = ''127.0.0.1:50053''"
  by (simp_all add: sample_addr_def)

definition sample_server :: "int \<Rightarrow> (string \<times> string) list paxos_impl" where
  "sample_server i =
     \<lparr>highest_slot = 0, lowest_slot = 0, done_vec = [- 1, - 1, - 1], slots = [], view = 0,
      mu_locked = False, me = i, leader_dead = False, group_size = 3, first_port = 50051,
      last_port = 50053, self_port = 50051 + i, missed_heartbeats = 0, highest_accepted_seq = 0,
      num_servers = 3, is_dead = 0, leader_election_happened = False,
      server_address = sample_addr i, paxos_db = \<lparr>db_handle = Some []\<rparr>,
      paxos_stubs_map = [(''127.0.0.1:50051'', ()), (''127.0.0.1:50052'', ()), (''127.0.0.1:50053'', ())]\<rparr>"

lemma sample_server_sel [simp]:
  "highest_slot (sample_server i) = 0" "lowest_slot (sample_server i) = 0"
  "done_vec (sample_server i) = [- 1, - 1, - 1]" "slots (sample_server i) = []"
  "view (sample_server i) = 0" "\<not> mu_locked (sample_server i)" "me (sample_server i) = i"
  "\<not> leader_dead (sample_server i)" "group_size (sample_server i) = 3"
  "num_servers (sample_server i) = 3" "missed_heartbeats (sample_server i) = 0"
  "highest_accepted_seq (sample_server i) = 0" "is_dead (sample_server i) = 0"
  "\<not> leader_election_happened (sample_server i)"
  "first_port (sample_server i) = 50051" "get_slot (sample_server i) q = None"
  "decided (sample_server i) = Map.empty" "promised (sample_server i) q = - 1"
  "server_address (sample_server i) = sample_addr i"
  "paxos_db (sample_server i) = \<lparr>db_handle = Some []\<rparr>"
  "paxos_stubs_map (sample_server i) =
     [(''127.0.0.1:50051'', ()), (''127.0.0.1:50052'', ()), (''127.0.0.1:50053'', ())]"
  by (simp_all add: sample_server_def get_slot_def decided_def promised_def fun_eq_iff)

section \<open>Properties\<close>

text \<open>
  A slot survives the trip through its protobuf image (\<open>ToProtobuf\<close>, then \<open>fillSlot\<close>), and
  every protobuf slot the trip through the server's.
\<close>
theorem slot_roundtrip:
  assumes "\<forall>i. slot_status sl \<noteq> Raw_status i"
  shows "fillSlot (ToProtobuf sl) = sl \<and> ToProtobuf (fillSlot p) = p"
  using assms by (simp add: fillSlot_def ToProtobuf_def status_of_to_int)

lemma slot_roundtrip_witness: "fillSlot (ToProtobuf (initSlot 4)) = initSlot 4"
  using slot_roundtrip [of "initSlot 4"] by (simp add: initSlot_def)

end
