(* ===== verification/Acceptor.thy ===== *)
theory Acceptor
  imports PaxosState
begin

text \<open>
  The acceptor and learner side of \<open>PaxosImpl\<close>: the RPC handlers \<open>Elect\<close>, \<open>Prepare\<close>,
  \<open>Accept\<close> and \<open>Learn\<close>, and \<open>Forget\<close>.  A handler takes the server's state and the request
  and returns how the call ends and the new state.  \<open>Prepare\<close>, \<open>Accept\<close> and \<open>Learn\<close> work in
  two critical sections, first under the server's mutex \<open>mu\<close>, then under the slot's mutex
  \<open>mu_\<close>; each section is a definition of its own (\<open>..._mu\<close> and \<open>..._slot\<close>), and the handler is
  their composition.
\<close>

section \<open>Messages\<close>

record elect_request =
  er_view :: int

record elect_response =
  el_view :: int
  el_status :: string
  el_highest_seq :: int

record prepare_request =
  pr_seq :: int
  pr_proposal_number :: int
  pr_latest_done :: int
  pr_sender_id :: int

record prepare_response =
  pp_status :: string
  pp_n_a :: int
  pp_v_a :: string
  pp_highest_n :: int
  pp_latest_done :: int
  pp_value :: string

record accept_request =
  ar_seq :: int
  ar_view :: int
  ar_value :: string
  ar_sender_id :: int
  ar_latest_done :: int

record accept_response =
  ap_status :: string
  ap_latest_done :: int
  ap_value :: string
  ap_view :: int

record decide_request =
  dr_seq :: int
  dr_value :: string
  dr_sender_id :: int
  dr_latest_done :: int

record decide_response =
  dp_latest_done :: int

section \<open>Locking mu\<close>

definition with_mu ::
  "'d paxos_impl \<Rightarrow> 'r result \<times> 'd paxos_impl \<Rightarrow> 'r result \<times> 'd paxos_impl" where
  "with_mu s body = (if mu_locked s then (Blocked, s) else body)"

lemma with_mu_free [simp]: "\<not> mu_locked s \<Longrightarrow> with_mu s body = body"
  by (simp add: with_mu_def)

lemma with_mu_held [simp]: "mu_locked s \<Longrightarrow> with_mu s body = (Blocked, s)"
  by (simp add: with_mu_def)

text \<open>
  The check of \<open>lowest_slot\<close>, the read of \<open>done[me]\<close> and the call of \<open>addSlots\<close> with which
  \<open>Prepare\<close>, \<open>Accept\<close> and \<open>Learn\<close> begin.  \<open>Ok d\<close> returns \<open>done[me]\<close>.
\<close>

definition enter_slot :: "'d paxos_impl \<Rightarrow> int \<Rightarrow> int result \<times> 'd paxos_impl" where
  "enter_slot s seq =
     with_mu s
       (if seq < lowest_slot s then (Error INVALID_ARGUMENT, s)
        else case vec_get (done_vec s) (me s) of
               None \<Rightarrow> (Raise Out_of_bounds, s)
             | Some d \<Rightarrow> (Ok d, snd (addSlots s seq)))"

section \<open>Elect\<close>

definition Elect ::
  "'d paxos_impl \<Rightarrow> elect_request \<Rightarrow> elect_response result \<times> 'd paxos_impl" where
  "Elect s req =
     with_mu s
       (if view s < er_view req then
          (let s' = s\<lparr>view := to_int32 (er_view req), leader_dead := False,
                      missed_heartbeats := 0\<rparr>
           in (Ok \<lparr>el_view = view s', el_status = ''OK'',
                   el_highest_seq = highest_accepted_seq s'\<rparr>, s'))
        else if er_view req = view s then
          (Ok \<lparr>el_view = view s, el_status = ''OK'', el_highest_seq = highest_accepted_seq s\<rparr>, s)
        else (Ok \<lparr>el_view = view s, el_status = ''Reject'', el_highest_seq = 0\<rparr>, s))"

section \<open>Prepare\<close>

definition Prepare_slot ::
  "'d env \<Rightarrow> prepare_request \<Rightarrow> int \<Rightarrow> paxos_slot \<Rightarrow> prepare_response \<times> paxos_slot" where
  "Prepare_slot E req d sl =
     (let granted = slot_n_p sl < pr_proposal_number req;
          sl' = (if granted then sl\<lparr>slot_n_p := pr_proposal_number req\<rparr> else sl)
      in (\<lparr>pp_status = (if granted then ''OK'' else ''Reject''),
           pp_n_a = slot_n_a sl', pp_v_a = slot_v_a sl',
           pp_highest_n = (if granted then pr_proposal_number req else slot_n_p sl'),
           pp_latest_done = d,
           pp_value = (if slot_status sl' = DECIDED then slot_value sl' else null_str E)\<rparr>,
          sl'))"

definition Prepare ::
  "'d env \<Rightarrow> 'd paxos_impl \<Rightarrow> prepare_request \<Rightarrow> prepare_response result \<times> 'd paxos_impl" where
  "Prepare E s req =
     (case enter_slot s (pr_seq req) of
        (Ok d, s1) \<Rightarrow>
          (case Prepare_slot E req d (fst (addSlots s (pr_seq req))) of
             (resp, sl) \<Rightarrow> (Ok resp, set_slot (pr_seq req) sl s1))
      | (Error c, s1) \<Rightarrow> (Error c, s1)
      | (Raise x, s1) \<Rightarrow> (Raise x, s1)
      | (Blocked, s1) \<Rightarrow> (Blocked, s1))"

section \<open>Accept\<close>

text \<open>
  The first section of \<open>Accept\<close> calls \<open>addSlots\<close>, with the view the server had, before it
  adopts a higher view of the request.
\<close>

definition Accept_mu :: "'d paxos_impl \<Rightarrow> accept_request \<Rightarrow> int result \<times> 'd paxos_impl" where
  "Accept_mu s req =
     (case enter_slot s (ar_seq req) of
        (Ok d, s1) \<Rightarrow>
          (Ok d, if view s1 < ar_view req
                 then s1\<lparr>view := ar_view req, leader_dead := False, missed_heartbeats := 0\<rparr>
                 else s1)
      | (r, s1) \<Rightarrow> (r, s1))"

definition Accept_slot ::
  "'d env \<Rightarrow> accept_request \<Rightarrow> int \<Rightarrow> paxos_slot \<Rightarrow> accept_response \<times> paxos_slot" where
  "Accept_slot E req d sl =
     (let ok = slot_n_a sl \<le> ar_view req;
          sl' = (if ok then sl\<lparr>slot_n_a := ar_view req, slot_v_a := ar_value req\<rparr> else sl)
      in (\<lparr>ap_status = (if ok then ''OK'' else ''REJECT''), ap_latest_done = d,
           ap_value = (if slot_status sl' = DECIDED then slot_value sl' else null_str E),
           ap_view = slot_n_a sl\<rparr>,
          sl'))"

definition Accept_seq :: "int \<Rightarrow> 'd paxos_impl \<Rightarrow> 'd paxos_impl" where
  "Accept_seq seq s =
     (if highest_accepted_seq s < seq then s\<lparr>highest_accepted_seq := seq\<rparr> else s)"

definition Accept ::
  "'d env \<Rightarrow> 'd paxos_impl \<Rightarrow> accept_request \<Rightarrow> accept_response result \<times> 'd paxos_impl" where
  "Accept E s req =
     (case Accept_mu s req of
        (Ok d, s1) \<Rightarrow>
          (case Accept_slot E req d (fst (addSlots s (ar_seq req))) of
             (resp, sl) \<Rightarrow>
               (Ok resp,
                (if ap_status resp = ''OK'' then Accept_seq (ar_seq req) else (\<lambda>t. t))
                  (set_slot (ar_seq req) sl s1)))
      | (Error c, s1) \<Rightarrow> (Error c, s1)
      | (Raise x, s1) \<Rightarrow> (Raise x, s1)
      | (Blocked, s1) \<Rightarrow> (Blocked, s1))"

section \<open>Learn\<close>

definition Learn_mu :: "'d paxos_impl \<Rightarrow> decide_request \<Rightarrow> int result \<times> 'd paxos_impl" where
  "Learn_mu s req =
     (case enter_slot s (dr_seq req) of
        (Ok d, s1) \<Rightarrow>
          (Ok d, if highest_slot s1 < dr_seq req then s1\<lparr>highest_slot := dr_seq req\<rparr> else s1)
      | (r, s1) \<Rightarrow> (r, s1))"

text \<open>
  The second section decides the slot, then parses the value and writes the database: a value
  without \<open>#\<close> raises after the slot has been written.  The result of the write is dropped.
\<close>

definition Learn_slot ::
  "'d env \<Rightarrow> decide_request \<Rightarrow> paxos_slot \<Rightarrow> 'd rocksdb \<Rightarrow> exn option \<times> paxos_slot \<times> 'd rocksdb" where
  "Learn_slot E req sl w =
     (if slot_status sl \<noteq> DECIDED then
        (let sl' = sl\<lparr>slot_status := DECIDED, slot_value := dr_value req\<rparr> in
         case getKeyValue (dr_value req) of
           Inl x \<Rightarrow> (Some x, sl', w)
         | Inr (key, val) \<Rightarrow> (None, sl', snd (snd (RocksDB_Put E w key val ''''))))
      else (None, sl, w))"

definition Learn ::
  "'d env \<Rightarrow> 'd paxos_impl \<Rightarrow> decide_request \<Rightarrow> decide_response result \<times> 'd paxos_impl" where
  "Learn E s req =
     (case Learn_mu s req of
        (Ok d, s1) \<Rightarrow>
          (case Learn_slot E req (fst (addSlots s (dr_seq req))) (paxos_db s1) of
             (x, sl, w) \<Rightarrow>
               ((case x of None \<Rightarrow> Ok \<lparr>dp_latest_done = d\<rparr> | Some e \<Rightarrow> Raise e),
                (set_slot (dr_seq req) sl s1)\<lparr>paxos_db := w\<rparr>))
      | (Error c, s1) \<Rightarrow> (Error c, s1)
      | (Raise x, s1) \<Rightarrow> (Raise x, s1)
      | (Blocked, s1) \<Rightarrow> (Blocked, s1))"

section \<open>Forget\<close>

text \<open>
  \<open>Forget\<close> (every call of it in the code is commented out) records the done index of a peer,
  moves \<open>lowest_slot\<close> past the smallest one and erases the slots below it.
\<close>

fun min_done :: "int \<Rightarrow> int list \<Rightarrow> int" where
  "min_done m [] = m"
| "min_done m (d # ds) = min_done (min m d) ds"

definition Forget :: "'d paxos_impl \<Rightarrow> int \<Rightarrow> int \<Rightarrow> unit result \<times> 'd paxos_impl" where
  "Forget s peer peerDone =
     with_mu s
       (case vec_get (done_vec s) peer of
          None \<Rightarrow> (Raise Out_of_bounds, s)
        | Some d \<Rightarrow>
            (let ds = (if d < peerDone then (done_vec s)[nat peer := peerDone] else done_vec s);
                 mini = min_done (hd ds) ds;
                 offset = to_int32 (mini - lowest_slot s + 1);
                 low = (if 0 < offset then to_int32 (lowest_slot s + offset) else lowest_slot s)
             in (Ok (), s\<lparr>done_vec := ds, lowest_slot := low,
                         slots := filter (\<lambda>(k, sl). \<not> k < low) (slots s)\<rparr>)))"

section \<open>When a handler reaches the slot\<close>

definition can_enter :: "'d paxos_impl \<Rightarrow> int \<Rightarrow> bool" where
  "can_enter s seq \<longleftrightarrow>
     \<not> mu_locked s \<and> lowest_slot s \<le> seq \<and> 0 \<le> me s \<and> me s < int (length (done_vec s))"

definition done_me :: "'d paxos_impl \<Rightarrow> int" where
  "done_me s = done_vec s ! nat (me s)"

lemma enter_slot_ok: "can_enter s q \<Longrightarrow> enter_slot s q = (Ok (done_me s), snd (addSlots s q))"
  by (simp add: can_enter_def enter_slot_def vec_get_def done_me_def)

lemma enter_slot_refused:
  assumes "\<not> can_enter s q"
  obtains c where "enter_slot s q = (Error c, s)" | x where "enter_slot s q = (Raise x, s)"
  | "enter_slot s q = (Blocked, s)"
  using assms
  by (cases "mu_locked s"; cases "q < lowest_slot s")
    (auto simp: can_enter_def enter_slot_def vec_get_def split: if_splits)

lemma Prepare_ok:
  "can_enter s (pr_seq req) \<Longrightarrow>
   Prepare E s req =
     (let p = Prepare_slot E req (done_me s) (fst (addSlots s (pr_seq req)))
      in (Ok (fst p), set_slot (pr_seq req) (snd p) (snd (addSlots s (pr_seq req)))))"
  by (simp add: Prepare_def enter_slot_ok split: prod.split)

lemma Prepare_refused:
  "\<not> can_enter s (pr_seq req) \<Longrightarrow> snd (Prepare E s req) = s \<and> \<not> is_Ok (fst (Prepare E s req))"
  by (erule enter_slot_refused) (auto simp: Prepare_def)

text \<open>The state after the first section of \<open>Accept\<close> and of \<open>Learn\<close>.\<close>

definition adopt_view :: "int \<Rightarrow> 'd paxos_impl \<Rightarrow> 'd paxos_impl" where
  "adopt_view vw s =
     (if view s < vw then s\<lparr>view := vw, leader_dead := False, missed_heartbeats := 0\<rparr> else s)"

definition raise_highest :: "int \<Rightarrow> 'd paxos_impl \<Rightarrow> 'd paxos_impl" where
  "raise_highest seq s = (if highest_slot s < seq then s\<lparr>highest_slot := seq\<rparr> else s)"

lemma Accept_ok:
  "can_enter s (ar_seq req) \<Longrightarrow>
   Accept E s req =
     (let p = Accept_slot E req (done_me s) (fst (addSlots s (ar_seq req)));
          s2 = set_slot (ar_seq req) (snd p)
                 (adopt_view (ar_view req) (snd (addSlots s (ar_seq req))))
      in (Ok (fst p), if view s \<le> ar_view req then Accept_seq (ar_seq req) s2 else s2))"
  by (auto simp: Accept_def Accept_mu_def enter_slot_ok adopt_view_def Accept_slot_def Let_def
      split: prod.split)

lemma Accept_refused:
  "\<not> can_enter s (ar_seq req) \<Longrightarrow> snd (Accept E s req) = s \<and> \<not> is_Ok (fst (Accept E s req))"
  by (erule enter_slot_refused) (auto simp: Accept_def Accept_mu_def)

lemma Learn_ok:
  "can_enter s (dr_seq req) \<Longrightarrow>
   Learn E s req =
     (let p = Learn_slot E req (fst (addSlots s (dr_seq req))) (paxos_db s)
      in ((case fst p of None \<Rightarrow> Ok \<lparr>dp_latest_done = done_me s\<rparr> | Some e \<Rightarrow> Raise e),
          (set_slot (dr_seq req) (fst (snd p))
             (raise_highest (dr_seq req) (snd (addSlots s (dr_seq req)))))
            \<lparr>paxos_db := snd (snd p)\<rparr>))"
  by (simp add: Learn_def Learn_mu_def enter_slot_ok raise_highest_def split: prod.split)

lemma Learn_refused:
  "\<not> can_enter s (dr_seq req) \<Longrightarrow> snd (Learn E s req) = s \<and> \<not> is_Ok (fst (Learn E s req))"
  by (erule enter_slot_refused) (auto simp: Learn_def Learn_mu_def)

lemma adopt_view_frame [simp]:
  "slots (adopt_view vw s) = slots s" "lowest_slot (adopt_view vw s) = lowest_slot s"
  "done_vec (adopt_view vw s) = done_vec s" "mu_locked (adopt_view vw s) = mu_locked s"
  "me (adopt_view vw s) = me s" "view (adopt_view vw s) = max (view s) vw"
  "paxos_db (adopt_view vw s) = paxos_db s" "num_servers (adopt_view vw s) = num_servers s"
  "paxos_stubs_map (adopt_view vw s) = paxos_stubs_map s"
  "highest_accepted_seq (adopt_view vw s) = highest_accepted_seq s"
  "is_dead (adopt_view vw s) = is_dead s" "group_size (adopt_view vw s) = group_size s"
  "server_address (adopt_view vw s) = server_address s"
  by (simp_all add: adopt_view_def)

lemma Accept_seq_frame [simp]:
  "slots (Accept_seq q s) = slots s" "lowest_slot (Accept_seq q s) = lowest_slot s"
  "done_vec (Accept_seq q s) = done_vec s" "mu_locked (Accept_seq q s) = mu_locked s"
  "me (Accept_seq q s) = me s" "view (Accept_seq q s) = view s"
  "paxos_db (Accept_seq q s) = paxos_db s" "num_servers (Accept_seq q s) = num_servers s"
  "paxos_stubs_map (Accept_seq q s) = paxos_stubs_map s"
  "highest_accepted_seq (Accept_seq q s) = max (highest_accepted_seq s) q"
  "is_dead (Accept_seq q s) = is_dead s" "group_size (Accept_seq q s) = group_size s"
  "server_address (Accept_seq q s) = server_address s" "leader_dead (Accept_seq q s) = leader_dead s"
  by (simp_all add: Accept_seq_def)

lemma raise_highest_frame [simp]:
  "slots (raise_highest q s) = slots s" "lowest_slot (raise_highest q s) = lowest_slot s"
  "done_vec (raise_highest q s) = done_vec s" "mu_locked (raise_highest q s) = mu_locked s"
  "me (raise_highest q s) = me s" "view (raise_highest q s) = view s"
  "paxos_db (raise_highest q s) = paxos_db s" "num_servers (raise_highest q s) = num_servers s"
  "paxos_stubs_map (raise_highest q s) = paxos_stubs_map s"
  "highest_accepted_seq (raise_highest q s) = highest_accepted_seq s"
  "is_dead (raise_highest q s) = is_dead s" "group_size (raise_highest q s) = group_size s"
  "server_address (raise_highest q s) = server_address s"
  "leader_dead (raise_highest q s) = leader_dead s"
  by (simp_all add: raise_highest_def)

section \<open>Effects on decisions, promises and the view\<close>

lemma get_slot_cong: "slots s = slots t \<Longrightarrow> get_slot s = get_slot t"
  by (simp add: get_slot_def fun_eq_iff)

lemma decided_frame [simp]:
  "decided (adopt_view vw s) = decided s" "decided (Accept_seq q s) = decided s"
  "decided (raise_highest q s) = decided s" "decided (s\<lparr>paxos_db := w\<rparr>) = decided s"
  by (rule decided_cong, simp)+

lemma promised_frame [simp]:
  "promised (adopt_view vw s) = promised s" "promised (Accept_seq q s) = promised s"
  "promised (raise_highest q s) = promised s" "promised (s\<lparr>paxos_db := w\<rparr>) = promised s"
  by (rule promised_cong, simp)+

lemma decided_Prepare [simp]: "decided (snd (Prepare E s req)) = decided s"
proof (cases "can_enter s (pr_seq req)")
  case True
  then show ?thesis
    by (auto simp: Prepare_ok Prepare_slot_def Let_def fun_eq_iff dest: addSlots_value)
qed (simp add: Prepare_refused)

lemma decided_Accept [simp]: "decided (snd (Accept E s req)) = decided s"
proof (cases "can_enter s (ar_seq req)")
  case True
  then show ?thesis
    by (auto simp: Accept_ok Accept_slot_def Let_def fun_eq_iff dest: addSlots_value)
qed (simp add: Accept_refused)

lemma decided_Learn:
  "decided (snd (Learn E s req)) =
     (if can_enter s (dr_seq req) \<and> decided s (dr_seq req) = None
      then (decided s)(dr_seq req \<mapsto> dr_value req) else decided s)"
proof (cases "can_enter s (dr_seq req)")
  case True
  then show ?thesis
    by (auto simp: Learn_ok Learn_slot_def Let_def fun_eq_iff dest: addSlots_value
        split: sum.split)
qed (simp add: Learn_refused)

lemma promised_Prepare:
  "promised (snd (Prepare E s req)) =
     (if can_enter s (pr_seq req)
      then (promised s)(pr_seq req := max (promised s (pr_seq req)) (pr_proposal_number req))
      else promised s)"
proof (cases "can_enter s (pr_seq req)")
  case True
  then show ?thesis
    by (auto simp: Prepare_ok Prepare_slot_def Let_def fun_eq_iff)
qed (simp add: Prepare_refused)

lemma promised_Accept [simp]: "promised (snd (Accept E s req)) = promised s"
proof (cases "can_enter s (ar_seq req)")
  case True
  then show ?thesis
    by (auto simp: Accept_ok Accept_slot_def Let_def fun_eq_iff)
qed (simp add: Accept_refused)

lemma promised_Learn [simp]: "promised (snd (Learn E s req)) = promised s"
proof (cases "can_enter s (dr_seq req)")
  case True
  then show ?thesis
    by (auto simp: Learn_ok Learn_slot_def Let_def fun_eq_iff split: sum.split)
qed (simp add: Learn_refused)

text \<open>The slot after each handler has reached it.\<close>

lemma get_slot_adopt [simp]:
  "get_slot (adopt_view vw s) = get_slot s" "get_slot (Accept_seq k s) = get_slot s"
  "get_slot (raise_highest k s) = get_slot s" "get_slot (s\<lparr>paxos_db := w\<rparr>) = get_slot s"
  by (rule get_slot_cong, simp)+

lemma can_enter_Prepare [simp]: "can_enter (snd (Prepare E s req)) q = can_enter s q"
  by (cases "can_enter s (pr_seq req)")
    (simp_all add: Prepare_ok Prepare_refused Let_def can_enter_def)

lemma done_me_Prepare [simp]: "done_me (snd (Prepare E s req)) = done_me s"
  by (cases "can_enter s (pr_seq req)")
    (simp_all add: Prepare_ok Prepare_refused Let_def done_me_def)

lemma view_Prepare [simp]: "view (snd (Prepare E s req)) = view s"
  by (cases "can_enter s (pr_seq req)") (simp_all add: Prepare_ok Prepare_refused Let_def)

lemma Prepare_mu_frame [simp]:
  "lowest_slot (snd (Prepare E s req)) = lowest_slot s"
  "mu_locked (snd (Prepare E s req)) = mu_locked s" "me (snd (Prepare E s req)) = me s"
  "done_vec (snd (Prepare E s req)) = done_vec s"
  by (cases "can_enter s (pr_seq req)", simp_all add: Prepare_ok Prepare_refused Let_def)+

text \<open>The answer of \<open>Accept\<close> depends on the decision of the slot and on the view, on nothing else.\<close>

lemma fst_Accept:
  "can_enter s (ar_seq req) \<Longrightarrow>
   fst (Accept E s req) =
     Ok \<lparr>ap_status = (if view s \<le> ar_view req then ''OK'' else ''REJECT''),
         ap_latest_done = done_me s,
         ap_value = (case decided s (ar_seq req) of Some v \<Rightarrow> v | None \<Rightarrow> null_str E),
         ap_view = view s\<rparr>"
  by (auto simp: Accept_ok Accept_slot_def Let_def dest: addSlots_value split: option.split)

lemma fst_Accept_refused:
  assumes "\<not> can_enter s (ar_seq req)" "lowest_slot t = lowest_slot s"
    "mu_locked t = mu_locked s" "me t = me s" "done_vec t = done_vec s"
  shows "fst (Accept E t req) = fst (Accept E s req)"
  using assms
  by (auto simp: Accept_def Accept_mu_def enter_slot_def with_mu_def can_enter_def vec_get_def)

section \<open>Properties\<close>

text \<open>
  \<open>Accept\<close> decides by the view alone.  It answers \<open>OK\<close> exactly when the view of the request
  is not below the server's; then the slot holds the proposed value under that view and the server
  has moved to it; otherwise the slot keeps its value and the server its view.  No decision and no
  promise changes either way.
\<close>
theorem accept_by_view:
  assumes "can_enter s (ar_seq req)"
  shows "\<exists>r s' sl. Accept E s req = (Ok r, s') \<and> get_slot s' (ar_seq req) = Some sl \<and>
    (ap_status r = ''OK'' \<longleftrightarrow> view s \<le> ar_view req) \<and>
    (view s \<le> ar_view req \<longrightarrow>
       slot_v_a sl = ar_value req \<and> slot_n_a sl = ar_view req \<and> view s' = ar_view req) \<and>
    (ar_view req < view s \<longrightarrow> slot_v_a sl = slot_v_a (fst (addSlots s (ar_seq req))) \<and> view s' = view s) \<and>
    decided s' = decided s \<and> promised s' = promised s"
  using decided_Accept [of E s req] promised_Accept [of E s req] Accept_ok [OF assms, of E]
  by (auto simp: Accept_slot_def Let_def)

lemma accept_by_view_witness:
  "let req = \<lparr>ar_seq = 1, ar_view = 2, ar_value = ''a#FREE'', ar_sender_id = 2, ar_latest_done = - 1\<rparr>
   in \<exists>r s'. Accept mem_env (sample_server 0) req = (Ok r, s') \<and> ap_status r = ''OK'' \<and> view s' = 2"
  using accept_by_view [of "sample_server 0"
      "\<lparr>ar_seq = 1, ar_view = 2, ar_value = ''a#FREE'', ar_sender_id = 2, ar_latest_done = - 1\<rparr>" mem_env]
  by (auto simp: can_enter_def)

text \<open>
  A promise binds nobody.  Whatever \<open>Prepare\<close> request a server has handled, granted or not, it
  answers every \<open>Accept\<close> as it would have answered without it: the number \<open>n_p\<close> that \<open>Prepare\<close>
  records is never compared with an accept request.
\<close>
theorem accept_ignores_promises:
  "fst (Accept E (snd (Prepare E s preq)) req) = fst (Accept E s req)"
proof (cases "can_enter s (ar_seq req)")
  case True
  then show ?thesis by (simp add: fst_Accept)
next
  case False
  then show ?thesis by (intro fst_Accept_refused) simp_all
qed

text \<open>
  C17: the first \<open>Learn\<close> of a slot decides it and writes the lock's mode under its path to the
  database; a later \<open>Learn\<close> of the slot, of whatever value, changes neither.
\<close>
theorem learn_decides_and_stores:
  assumes "rocks_ok E" "rocks_writes E" "db_handle (paxos_db s) \<noteq> None"
    and "can_enter s (dr_seq req)" "decided s (dr_seq req) = None"
    and "getKeyValue (dr_value req) = Inr (key, val)" "dr_seq again = dr_seq req"
  shows "let s' = snd (Learn E s req); s'' = snd (Learn E s' again) in
    fst (Learn E s req) = Ok \<lparr>dp_latest_done = done_me s\<rparr> \<and>
    decided s' = (decided s)(dr_seq req \<mapsto> dr_value req) \<and>
    store E (paxos_db s') = (store E (paxos_db s))(key \<mapsto> val) \<and>
    decided s'' = decided s' \<and> paxos_db s'' = paxos_db s'"
proof -
  let ?s' = "snd (Learn E s req)"
  have st: "store E (paxos_db ?s') = (store E (paxos_db s))(key \<mapsto> val)"
    and r: "fst (Learn E s req) = Ok \<lparr>dp_latest_done = done_me s\<rparr>"
    using RocksDB_Put_stores(1) [OF assms(1-3)] assms(4-6)
    by (simp_all add: Learn_ok Learn_slot_def Let_def)
  have ent: "can_enter ?s' (dr_seq again)"
    using assms(4,7) by (simp add: Learn_ok Let_def can_enter_def)
  have dec: "decided ?s' = (decided s)(dr_seq req \<mapsto> dr_value req)"
    using assms(4,5) by (simp add: decided_Learn)
  have "paxos_db (snd (Learn E ?s' again)) = paxos_db ?s'"
    using ent dec assms(7) by (simp add: Learn_ok Learn_slot_def Let_def)
  moreover have "decided (snd (Learn E ?s' again)) = decided ?s'"
    using dec assms(7) by (simp add: decided_Learn)
  ultimately show ?thesis using st r dec by (simp add: Let_def)
qed

lemma learn_decides_and_stores_witness:
  "decided (snd (Learn mem_env (sample_server 0)
     \<lparr>dr_seq = 1, dr_value = ''a#FREE'', dr_sender_id = 0, dr_latest_done = - 1\<rparr>)) 1 = Some ''a#FREE''"
  using learn_decides_and_stores [of mem_env "sample_server 0"
      "\<lparr>dr_seq = 1, dr_value = ''a#FREE'', dr_sender_id = 0, dr_latest_done = - 1\<rparr>" "''a''" "''FREE''"
      "\<lparr>dr_seq = 1, dr_value = ''b#FREE'', dr_sender_id = 0, dr_latest_done = - 1\<rparr>"]
  by (simp add: can_enter_def Let_def getKeyValue_Inr_iff)

text \<open>
  A value without \<open>#\<close> makes \<open>Learn\<close> raise after the slot has been decided: the caller sees a
  failed call, the database is untouched, the decision stands.
\<close>
theorem learn_raises_after_deciding:
  assumes "can_enter s (dr_seq req)" "decided s (dr_seq req) = None"
    and "CHR ''#'' \<notin> set (dr_value req)"
  shows "fst (Learn E s req) = Raise Invalid_argument \<and>
    decided (snd (Learn E s req)) (dr_seq req) = Some (dr_value req) \<and>
    paxos_db (snd (Learn E s req)) = paxos_db s"
proof -
  have "getKeyValue (dr_value req) = Inl Invalid_argument"
    using assms(3) by (simp add: getKeyValue_Inl_iff)
  then show ?thesis
    using assms(1,2) decided_Learn [of E s req] by (simp add: Learn_ok Learn_slot_def Let_def)
qed

lemma learn_raises_after_deciding_witness:
  "fst (Learn mem_env (sample_server 0)
     \<lparr>dr_seq = 1, dr_value = ''hello'', dr_sender_id = 0, dr_latest_done = - 1\<rparr>) = Raise Invalid_argument"
  using learn_raises_after_deciding [of "sample_server 0"
      "\<lparr>dr_seq = 1, dr_value = ''hello'', dr_sender_id = 0, dr_latest_done = - 1\<rparr>" mem_env]
  by (simp add: can_enter_def)

end
