(* ===== verification/Cluster.thy ===== *)
theory Cluster
  imports Acceptor
begin

text \<open>
  The servers of a cell and the calls between them.  A cluster maps the address of every running
  server to its state.  gRPC is not part of the program: what becomes of a call is decided by the
  environment, as the list \<open>net\<close> of fates that successive calls meet (when it is used up,
  calls are delivered).  A call that is lost, or whose reply is lost, or that reaches no running
  server, ends with a status that is not \<open>OK\<close>, and so does one whose handler raises; a handler
  that waits for a held mutex never answers, since the calls of the program carry no deadline.
\<close>

datatype delivery = Delivered | Lost | Reply_lost

record 'd cluster =
  nodes :: "(string, 'd paxos_impl) smap"
  net :: "delivery list"

definition node :: "'d cluster \<Rightarrow> string \<Rightarrow> 'd paxos_impl option" where
  "node c a = map_of (nodes c) a"

definition put_node :: "string \<Rightarrow> 'd paxos_impl \<Rightarrow> 'd cluster \<Rightarrow> 'd cluster" where
  "put_node a s c = c\<lparr>nodes := smap_put a s (nodes c)\<rparr>"

definition kill_node :: "string \<Rightarrow> 'd cluster \<Rightarrow> 'd cluster" where
  "kill_node a c = c\<lparr>nodes := smap_erase a (nodes c)\<rparr>"

definition next_fate :: "'d cluster \<Rightarrow> delivery \<times> 'd cluster" where
  "next_fate c = (case net c of [] \<Rightarrow> (Delivered, c) | f # fs \<Rightarrow> (f, c\<lparr>net := fs\<rparr>))"

definition rpc ::
  "string \<Rightarrow> ('d paxos_impl \<Rightarrow> 'r result \<times> 'd paxos_impl) \<Rightarrow> 'd cluster \<Rightarrow>
   'r result \<times> 'd cluster" where
  "rpc a handler c =
     (case next_fate c of
        (fate, c0) \<Rightarrow>
          (case (if fate = Lost then None else node c0 a) of
             None \<Rightarrow> (Error UNAVAILABLE, c0)
           | Some s \<Rightarrow>
               (case handler s of
                  (r, s') \<Rightarrow>
                    ((case r of
                        Blocked \<Rightarrow> Blocked
                      | Ok x \<Rightarrow> (if fate = Reply_lost then Error UNAVAILABLE else Ok x)
                      | Error e \<Rightarrow> (if fate = Reply_lost then Error UNAVAILABLE else Error e)
                      | Raise x \<Rightarrow> Error UNKNOWN),
                     put_node a s' c0))))"

text \<open>
  How an operation of one server on the cluster ends.  \<open>Done\<close>: it returns.  \<open>Thrown\<close>: an
  exception leaves the function.  \<open>Died\<close>: an exception has left a \<open>std::thread\<close>, the process of
  the server is gone.  \<open>Stuck\<close>: some thread waits for ever for a mutex, and so does the
  operation.  \<open>Out_of_fuel\<close>: the bound on the depth of nested calls was too small.
\<close>

datatype 'c outcome = Done 'c | Thrown exn 'c | Died 'c | Stuck | Out_of_fuel

lemma map_outcome_Done: "map_outcome f out = Done y \<longleftrightarrow> (\<exists>x. out = Done x \<and> y = f x)"
  by (cases out) auto

lemma node_put_node [simp]: "node (put_node a s c) b = (if b = a then Some s else node c b)"
  by (simp add: node_def put_node_def)

lemma node_kill_node [simp]: "node (kill_node a c) b = (if b = a then None else node c b)"
  by (simp add: node_def kill_node_def)

lemma net_put_node [simp]: "net (put_node a s c) = net c"
  by (simp add: put_node_def)

lemma net_kill_node [simp]: "net (kill_node a c) = net c"
  by (simp add: kill_node_def)

lemma node_net_update [simp]: "node (c\<lparr>net := fs\<rparr>) a = node c a"
  by (simp add: node_def)

text \<open>On a network that delivers everything a call runs the handler and returns its result.\<close>

lemma rpc_delivered:
  assumes "net c = []" "node c a = Some s" "handler s = (Ok x, s')"
  shows "rpc a handler c = (Ok x, put_node a s' c)"
  using assms by (simp add: rpc_def next_fate_def)

lemma rpc_blocked:
  assumes "net c = []" "node c a = Some s" "handler s = (Blocked, s')"
  shows "rpc a handler c = (Blocked, put_node a s' c)"
  using assms by (simp add: rpc_def next_fate_def)

lemma rpc_down: "net c = [] \<Longrightarrow> node c a = None \<Longrightarrow> rpc a handler c = (Error UNAVAILABLE, c)"
  by (simp add: rpc_def next_fate_def)

lemma net_rpc: "net c = [] \<Longrightarrow> rpc b h c = (r, c') \<Longrightarrow> net c' = []"
  by (auto simp: rpc_def next_fate_def split: option.splits prod.splits)

text \<open>
  Whatever the network does, a call changes the callee only, and only by its handler: a relation
  \<open>P\<close> between the states before and after that is reflexive and holds of the handler holds of
  every server.
\<close>

lemma rpc_preserves:
  assumes call: "rpc a handler c = (r, c')"
    and refl: "\<And>s. P s s" and hdl: "\<And>s. P s (snd (handler s))"
    and nd: "node c b = Some s"
  shows "\<exists>s'. node c' b = Some s' \<and> P s s'"
proof -
  obtain fate c0 where f: "next_fate c = (fate, c0)" by fastforce
  have same: "node c0 d = node c d" for d
    using f by (auto simp: next_fate_def split: list.splits)
  show ?thesis
  proof (cases "if fate = Lost then None else node c0 a")
    case None
    with call have "c' = c0" by (simp add: rpc_def f)
    with nd same refl show ?thesis by auto
  next
    case (Some t)
    then have t: "node c a = Some t" by (simp add: same split: if_splits)
    from Some call have "c' = put_node a (snd (handler t)) c0"
      by (auto simp: rpc_def f split: prod.splits)
    then show ?thesis
      using nd t same refl hdl by auto
  qed
qed

lemma rpc_dom: "rpc a handler c = (r, c') \<Longrightarrow> node c' b = None \<longleftrightarrow> node c b = None"
  by (auto simp: rpc_def next_fate_def split: option.splits prod.splits if_splits list.splits)

text \<open>A cell of three servers that have just started, for the witnesses of the theorems.\<close>

definition sample_cell :: "(string \<times> string) list cluster" where
  "sample_cell = \<lparr>nodes = map (\<lambda>i. (sample_addr i, sample_server i)) [0, 1, 2], net = []\<rparr>"

lemma sample_cell_sel [simp]: "net sample_cell = []" "length (nodes sample_cell) = 3"
  by (simp_all add: sample_cell_def)

lemma node_sample_cell [simp]:
  "node sample_cell ''127.0.0.1:50051'' = Some (sample_server 0)"
  "node sample_cell ''127.0.0.1:50052'' = Some (sample_server 1)"
  "node sample_cell ''127.0.0.1:50053'' = Some (sample_server 2)"
  by (simp_all add: sample_cell_def node_def)

end
