(* ===== verification/Proposer.thy ===== *)
theory Proposer
  imports Cluster
begin

text \<open>
  The proposer side of \<open>PaxosImpl\<close>: \<open>Start\<close>, \<open>StartOnForward\<close>, \<open>StartOnNewSlot\<close> and the RPC
  handler \<open>ForwardLeader\<close>.  They run on one server and call the others, so that they map a
  cluster to the \<open>outcome\<close> of the call.  The three functions call each other and, through
  \<open>ForwardLeader\<close>, the \<open>Start\<close> of another server: each is a body over the calls it makes, and
  \<open>exec\<close> ties the bodies together with a bound on the depth of nested calls.

  The threads of the accept and learn broadcasts run in the order \<open>run_order E\<close>.  Where the code
  sleeps (no majority) nothing happens in the model.
\<close>

datatype call =
    CallStart int string
  | CallForward int string
  | CallNewSlot int string int

section \<open>Shared access\<close>

definition leader_address :: "'d paxos_impl \<Rightarrow> string" where
  "leader_address s = server_addr (first_port s + view s smod num_servers s)"

definition own_slot :: "'d cluster \<Rightarrow> string \<Rightarrow> int \<Rightarrow> ('d paxos_impl \<times> paxos_slot) option" where
  "own_slot c a seq =
     (case node c a of
        None \<Rightarrow> None
      | Some s \<Rightarrow> map_option (Pair s) (get_slot s seq))"

definition upd_slot :: "string \<Rightarrow> int \<Rightarrow> (paxos_slot \<Rightarrow> paxos_slot) \<Rightarrow> 'd cluster \<Rightarrow> 'd cluster" where
  "upd_slot a seq f c =
     (case own_slot c a seq of
        None \<Rightarrow> c
      | Some (s, sl) \<Rightarrow> put_node a (set_slot seq (f sl) s) c)"

definition unlock_mu :: "string \<Rightarrow> 'd cluster \<Rightarrow> 'd cluster" where
  "unlock_mu a c =
     (case node c a of None \<Rightarrow> c | Some s \<Rightarrow> put_node a (s\<lparr>mu_locked := False\<rparr>) c)"

section \<open>The prepare phase\<close>

record prep =
  p_highest_na :: int
  p_highest_va :: string
  p_decided :: bool
  p_decided_V :: string
  p_majority :: int
  p_reject :: int
  p_na_count :: "(int, int) smap"

definition prep_init :: "string \<Rightarrow> prep" where
  "prep_init v =
     \<lparr>p_highest_na = - 1, p_highest_va = v, p_decided = False, p_decided_V = '''',
      p_majority = 0, p_reject = 0, p_na_count = []\<rparr>"

definition na_count :: "prep \<Rightarrow> int" where
  "na_count p = (case map_of (p_na_count p) (p_highest_na p) of None \<Rightarrow> 0 | Some i \<Rightarrow> i)"

text \<open>
  One reply of the prepare loop: the new local variables and whether the loop is left by one of
  the two inner \<open>break\<close>s.  A granted reply whose \<open>n_a\<close> is not a new maximum also counts as a
  rejection.
\<close>

definition prep_reply :: "nat \<Rightarrow> prepare_response \<Rightarrow> prep \<Rightarrow> prep \<times> bool" where
  "prep_reply nsrv r p =
     (if pp_status r = ''OK'' then
        (let p1 = p\<lparr>p_majority := p_majority p + 1\<rparr>;
             p2 = (if p_highest_na p1 < pp_n_a r
                   then (let na = to_int32 (pp_n_a r);
                             p' = p1\<lparr>p_highest_na := na, p_highest_va := pp_v_a r\<rparr>
                         in p'\<lparr>p_na_count := smap_put na (na_count p' + 1) (p_na_count p')\<rparr>)
                   else p1\<lparr>p_reject := p_reject p1 + 1\<rparr>)
         in if pp_value r \<noteq> '''' then (p2\<lparr>p_decided := True, p_decided_V := pp_value r\<rparr>, True)
            else if int (nsrv div 2) < na_count p2
            then (p2\<lparr>p_decided := True, p_decided_V := p_highest_va p2\<rparr>, True)
            else (p2, False))
      else (p, False))"

definition prep_stop :: "nat \<Rightarrow> prep \<Rightarrow> bool" where
  "prep_stop nsrv p \<longleftrightarrow>
     int (nsrv div 2) < p_reject p \<or> int (nsrv div 2) < p_majority p \<or> int (nsrv div 2) < na_count p"

text \<open>A granted reply that is not a new maximum raises the proposer's \<open>highest_N\<close>.\<close>

definition note_highest_N ::
  "string \<Rightarrow> int \<Rightarrow> prep \<Rightarrow> prepare_response \<Rightarrow> 'd cluster \<Rightarrow> 'd cluster" where
  "note_highest_N a seq p r c =
     (if pp_status r = ''OK'' \<and> \<not> p_highest_na p < pp_n_a r
      then upd_slot a seq
             (\<lambda>sl. if slot_highest_N sl < pp_highest_n r
                   then sl\<lparr>slot_highest_N := pp_highest_n r\<rparr> else sl) c
      else c)"

fun prepare_loop ::
  "'d env \<Rightarrow> string \<Rightarrow> int \<Rightarrow> nat \<Rightarrow> string list \<Rightarrow> prep \<Rightarrow> 'd cluster \<Rightarrow>
   'd cluster outcome + prep \<times> 'd cluster" where
  "prepare_loop E a seq nsrv [] p c = Inr (p, c)"
| "prepare_loop E a seq nsrv (b # bs) p c =
     (case own_slot c a seq of
        None \<Rightarrow> Inr (p, c)
      | Some (s, sl) \<Rightarrow>
          (case vec_get (done_vec s) (me s) of
             None \<Rightarrow> Inl (Thrown Out_of_bounds c)
           | Some d \<Rightarrow>
               (case rpc b (\<lambda>t. Prepare E t \<lparr>pr_seq = seq, pr_proposal_number = slot_n sl,
                                           pr_latest_done = d, pr_sender_id = me s\<rparr>) c of
                  (Blocked, c1) \<Rightarrow> Inl Stuck
                | (Ok r, c1) \<Rightarrow>
                    (case prep_reply nsrv r p of
                       (p', left) \<Rightarrow>
                         (let c2 = note_highest_N a seq p r c1 in
                          if left \<or> prep_stop nsrv p' then Inr (p', c2)
                          else prepare_loop E a seq nsrv bs p' c2))
                | (_, c1) \<Rightarrow>
                    (if prep_stop nsrv p then Inr (p, c1)
                     else prepare_loop E a seq nsrv bs p c1))))"

text \<open>The loop that picks the proposal number; \<open>None\<close> when it does not end.\<close>

partial_function (option) next_n :: "int \<Rightarrow> int \<Rightarrow> int \<Rightarrow> int option" where
  "next_n n highest_N k = (if n \<le> highest_N then next_n (to_int64 (n + k)) highest_N k else Some n)"

declare next_n.simps [code]

section \<open>The accept phase\<close>

record acc =
  a_majority :: int
  a_reject :: int
  a_highest_view :: int
  a_decided :: bool
  a_decided_V :: string

definition acc_init :: acc where
  "acc_init = \<lparr>a_majority = 0, a_reject = 0, a_highest_view = - 1, a_decided = False,
               a_decided_V = ''''\<rparr>"

definition acc_reply :: "int \<Rightarrow> accept_response \<Rightarrow> acc \<Rightarrow> acc" where
  "acc_reply seq r st =
     (let st1 = (if ap_status r = ''OK'' then st\<lparr>a_majority := a_majority st + 1\<rparr>
                 else st\<lparr>a_reject := a_reject st + 1,
                         a_highest_view := (if a_highest_view st < ap_view r
                                            then to_int32 (ap_view r) else a_highest_view st)\<rparr>)
      in if seq \<le> ap_latest_done r \<or> ap_value r \<noteq> ''''
         then st1\<lparr>a_decided := True, a_decided_V := ap_value r\<rparr> else st1)"

fun accept_loop ::
  "'d env \<Rightarrow> string \<Rightarrow> int \<Rightarrow> int \<Rightarrow> string \<Rightarrow> string list \<Rightarrow> acc \<Rightarrow> 'd cluster \<Rightarrow>
   'd cluster outcome + acc \<times> 'd cluster" where
  "accept_loop E a seq my_view va [] st c = Inr (st, c)"
| "accept_loop E a seq my_view va (b # bs) st c =
     (case node c a of
        None \<Rightarrow> Inr (st, c)
      | Some s \<Rightarrow>
          (case vec_get (done_vec s) (me s) of
             None \<Rightarrow> Inl (Died (kill_node a c))
           | Some d \<Rightarrow>
               (case rpc b (\<lambda>t. Accept E t \<lparr>ar_seq = seq, ar_view = my_view, ar_value = va,
                                          ar_sender_id = me s, ar_latest_done = d\<rparr>) c of
                  (Blocked, c1) \<Rightarrow> Inl Stuck
                | (Ok r, c1) \<Rightarrow> accept_loop E a seq my_view va bs (acc_reply seq r st) c1
                | (_, c1) \<Rightarrow> accept_loop E a seq my_view va bs st c1)))"

section \<open>The learn phase\<close>

fun learn_loop ::
  "'d env \<Rightarrow> string \<Rightarrow> int \<Rightarrow> string \<Rightarrow> string list \<Rightarrow> 'd cluster \<Rightarrow> 'd cluster outcome" where
  "learn_loop E a seq va [] c = Done c"
| "learn_loop E a seq va (b # bs) c =
     (case node c a of
        None \<Rightarrow> Done c
      | Some s \<Rightarrow>
          if mu_locked s then Stuck
          else
            (case vec_get (done_vec s) (me s) of
               None \<Rightarrow> Died (kill_node a c)
             | Some d \<Rightarrow>
                 (case rpc b (\<lambda>t. Learn E t \<lparr>dr_seq = seq, dr_value = va, dr_sender_id = me s,
                                           dr_latest_done = d\<rparr>) c of
                    (Blocked, c1) \<Rightarrow> Stuck
                  | (_, c1) \<Rightarrow> learn_loop E a seq va bs c1)))"

definition stub_addresses :: "'d cluster \<Rightarrow> string \<Rightarrow> string list" where
  "stub_addresses c a =
     (case node c a of None \<Rightarrow> [] | Some s \<Rightarrow> smap_keys (paxos_stubs_map s))"

definition learn_phase :: "'d env \<Rightarrow> 'd cluster \<Rightarrow> string \<Rightarrow> int \<Rightarrow> string \<Rightarrow> 'd cluster outcome" where
  "learn_phase E c a seq va = learn_loop E a seq va (run_order E (stub_addresses c a)) c"

section \<open>The bodies\<close>

text \<open>
  What \<open>StartOnNewSlot\<close> does when a reply carried a view above its own, in both phases: lock
  \<open>mu\<close>, adopt the view, unlock, forward, and then call \<open>unlock\<close> on the \<open>unique_lock\<close> that it
  has already unlocked, which throws \<open>std::system_error\<close>.
\<close>

definition step_down ::
  "('d cluster \<Rightarrow> string \<Rightarrow> call \<Rightarrow> 'd cluster outcome) \<Rightarrow> 'd cluster \<Rightarrow> string \<Rightarrow> int \<Rightarrow> string \<Rightarrow>
   int \<Rightarrow> 'd cluster outcome" where
  "step_down rec c a seq v highest_na =
     (case node c a of
        None \<Rightarrow> Done c
      | Some s \<Rightarrow>
          if mu_locked s then Stuck
          else if view s < highest_na then
            (case rec (put_node a (s\<lparr>view := highest_na, leader_dead := False,
                                     missed_heartbeats := 0\<rparr>) c) a (CallForward seq v) of
               Done c' \<Rightarrow> Thrown System_error c'
             | out \<Rightarrow> out)
          else rec c a (CallForward seq v))"

text \<open>
  From the accept phase on.  When some acceptor reports a decided value the function returns
  without telling anyone; otherwise the value is sent to all learners, whether or not a majority
  has accepted it.
\<close>

definition accept_phase ::
  "'d env \<Rightarrow> ('d cluster \<Rightarrow> string \<Rightarrow> call \<Rightarrow> 'd cluster outcome) \<Rightarrow> 'd cluster \<Rightarrow> string \<Rightarrow>
   int \<Rightarrow> string \<Rightarrow> int \<Rightarrow> prep \<Rightarrow> 'd cluster outcome" where
  "accept_phase E rec c a seq v my_view p =
     (let va = (if p_highest_va p = '''' then v else p_highest_va p) in
      if p_decided p then learn_phase E c a seq (p_decided_V p)
      else
        (case accept_loop E a seq my_view va (run_order E (stub_addresses c a)) acc_init c of
           Inl out \<Rightarrow> out
         | Inr (st, c1) \<Rightarrow>
             if a_decided st then Done c1
             else if my_view < p_highest_na p then step_down rec c1 a seq v (p_highest_na p)
             else learn_phase E c1 a seq va))"

definition StartOnNewSlot_body ::
  "'d env \<Rightarrow> ('d cluster \<Rightarrow> string \<Rightarrow> call \<Rightarrow> 'd cluster outcome) \<Rightarrow> 'd cluster \<Rightarrow> string \<Rightarrow>
   int \<Rightarrow> string \<Rightarrow> int \<Rightarrow> 'd cluster outcome" where
  "StartOnNewSlot_body E rec c a seq v my_view =
     (case own_slot c a seq of
        None \<Rightarrow> Done c
      | Some (s, sl) \<Rightarrow>
          if slot_status sl = DECIDED \<or> is_dead s \<noteq> 0 then Done c
          else if mu_locked s then Stuck
          else if seq \<le> highest_accepted_seq s then
            (case next_n (slot_n sl) (slot_highest_N sl) (num_servers s) of
               None \<Rightarrow> Stuck
             | Some n' \<Rightarrow>
                 (case prepare_loop E a seq (length (stub_addresses c a)) (stub_addresses c a)
                         (prep_init v) (upd_slot a seq (\<lambda>sl. sl\<lparr>slot_n := n'\<rparr>) c) of
                    Inl out \<Rightarrow> out
                  | Inr (p, c1) \<Rightarrow>
                      if my_view < p_highest_na p then step_down rec c1 a seq v (p_highest_na p)
                      else accept_phase E rec c1 a seq v my_view p))
          else accept_phase E rec c a seq v my_view (prep_init v))"

text \<open>
  The RPC \<open>ForwardLeader\<close>: its handler is \<open>Start\<close> on the leader followed by the reply \<open>OK\<close>.
  The first component says whether the caller finds \<open>OK\<close> in the response.
\<close>

definition ForwardLeader ::
  "('d cluster \<Rightarrow> string \<Rightarrow> call \<Rightarrow> 'd cluster outcome) \<Rightarrow> string \<Rightarrow> int \<Rightarrow> string \<Rightarrow> 'd cluster \<Rightarrow>
   'd cluster outcome + bool \<times> 'd cluster" where
  "ForwardLeader rec leader seq v c =
     (case next_fate c of
        (fate, c0) \<Rightarrow>
          if fate = Lost \<or> node c0 leader = None then Inr (False, c0)
          else
            (case rec c0 leader (CallStart seq v) of
               Done c1 \<Rightarrow> Inr (fate \<noteq> Reply_lost, c1)
             | Thrown x c1 \<Rightarrow> Inr (False, c1)
             | Died c1 \<Rightarrow> Inr (False, c1)
             | Stuck \<Rightarrow> Inl Stuck
             | Out_of_fuel \<Rightarrow> Inl Out_of_fuel))"

text \<open>
  \<open>StartOnForward\<close> holds \<open>mu\<close> from its first line to its end: while it calls
  \<open>StartOnNewSlot\<close>, while it waits for the leader's answer, and when it locks \<open>mu\<close> again
  because that answer was not \<open>OK\<close>.
\<close>

definition StartOnForward_body ::
  "('d cluster \<Rightarrow> string \<Rightarrow> call \<Rightarrow> 'd cluster outcome) \<Rightarrow> 'd cluster \<Rightarrow> string \<Rightarrow> int \<Rightarrow> string \<Rightarrow>
   'd cluster outcome" where
  "StartOnForward_body rec c a seq v =
     (case node c a of
        None \<Rightarrow> Done c
      | Some s \<Rightarrow>
          if mu_locked s then Stuck
          else
            (case addSlots (s\<lparr>mu_locked := True\<rparr>) seq of
               (sl, s1) \<Rightarrow>
                 (let c1 = put_node a s1 c in
                  if slot_status sl \<noteq> DECIDED \<and> view s smod num_servers s = me s \<and> \<not> leader_dead s
                  then
                    (case rec c1 a (CallNewSlot seq v (view s)) of
                       Done c2 \<Rightarrow> Done (unlock_mu a c2)
                     | Thrown x c2 \<Rightarrow> Thrown x (unlock_mu a c2)
                     | out \<Rightarrow> out)
                  else if map_of (paxos_stubs_map s) (leader_address s) = None
                  then Died (kill_node a c1)
                  else
                    (case ForwardLeader rec (leader_address s) seq v c1 of
                       Inl out \<Rightarrow> out
                     | Inr (ok, c2) \<Rightarrow> if ok then Done (unlock_mu a c2) else Stuck))))"

text \<open>
  \<open>Start\<close> runs the two others in a \<open>std::thread\<close> that it joins: an exception that leaves the
  thread ends the process.
\<close>

definition joined :: "string \<Rightarrow> 'd cluster outcome \<Rightarrow> 'd cluster outcome" where
  "joined a out = (case out of Thrown x c \<Rightarrow> Died (kill_node a c) | _ \<Rightarrow> out)"

definition Start_body ::
  "('d cluster \<Rightarrow> string \<Rightarrow> call \<Rightarrow> 'd cluster outcome) \<Rightarrow> 'd cluster \<Rightarrow> string \<Rightarrow> int \<Rightarrow> string \<Rightarrow>
   'd cluster outcome" where
  "Start_body rec c a seq v =
     (case node c a of
        None \<Rightarrow> Done c
      | Some s \<Rightarrow>
          if mu_locked s then Stuck
          else if seq < lowest_slot s then Done c
          else
            (case addSlots s seq of
               (sl, s1) \<Rightarrow>
                 (let c1 = put_node a s1 c in
                  if slot_status sl \<noteq> DECIDED \<and> is_dead s = 0 then
                    (if view s smod num_servers s = me s then
                       (if \<not> leader_dead s then joined a (rec c1 a (CallNewSlot seq v (view s)))
                        else Done c1)
                     else joined a (rec c1 a (CallForward seq v)))
                  else Done c1)))"

section \<open>Tying the knot\<close>

primrec exec :: "nat \<Rightarrow> 'd env \<Rightarrow> 'd cluster \<Rightarrow> string \<Rightarrow> call \<Rightarrow> 'd cluster outcome" where
  "exec 0 E c a k = Out_of_fuel"
| "exec (Suc f) E c a k =
     (case k of
        CallStart seq v \<Rightarrow> Start_body (exec f E) c a seq v
      | CallForward seq v \<Rightarrow> StartOnForward_body (exec f E) c a seq v
      | CallNewSlot seq v my_view \<Rightarrow> StartOnNewSlot_body E (exec f E) c a seq v my_view)"

definition call_depth :: "'d cluster \<Rightarrow> nat" where
  "call_depth c = 3 * length (nodes c) + 1"

definition Start :: "'d env \<Rightarrow> 'd cluster \<Rightarrow> string \<Rightarrow> int \<Rightarrow> string \<Rightarrow> 'd cluster outcome" where
  "Start E c a seq v = exec (call_depth c) E c a (CallStart seq v)"

definition StartOnForward :: "'d env \<Rightarrow> 'd cluster \<Rightarrow> string \<Rightarrow> int \<Rightarrow> string \<Rightarrow> 'd cluster outcome" where
  "StartOnForward E c a seq v = exec (call_depth c) E c a (CallForward seq v)"

definition StartOnNewSlot ::
  "'d env \<Rightarrow> 'd cluster \<Rightarrow> string \<Rightarrow> int \<Rightarrow> string \<Rightarrow> int \<Rightarrow> 'd cluster outcome" where
  "StartOnNewSlot E c a seq v my_view = exec (call_depth c) E c a (CallNewSlot seq v my_view)"

end
