(* ===== verification/Heartbeats.thy ===== *)
theory Heartbeats
  imports Cluster
begin

text \<open>
  Heartbeats: the handler \<open>PaxosImpl::Heartbeat\<close> and the leader's broadcast
  \<open>PaxosImpl::SendHeartbeats\<close>, which exchange the decided slots of the leader and of each
  follower.
\<close>

record heartbeat_request =
  hb_id :: int
  hb_view :: int
  hb_done :: "int list"
  hb_slots :: "(int, proto_slot) smap"

record heartbeat_response =
  hp_slots :: "(int, proto_slot) smap"

section \<open>The loops\<close>

text \<open>The local maps of slots that both functions build from a protobuf map and back.\<close>

definition slots_of_proto :: "(int, proto_slot) smap \<Rightarrow> (int, paxos_slot) smap" where
  "slots_of_proto ps = foldl (\<lambda>m (k, p). smap_put k (fillSlot p) m) [] ps"

definition proto_of_slots :: "(int, paxos_slot) smap \<Rightarrow> (int, proto_slot) smap" where
  "proto_of_slots m = foldl (\<lambda>ps (k, sl). smap_put k (ToProtobuf sl) ps) [] m"

text \<open>The loop that adopts the values of slots this server has not decided.\<close>

definition adopt_slot :: "'d paxos_impl \<Rightarrow> int \<Rightarrow> string \<Rightarrow> 'd paxos_impl" where
  "adopt_slot s k v =
     (case addSlots s k of
        (new_slot, s1) \<Rightarrow>
          if slot_status new_slot \<noteq> DECIDED
          then set_slot k (new_slot\<lparr>slot_status := DECIDED, slot_value := v\<rparr>) s1
          else s1)"

fun adopt_slots :: "(int, paxos_slot) smap \<Rightarrow> 'd paxos_impl \<Rightarrow> 'd paxos_impl" where
  "adopt_slots [] s = s"
| "adopt_slots ((k, sl) # m) s = adopt_slots m (adopt_slot s k (slot_value sl))"

text \<open>The decided slots that are missing in the request, as the reply carries them.\<close>

fun reply_slots ::
  "int \<Rightarrow> (int, paxos_slot) smap \<Rightarrow> (int, paxos_slot) smap \<Rightarrow> (int, paxos_slot) smap \<Rightarrow>
   (int, paxos_slot) smap" where
  "reply_slots vw req [] acc = acc"
| "reply_slots vw req ((k, sl) # m) acc =
     reply_slots vw req m
       (if slot_status sl = DECIDED \<and> map_of req k = None
        then smap_put k ((initSlot vw)\<lparr>slot_value := slot_value sl, slot_status := DECIDED\<rparr>) acc
        else acc)"

text \<open>The decided slots of the leader, as its request carries them: their status is \<open>PENDING\<close>.\<close>

fun request_slots ::
  "int \<Rightarrow> (int, paxos_slot) smap \<Rightarrow> (int, paxos_slot) smap \<Rightarrow> (int, paxos_slot) smap" where
  "request_slots vw [] acc = acc"
| "request_slots vw ((k, sl) # m) acc =
     request_slots vw m
       (if slot_status sl = DECIDED
        then smap_put k ((initSlot vw)\<lparr>slot_value := slot_value sl\<rparr>) acc
        else acc)"

section \<open>Heartbeat\<close>

definition Heartbeat ::
  "'d paxos_impl \<Rightarrow> heartbeat_request \<Rightarrow> heartbeat_response result \<times> 'd paxos_impl" where
  "Heartbeat s req =
     with_mu s
       (if me s = hb_id req then (Ok \<lparr>hp_slots = []\<rparr>, s\<lparr>missed_heartbeats := 0\<rparr>)
        else if hb_view req < view s then (Error ABORTED, s)
        else
          (let s1 = (if view s < hb_view req
                     then s\<lparr>view := hb_view req, leader_dead := False, missed_heartbeats := 0\<rparr>
                     else s);
               s2 = s1\<lparr>done_vec := hb_done req, missed_heartbeats := 0\<rparr>;
               req_slots = slots_of_proto (hb_slots req);
               rep_slots = reply_slots (view s2) req_slots (slots s2) [];
               s3 = adopt_slots req_slots s2
           in (Ok \<lparr>hp_slots = proto_of_slots rep_slots\<rparr>, s3)))"

section \<open>SendHeartbeats\<close>

text \<open>
  One request object serves all peers.  Before each call the leader's \<open>done\<close> is appended to the
  request's repeated field \<open>done\<close>, which is never cleared: \<open>dn\<close> is what it holds so far.
\<close>

fun send_loop ::
  "string \<Rightarrow> int \<Rightarrow> (int, proto_slot) smap \<Rightarrow> string list \<Rightarrow> int list \<Rightarrow> 'd cluster \<Rightarrow>
   'd cluster outcome" where
  "send_loop a curr_view ps [] dn c = Done c"
| "send_loop a curr_view ps (b # bs) dn c =
     (case node c a of
        None \<Rightarrow> Done c
      | Some s \<Rightarrow>
          if mu_locked s then Stuck
          else
            (let dn' = dn @ done_vec s;
                 req = \<lparr>hb_id = me s, hb_view = curr_view, hb_done = dn', hb_slots = ps\<rparr>
             in case rpc b (\<lambda>t. Heartbeat t req) c of
                  (Blocked, c1) \<Rightarrow> Stuck
                | (Ok resp, c1) \<Rightarrow>
                    (if b \<noteq> server_address s then
                       (case node c1 a of
                          None \<Rightarrow> Done c1
                        | Some s1 \<Rightarrow>
                            if mu_locked s1 then Stuck
                            else send_loop a curr_view ps bs dn'
                                   (put_node a (adopt_slots (slots_of_proto (hp_slots resp)) s1) c1))
                     else send_loop a curr_view ps bs dn' c1)
                | (_, c1) \<Rightarrow> send_loop a curr_view ps bs dn' c1))"

definition SendHeartbeats :: "string \<Rightarrow> 'd cluster \<Rightarrow> 'd cluster outcome" where
  "SendHeartbeats a c =
     (case node c a of
        None \<Rightarrow> Done c
      | Some s \<Rightarrow>
          if mu_locked s then Stuck
          else if view s smod group_size s \<noteq> me s then Done c
          else send_loop a (view s) (proto_of_slots (request_slots (view s) (slots s) []))
                 (smap_keys (paxos_stubs_map s)) [] c)"

section \<open>What the loops compute\<close>

lemma smap_ok_foldl_put:
  "smap_ok acc \<Longrightarrow> smap_ok (foldl (\<lambda>m (k, p). smap_put k (f p) m) acc ps)"
  by (induction ps arbitrary: acc) auto

lemma map_of_foldl_put:
  "map_of (foldl (\<lambda>m (k, p). smap_put k (f p) m) acc ps) =
     map_of acc ++ (map_option f \<circ> map_of (rev ps))"
  by (induction ps arbitrary: acc) (auto simp: fun_eq_iff map_add_def split: option.split)

lemma map_of_rev_smap: "smap_ok m \<Longrightarrow> map_of (rev m) = map_of m"
  using smap_ok_distinct [of m] map_of_inject_set [of "rev m" m] by (simp add: rev_map [symmetric])

lemma smap_ok_slots_of_proto [simp]: "smap_ok (slots_of_proto ps)"
  by (simp add: slots_of_proto_def smap_ok_foldl_put)

lemma smap_ok_proto_of_slots [simp]: "smap_ok (proto_of_slots m)"
  by (simp add: proto_of_slots_def smap_ok_foldl_put)

lemma map_of_slots_of_proto:
  "smap_ok ps \<Longrightarrow> map_of (slots_of_proto ps) k = map_option fillSlot (map_of ps k)"
  by (simp add: slots_of_proto_def map_of_foldl_put map_of_rev_smap map_add_def split: option.split)

lemma map_of_proto_of_slots:
  "smap_ok m \<Longrightarrow> map_of (proto_of_slots m) k = map_option ToProtobuf (map_of m k)"
  by (simp add: proto_of_slots_def map_of_foldl_put map_of_rev_smap map_add_def split: option.split)

lemma smap_ok_request_slots: "smap_ok acc \<Longrightarrow> smap_ok (request_slots vw m acc)"
  by (induction vw m acc rule: request_slots.induct) auto

lemma smap_ok_reply_slots: "smap_ok acc \<Longrightarrow> smap_ok (reply_slots vw req m acc)"
  by (induction vw req m acc rule: reply_slots.induct) auto

lemma map_of_request_slots:
  "smap_ok m \<Longrightarrow> map_of (request_slots vw m acc) k =
     (case map_of m k of
        Some sl \<Rightarrow> if slot_status sl = DECIDED
                   then Some ((initSlot vw)\<lparr>slot_value := slot_value sl\<rparr>) else map_of acc k
      | None \<Rightarrow> map_of acc k)"
proof (induction vw m acc rule: request_slots.induct)
  case (1 vw acc)
  then show ?case by simp
next
  case (2 vw j sl m acc)
  then have ok: "smap_ok m" and fresh: "map_of m j = None"
    by (auto simp: smap_ok_Cons map_of_eq_None_iff)
  show ?case using "2.IH" [OF ok] fresh by (auto split: option.split)
qed

lemma map_of_reply_slots:
  "smap_ok m \<Longrightarrow> map_of (reply_slots vw req m acc) k =
     (case map_of m k of
        Some sl \<Rightarrow> if slot_status sl = DECIDED \<and> map_of req k = None
                   then Some ((initSlot vw)\<lparr>slot_value := slot_value sl, slot_status := DECIDED\<rparr>)
                   else map_of acc k
      | None \<Rightarrow> map_of acc k)"
proof (induction vw req m acc rule: reply_slots.induct)
  case (1 vw req acc)
  then show ?case by simp
next
  case (2 vw req j sl m acc)
  then have ok: "smap_ok m" and fresh: "map_of m j = None"
    by (auto simp: smap_ok_Cons map_of_eq_None_iff)
  show ?case using "2.IH" [OF ok] fresh by (auto split: option.split)
qed

text \<open>What a request or a reply carries, as a map from slots to values.\<close>

definition proto_values :: "(int, proto_slot) smap \<Rightarrow> int \<Rightarrow> string option" where
  "proto_values ps k = map_option pb_value (map_of ps k)"

lemma proto_values_Nil [simp]: "proto_values [] = Map.empty"
  by (simp add: proto_values_def fun_eq_iff)

lemma proto_values_request:
  "smap_ok (slots s) \<Longrightarrow>
   proto_values (proto_of_slots (request_slots vw (slots s) [])) = decided s"
  by (auto simp: fun_eq_iff proto_values_def map_of_proto_of_slots smap_ok_request_slots
      map_of_request_slots decided_def get_slot_def ToProtobuf_def split: option.split)

lemma proto_values_reply:
  assumes "smap_ok (slots s)" "smap_ok ps"
  shows "proto_values (proto_of_slots (reply_slots vw (slots_of_proto ps) (slots s) [])) k =
     (if proto_values ps k = None then decided s k else None)"
  using assms
  by (auto simp: proto_values_def map_of_proto_of_slots smap_ok_reply_slots map_of_slots_of_proto
      map_of_reply_slots decided_def get_slot_def ToProtobuf_def split: option.split)

lemma slot_value_slots_of_proto:
  "smap_ok ps \<Longrightarrow> map_option slot_value (map_of (slots_of_proto ps) k) = proto_values ps k"
  by (simp add: map_of_slots_of_proto proto_values_def fillSlot_def option.map_comp comp_def)

section \<open>Adopting slots\<close>

lemma decided_adopt_slot:
  "decided (adopt_slot s k v) =
     (decided s)(k := Some (case decided s k of Some u \<Rightarrow> u | None \<Rightarrow> v))"
  by (auto simp: adopt_slot_def fun_eq_iff split: prod.split option.split dest: addSlots_value)
    (metis addSlots_status decided_addSlots fst_conv option.distinct(1) snd_conv)+

lemma promised_adopt_slot [simp]: "promised (adopt_slot s k v) = promised s"
  by (auto simp: adopt_slot_def fun_eq_iff split: prod.split)
    (metis addSlots_n_p promised_addSlots fst_conv snd_conv)+

lemma adopt_slot_frame [simp]:
  "lowest_slot (adopt_slot s k v) = lowest_slot s" "done_vec (adopt_slot s k v) = done_vec s"
  "view (adopt_slot s k v) = view s" "mu_locked (adopt_slot s k v) = mu_locked s"
  "me (adopt_slot s k v) = me s" "paxos_db (adopt_slot s k v) = paxos_db s"
  "highest_accepted_seq (adopt_slot s k v) = highest_accepted_seq s"
  "num_servers (adopt_slot s k v) = num_servers s" "group_size (adopt_slot s k v) = group_size s"
  "server_address (adopt_slot s k v) = server_address s" "is_dead (adopt_slot s k v) = is_dead s"
  "paxos_stubs_map (adopt_slot s k v) = paxos_stubs_map s"
  "leader_dead (adopt_slot s k v) = leader_dead s"
  "missed_heartbeats (adopt_slot s k v) = missed_heartbeats s"
  "first_port (adopt_slot s k v) = first_port s"
  by (simp_all add: adopt_slot_def split_beta)

lemma smap_ok_adopt_slot [simp]: "smap_ok (slots s) \<Longrightarrow> smap_ok (slots (adopt_slot s k v))"
  by (simp add: adopt_slot_def split_beta)

lemma adopt_slots_frame [simp]:
  "lowest_slot (adopt_slots m s) = lowest_slot s" "done_vec (adopt_slots m s) = done_vec s"
  "view (adopt_slots m s) = view s" "mu_locked (adopt_slots m s) = mu_locked s"
  "me (adopt_slots m s) = me s" "paxos_db (adopt_slots m s) = paxos_db s"
  "highest_accepted_seq (adopt_slots m s) = highest_accepted_seq s"
  "num_servers (adopt_slots m s) = num_servers s" "group_size (adopt_slots m s) = group_size s"
  "server_address (adopt_slots m s) = server_address s" "is_dead (adopt_slots m s) = is_dead s"
  "paxos_stubs_map (adopt_slots m s) = paxos_stubs_map s"
  "leader_dead (adopt_slots m s) = leader_dead s"
  "missed_heartbeats (adopt_slots m s) = missed_heartbeats s"
  "first_port (adopt_slots m s) = first_port s"
  "promised (adopt_slots m s) = promised s"
  by (induction m s rule: adopt_slots.induct) simp_all

lemma smap_ok_adopt_slots [simp]: "smap_ok (slots s) \<Longrightarrow> smap_ok (slots (adopt_slots m s))"
  by (induction m s rule: adopt_slots.induct) simp_all

lemma decided_adopt_slots:
  "decided (adopt_slots m s) k =
     (case decided s k of Some u \<Rightarrow> Some u | None \<Rightarrow> map_option slot_value (map_of m k))"
  by (induction m s rule: adopt_slots.induct) (auto simp: decided_adopt_slot split: option.split)

text \<open>The decisions after a merge: what was decided stays, the rest comes from the message.\<close>

lemma decided_adopt_proto:
  "smap_ok ps \<Longrightarrow> decided (adopt_slots (slots_of_proto ps) s) = proto_values ps ++ decided s"
  by (auto simp: fun_eq_iff decided_adopt_slots slot_value_slots_of_proto map_add_def
      split: option.split)

section \<open>The effect of a heartbeat\<close>

definition heartbeat_taken :: "'d paxos_impl \<Rightarrow> heartbeat_request \<Rightarrow> bool" where
  "heartbeat_taken s req \<longleftrightarrow> \<not> mu_locked s \<and> me s \<noteq> hb_id req \<and> view s \<le> hb_view req"

definition heartbeat_merge :: "'d paxos_impl \<Rightarrow> heartbeat_request \<Rightarrow> 'd paxos_impl" where
  "heartbeat_merge s req =
     adopt_slots (slots_of_proto (hb_slots req))
       ((adopt_view (hb_view req) s)\<lparr>done_vec := hb_done req, missed_heartbeats := 0\<rparr>)"

lemma Heartbeat_taken:
  "heartbeat_taken s req \<Longrightarrow>
   Heartbeat s req =
     (Ok \<lparr>hp_slots = proto_of_slots (reply_slots (hb_view req) (slots_of_proto (hb_slots req))
                                     (slots s) [])\<rparr>,
      heartbeat_merge s req)"
  by (auto simp: Heartbeat_def heartbeat_taken_def heartbeat_merge_def adopt_view_def Let_def)

lemma Heartbeat_not_taken:
  "\<not> heartbeat_taken s req \<Longrightarrow>
   snd (Heartbeat s req) =
     (if \<not> mu_locked s \<and> me s = hb_id req then s\<lparr>missed_heartbeats := 0\<rparr> else s)"
  by (auto simp: Heartbeat_def heartbeat_taken_def with_mu_def)

lemma heartbeat_merge_frame [simp]:
  "lowest_slot (heartbeat_merge s req) = lowest_slot s"
  "done_vec (heartbeat_merge s req) = hb_done req"
  "view (heartbeat_merge s req) = max (view s) (hb_view req)"
  "mu_locked (heartbeat_merge s req) = mu_locked s" "me (heartbeat_merge s req) = me s"
  "paxos_db (heartbeat_merge s req) = paxos_db s"
  "highest_accepted_seq (heartbeat_merge s req) = highest_accepted_seq s"
  "num_servers (heartbeat_merge s req) = num_servers s"
  "group_size (heartbeat_merge s req) = group_size s"
  "server_address (heartbeat_merge s req) = server_address s"
  "is_dead (heartbeat_merge s req) = is_dead s"
  "paxos_stubs_map (heartbeat_merge s req) = paxos_stubs_map s"
  by (simp_all add: heartbeat_merge_def)

lemma decided_only_slots [simp]:
  "decided (s\<lparr>missed_heartbeats := i\<rparr>) = decided s" "decided (s\<lparr>done_vec := ds\<rparr>) = decided s"
  "promised (s\<lparr>missed_heartbeats := i\<rparr>) = promised s" "promised (s\<lparr>done_vec := ds\<rparr>) = promised s"
  by (rule decided_cong promised_cong, simp)+

lemma decided_heartbeat_merge:
  "smap_ok (hb_slots req) \<Longrightarrow>
   decided (heartbeat_merge s req) = proto_values (hb_slots req) ++ decided s"
  by (simp add: heartbeat_merge_def decided_adopt_proto)

lemma promised_heartbeat_merge [simp]: "promised (heartbeat_merge s req) = promised s"
  by (simp add: heartbeat_merge_def)

lemma smap_ok_heartbeat_merge [simp]:
  "smap_ok (slots s) \<Longrightarrow> smap_ok (slots (heartbeat_merge s req))"
  by (simp add: heartbeat_merge_def)

section \<open>A round of heartbeats\<close>

lemma decided_Heartbeat_self:
  "\<not> mu_locked s \<Longrightarrow> me s = hb_id req \<Longrightarrow>
   Heartbeat s req = (Ok \<lparr>hp_slots = []\<rparr>, s\<lparr>missed_heartbeats := 0\<rparr>)"
  by (simp add: Heartbeat_def)

text \<open>A follower that takes the heartbeats of the leader \<open>s\<close> in the view \<open>vw\<close>.\<close>

definition follower_of :: "'d paxos_impl \<Rightarrow> int \<Rightarrow> 'd paxos_impl \<Rightarrow> bool" where
  "follower_of s vw t \<longleftrightarrow> smap_ok (slots t) \<and> \<not> mu_locked t \<and> me t \<noteq> me s \<and> view t \<le> vw"

text \<open>One peer's turn: the follower merges the request, the leader the reply.\<close>

lemma heartbeat_exchange:
  assumes f: "follower_of s vw t" and ps: "smap_ok ps"
    and req: "req = \<lparr>hb_id = me s, hb_view = vw, hb_done = dn, hb_slots = ps\<rparr>"
  shows "\<exists>resp. Heartbeat t req = (Ok resp, heartbeat_merge t req) \<and>
    decided (heartbeat_merge t req) = proto_values ps ++ decided t \<and>
    (\<forall>k. decided (adopt_slots (slots_of_proto (hp_slots resp)) s) k =
       (case decided s k of Some v \<Rightarrow> Some v
        | None \<Rightarrow> if proto_values ps k = None then decided t k else None))"
proof -
  have "heartbeat_taken t req" using f by (auto simp: heartbeat_taken_def follower_of_def req)
  from Heartbeat_taken [OF this] f ps show ?thesis
    by (auto simp: req decided_heartbeat_merge follower_of_def decided_adopt_proto map_add_def
        proto_values_reply split: option.splits)
qed

text \<open>
  The turn of one peer in the leader's loop: the leader itself, a server that is down, or a
  follower, whose vector of done indices becomes what the request has gathered so far.
\<close>

lemma send_loop_turn:
  assumes net: "net c = []" and s: "node c a = Some s" "\<not> mu_locked s" "server_address s = a"
    and f: "\<forall>t. node c b = Some t \<longrightarrow> b = a \<or> follower_of s vw t" and ps: "smap_ok ps"
  shows "\<exists>c1 s1. send_loop a vw ps (b # bs) dn c = send_loop a vw ps bs (dn @ done_vec s) c1 \<and>
     net c1 = [] \<and> node c1 a = Some s1 \<and> \<not> mu_locked s1 \<and> server_address s1 = a \<and> me s1 = me s \<and>
     done_vec s1 = done_vec s \<and> decided s \<subseteq>\<^sub>m decided s1 \<and>
     (\<forall>x. x \<noteq> a \<longrightarrow> x \<noteq> b \<longrightarrow> node c1 x = node c x) \<and>
     (\<forall>t. b \<noteq> a \<longrightarrow> node c b = Some t \<longrightarrow>
        (\<exists>t'. node c1 b = Some t' \<and> done_vec t' = dn @ done_vec s \<and>
           decided t' = proto_values ps ++ decided t \<and>
           dom (decided t) \<subseteq> dom (proto_values ps) \<union> dom (decided s1)))"
proof -
  let ?req = "\<lparr>hb_id = me s, hb_view = vw, hb_done = dn @ done_vec s, hb_slots = ps\<rparr>"
  consider (self) "b = a" | (down) "b \<noteq> a" "node c b = None" | (follower) t where "b \<noteq> a" "node c b = Some t"
    by (cases "node c b") auto
  then show ?thesis
  proof cases
    case self
    let ?c1 = "put_node a (s\<lparr>missed_heartbeats := 0\<rparr>) c"
    have "rpc b (\<lambda>t. Heartbeat t ?req) c = (Ok \<lparr>hp_slots = []\<rparr>, ?c1)"
      using self net s(1,2) decided_Heartbeat_self [of s ?req] by (simp add: rpc_delivered)
    then have "send_loop a vw ps (b # bs) dn c = send_loop a vw ps bs (dn @ done_vec s) ?c1"
      using s self by (simp add: Let_def)
    then show ?thesis using self s net by (intro exI [of _ ?c1]) auto
  next
    case down
    have "rpc b (\<lambda>t. Heartbeat t ?req) c = (Error UNAVAILABLE, c)" using net down(2) by (rule rpc_down)
    then have "send_loop a vw ps (b # bs) dn c = send_loop a vw ps bs (dn @ done_vec s) c"
      using s by (simp add: Let_def)
    then show ?thesis using down s net by (intro exI [of _ c] exI [of _ s]) auto
  next
    case follower
    from heartbeat_exchange [OF _ ps refl, of s vw t "dn @ done_vec s"] follower f obtain resp where
      ex: "Heartbeat t ?req = (Ok resp, heartbeat_merge t ?req)"
        "decided (heartbeat_merge t ?req) = proto_values ps ++ decided t"
        "\<forall>k. decided (adopt_slots (slots_of_proto (hp_slots resp)) s) k =
           (case decided s k of Some v \<Rightarrow> Some v
            | None \<Rightarrow> if proto_values ps k = None then decided t k else None)" by blast
    let ?s1 = "adopt_slots (slots_of_proto (hp_slots resp)) s"
    let ?c1 = "put_node a ?s1 (put_node b (heartbeat_merge t ?req) c)"
    have "rpc b (\<lambda>t. Heartbeat t ?req) c = (Ok resp, put_node b (heartbeat_merge t ?req) c)"
      using net follower(2) ex(1) by (simp add: rpc_delivered)
    then have "send_loop a vw ps (b # bs) dn c = send_loop a vw ps bs (dn @ done_vec s) ?c1"
      using s follower(1) by (simp add: Let_def)
    moreover have "decided s \<subseteq>\<^sub>m decided ?s1" using ex(3) by (auto simp: map_le_def split: option.split)
    moreover have "dom (decided t) \<subseteq> dom (proto_values ps) \<union> dom (decided ?s1)"
    proof
      fix k assume "k \<in> dom (decided t)"
      with spec [OF ex(3), of k] show "k \<in> dom (proto_values ps) \<union> dom (decided ?s1)"
        by (cases "decided s k"; cases "proto_values ps k") auto
    qed
    ultimately show ?thesis using s net follower ex(2) by (intro exI [of _ ?c1] exI [of _ ?s1]) auto
  qed
qed

text \<open>What the rest of the loop leaves of the leader and of the peers that run.\<close>

definition spread ::
  "string \<Rightarrow> string list \<Rightarrow> int list \<Rightarrow> (int, proto_slot) smap \<Rightarrow> 'd cluster \<Rightarrow> 'd paxos_impl \<Rightarrow>
   'd cluster \<Rightarrow> 'd paxos_impl \<Rightarrow> bool" where
  "spread a bs dn ps c s c' s' \<longleftrightarrow> decided s \<subseteq>\<^sub>m decided s' \<and>
     (\<forall>i < length bs. \<forall>t. bs ! i \<noteq> a \<longrightarrow> node c (bs ! i) = Some t \<longrightarrow>
        (\<exists>t'. node c' (bs ! i) = Some t' \<and> decided t' = proto_values ps ++ decided t \<and>
           dom (decided t) \<subseteq> dom (proto_values ps) \<union> dom (decided s') \<and>
           done_vec t' = dn @ concat (replicate (Suc i) (done_vec s))))"

lemma send_loop_spreads:
  assumes "net c = []" "distinct bs" "node c a = Some s" "\<not> mu_locked s" "server_address s = a"
    and "\<forall>b \<in> set bs - {a}. \<forall>t. node c b = Some t \<longrightarrow> follower_of s vw t" and "smap_ok ps"
  shows "\<exists>c' s'. send_loop a vw ps bs dn c = Done c' \<and> node c' a = Some s' \<and>
     spread a bs dn ps c s c' s' \<and> (\<forall>b. b \<notin> set bs \<longrightarrow> b \<noteq> a \<longrightarrow> node c' b = node c b)"
  using assms
proof (induction bs arbitrary: dn c s)
  case Nil
  then show ?case by (simp add: spread_def)
next
  case (Cons b bs)
  have "\<forall>t. node c b = Some t \<longrightarrow> b = a \<or> follower_of s vw t" using Cons.prems(6) by auto
  from send_loop_turn [OF Cons.prems(1,3,4,5) this Cons.prems(7), of bs dn] obtain c1 s1 where
    run: "send_loop a vw ps (b # bs) dn c = send_loop a vw ps bs (dn @ done_vec s) c1"
    and c1: "net c1 = []" "node c1 a = Some s1" "\<not> mu_locked s1" "server_address s1 = a"
    and s1: "me s1 = me s" "done_vec s1 = done_vec s" "decided s \<subseteq>\<^sub>m decided s1"
    and same: "\<forall>x. x \<noteq> a \<longrightarrow> x \<noteq> b \<longrightarrow> node c1 x = node c x"
    and turn: "\<forall>t. b \<noteq> a \<longrightarrow> node c b = Some t \<longrightarrow>
        (\<exists>t'. node c1 b = Some t' \<and> done_vec t' = dn @ done_vec s \<and>
           decided t' = proto_values ps ++ decided t \<and>
           dom (decided t) \<subseteq> dom (proto_values ps) \<union> dom (decided s1))" by blast
  have "node c1 x = node c x" if "x \<in> set bs - {a}" for x using that same Cons.prems(2) by auto
  then have fol: "\<forall>x \<in> set bs - {a}. \<forall>t. node c1 x = Some t \<longrightarrow> follower_of s1 vw t"
    using Cons.prems(6) s1(1) by (auto simp: follower_of_def)
  from Cons.IH [OF c1(1) _ c1(2-4) fol Cons.prems(7), of "dn @ done_vec s"] Cons.prems(2)
  obtain c' s' where ih: "send_loop a vw ps bs (dn @ done_vec s) c1 = Done c'" "node c' a = Some s'"
    "spread a bs (dn @ done_vec s) ps c1 s1 c' s'" "\<forall>b. b \<notin> set bs \<longrightarrow> b \<noteq> a \<longrightarrow> node c' b = node c1 b" by auto
  have le: "decided s1 \<subseteq>\<^sub>m decided s'" using ih(3) by (simp add: spread_def)
  have head: "\<exists>t'. node c' b = Some t' \<and> decided t' = proto_values ps ++ decided t \<and>
      dom (decided t) \<subseteq> dom (proto_values ps) \<union> dom (decided s') \<and> done_vec t' = dn @ done_vec s"
    if "b \<noteq> a" "node c b = Some t" for t
    using turn that ih(4) Cons.prems(2) map_le_implies_dom_le [OF le] by fastforce
  have "spread a (b # bs) dn ps c s c' s'"
    unfolding spread_def
  proof (intro conjI allI impI)
    show "decided s \<subseteq>\<^sub>m decided s'" using s1(3) le by (rule map_le_trans)
    fix i t assume i: "i < length (b # bs)" "(b # bs) ! i \<noteq> a" "node c ((b # bs) ! i) = Some t"
    show "\<exists>t'. node c' ((b # bs) ! i) = Some t' \<and> decided t' = proto_values ps ++ decided t \<and>
        dom (decided t) \<subseteq> dom (proto_values ps) \<union> dom (decided s') \<and>
        done_vec t' = dn @ concat (replicate (Suc i) (done_vec s))"
    proof (cases i)
      case (Suc j)
      with i have j: "j < length bs" "bs ! j \<noteq> a" "node c (bs ! j) = Some t" by simp_all
      moreover have "bs ! j \<noteq> b" using j(1) Cons.prems(2) by auto
      ultimately show ?thesis using ih(3) same s1(2) Suc by (auto simp: spread_def)
    qed (use i head in simp)
  qed
  moreover have "node c' x = node c x" if "x \<notin> set (b # bs)" "x \<noteq> a" for x using ih(4) same that by simp
  ultimately show ?case using run ih(1,2) by auto
qed

text \<open>The whole of \<open>SendHeartbeats\<close> by the leader of a view.\<close>

lemma SendHeartbeats_spreads:
  assumes "net c = []" "node c a = Some s" "\<not> mu_locked s" "server_address s = a" "smap_ok (slots s)"
    and "view s smod group_size s = me s" "distinct (smap_keys (paxos_stubs_map s))"
    and "\<forall>b \<in> set (smap_keys (paxos_stubs_map s)) - {a}. \<forall>t. node c b = Some t \<longrightarrow> follower_of s (view s) t"
  shows "\<exists>c' s' ps. SendHeartbeats a c = Done c' \<and> node c' a = Some s' \<and> proto_values ps = decided s \<and>
     spread a (smap_keys (paxos_stubs_map s)) [] ps c s c' s'"
proof -
  let ?ps = "proto_of_slots (request_slots (view s) (slots s) [])"
  have "proto_values ?ps = decided s" using assms(5) by (rule proto_values_request)
  moreover have "SendHeartbeats a c = send_loop a (view s) ?ps (smap_keys (paxos_stubs_map s)) [] c"
    using assms(2,3,6) by (simp add: SendHeartbeats_def)
  ultimately show ?thesis
    using send_loop_spreads [OF assms(1,7,2,3,4,8), of ?ps "[]"] by auto
qed

section \<open>Properties\<close>

text \<open>
  C19: one round of heartbeats on a network that delivers makes the cell learn what its leader
  knows, and the leader what the cell knows.  When the leader of a view whose running followers are
  not ahead of it runs \<open>SendHeartbeats\<close>, every follower that runs ends with the leader's decisions
  added to its own (its own stay), and whatever any of them had decided the leader has decided too.
\<close>
theorem heartbeats_spread_decisions:
  assumes "net c = []" "node c a = Some s" "\<not> mu_locked s" "server_address s = a" "smap_ok (slots s)"
    and "view s smod group_size s = me s" "distinct (smap_keys (paxos_stubs_map s))"
    and "\<forall>b \<in> set (smap_keys (paxos_stubs_map s)) - {a}. \<forall>t. node c b = Some t \<longrightarrow> follower_of s (view s) t"
  shows "\<exists>c' s'. SendHeartbeats a c = Done c' \<and> node c' a = Some s' \<and> decided s \<subseteq>\<^sub>m decided s' \<and>
    (\<forall>b \<in> set (smap_keys (paxos_stubs_map s)) - {a}. \<forall>t. node c b = Some t \<longrightarrow> (\<exists>t'. node c' b = Some t' \<and>
       decided t' = decided s ++ decided t \<and> dom (decided t) \<subseteq> dom (decided s')))"
proof -
  from SendHeartbeats_spreads [OF assms] obtain c' s' ps where
    c': "SendHeartbeats a c = Done c'" "node c' a = Some s'" "proto_values ps = decided s"
      "spread a (smap_keys (paxos_stubs_map s)) [] ps c s c' s'" by blast
  then have le: "decided s \<subseteq>\<^sub>m decided s'" by (simp add: spread_def)
  have "\<exists>t'. node c' b = Some t' \<and> decided t' = decided s ++ decided t \<and> dom (decided t) \<subseteq> dom (decided s')"
    if b: "b \<in> set (smap_keys (paxos_stubs_map s)) - {a}" "node c b = Some t" for b t
  proof -
    obtain i where "i < length (smap_keys (paxos_stubs_map s))" "smap_keys (paxos_stubs_map s) ! i = b"
      using b(1) by (auto simp: in_set_conv_nth)
    with b c'(3,4) map_le_implies_dom_le [OF le] show ?thesis by (fastforce simp: spread_def)
  qed
  with c'(1,2) le show ?thesis by blast
qed

lemma heartbeats_spread_decisions_witness:
  "\<exists>c' t'. SendHeartbeats ''127.0.0.1:50051'' (kill_node ''127.0.0.1:50053'' sample_cell) = Done c' \<and>
     node c' ''127.0.0.1:50052'' = Some t' \<and> decided t' = Map.empty"
  using heartbeats_spread_decisions [of "kill_node ''127.0.0.1:50053'' sample_cell" "''127.0.0.1:50051''" "sample_server 0"]
  by (auto simp: follower_of_def signed_modulo_int_def smap_keys_def)

text \<open>
  The vector of done indices grows.  The request of \<open>SendHeartbeats\<close> is one object for all peers, and
  the leader's vector is appended to it before each call: the follower at place \<open>i\<close> of the table (from
  \<open>0\<close>) ends with \<open>i + 1\<close> copies of the leader's vector as its own, and passes on copies of those when
  it leads.
\<close>
theorem done_vector_grows:
  assumes "net c = []" "node c a = Some s" "\<not> mu_locked s" "server_address s = a" "smap_ok (slots s)"
    and "view s smod group_size s = me s" "distinct (smap_keys (paxos_stubs_map s))"
    and "\<forall>b \<in> set (smap_keys (paxos_stubs_map s)) - {a}. \<forall>t. node c b = Some t \<longrightarrow> follower_of s (view s) t"
    and "i < length (smap_keys (paxos_stubs_map s))" "smap_keys (paxos_stubs_map s) ! i = b" "b \<noteq> a"
    and "node c b \<noteq> None"
  shows "\<exists>c' t'. SendHeartbeats a c = Done c' \<and> node c' b = Some t' \<and>
    done_vec t' = concat (replicate (i + 1) (done_vec s)) \<and>
    length (done_vec t') = (i + 1) * length (done_vec s)"
proof -
  from SendHeartbeats_spreads [OF assms(1-8)] obtain c' s' ps where
    c': "SendHeartbeats a c = Done c'" "spread a (smap_keys (paxos_stubs_map s)) [] ps c s c' s'" by blast
  obtain t where "node c b = Some t" using assms(12) by blast
  then obtain t' where t': "node c' b = Some t'" "done_vec t' = concat (replicate (Suc i) (done_vec s))"
    using conjunct2 [OF c'(2) [unfolded spread_def], rule_format, OF assms(9)] assms(10,11)
    by (auto simp del: replicate_Suc)
  have "length (concat (replicate n xs)) = n * length xs" for n and xs :: "int list" by (induction n) simp_all
  then have "length (done_vec t') = Suc i * length (done_vec s)" by (simp only: t'(2))
  with c'(1) t' show ?thesis unfolding Suc_eq_plus1 by blast
qed

lemma done_vector_grows_witness:
  "\<exists>c' t'. SendHeartbeats ''127.0.0.1:50051'' sample_cell = Done c' \<and>
     node c' ''127.0.0.1:50053'' = Some t' \<and> length (done_vec t') = 3 * length (done_vec (sample_server 0))"
  using done_vector_grows [of sample_cell "''127.0.0.1:50051''" "sample_server 0" 2 "''127.0.0.1:50053''"]
  by (auto simp: follower_of_def signed_modulo_int_def smap_keys_def)

text \<open>
  C37: a decision that a server takes from a heartbeat never reaches its database.  The handler
  decides the slot without writing, and after that no \<open>Learn\<close> of the slot writes either, so that a
  lock granted while a follower was unreachable stays unknown to that follower's store.
\<close>
theorem heartbeat_decision_never_stored:
  assumes "heartbeat_taken t req" "smap_ok (hb_slots req)"
    and "proto_values (hb_slots req) k = Some v" "decided t k = None" "dr_seq dreq = k"
  defines "t' \<equiv> snd (Heartbeat t req)"
  shows "decided t' k = Some v \<and> paxos_db t' = paxos_db t \<and>
    paxos_db (snd (Learn E t' dreq)) = paxos_db t \<and> decided (snd (Learn E t' dreq)) k = Some v"
proof -
  have t': "t' = heartbeat_merge t req" using assms(1) by (simp add: t'_def Heartbeat_taken)
  have dec: "decided t' k = Some v"
    using assms(2-4) by (simp add: t' decided_heartbeat_merge map_add_def)
  have "paxos_db (snd (Learn E t' dreq)) = paxos_db t'"
  proof (cases "can_enter t' (dr_seq dreq)")
    case True
    with dec assms(5) show ?thesis by (simp add: Learn_ok Learn_slot_def Let_def)
  qed (simp add: Learn_refused)
  with dec assms(5) show ?thesis by (simp add: t' decided_Learn)
qed

lemma heartbeat_decision_never_stored_witness:
  "paxos_db (snd (Learn mem_env
      (snd (Heartbeat (sample_server 0)
         \<lparr>hb_id = 1, hb_view = 1, hb_done = [], hb_slots = [(1, ToProtobuf ((initSlot 1)\<lparr>slot_value := ''a#FREE''\<rparr>))]\<rparr>))
      \<lparr>dr_seq = 1, dr_value = ''a#FREE'', dr_sender_id = 1, dr_latest_done = 0\<rparr>)) = \<lparr>db_handle = Some []\<rparr>"
  using heartbeat_decision_never_stored [of "sample_server 0"
      "\<lparr>hb_id = 1, hb_view = 1, hb_done = [],
        hb_slots = [(1, ToProtobuf ((initSlot 1)\<lparr>slot_value := ''a#FREE''\<rparr>))]\<rparr>" 1 "''a#FREE''"
      "\<lparr>dr_seq = 1, dr_value = ''a#FREE'', dr_sender_id = 1, dr_latest_done = 0\<rparr>" mem_env]
  by (simp add: heartbeat_taken_def smap_ok_def proto_values_def ToProtobuf_def)

end
