(* ===== verification/ServerSteps.thy ===== *)
theory ServerSteps
  imports Heartbeats
begin

text \<open>
  One Paxos server under any sequence of calls.  An \<open>event\<close> is one handler run to its end with
  an arbitrary request, so that a run covers every sender, every order of calls, repetition and
  loss.  Shown: a type invariant, that no handler reads a vector out of range or waits, and what
  only grows along a run: the view, the decisions, the promises.
\<close>

section \<open>Systems whose state only grows\<close>

locale growing_system =
  fixes step :: "'s \<Rightarrow> 'e \<Rightarrow> 's"
    and inv :: "'s \<Rightarrow> bool"
    and ok :: "'e \<Rightarrow> bool"
    and le :: "'s \<Rightarrow> 's \<Rightarrow> bool"
  assumes step_inv: "inv s \<Longrightarrow> ok e \<Longrightarrow> inv (step s e)"
    and step_le: "inv s \<Longrightarrow> ok e \<Longrightarrow> le s (step s e)"
    and le_refl: "le s s"
    and le_trans: "le s t \<Longrightarrow> le t u \<Longrightarrow> le s u"
begin

lemma run_inv: "inv s \<Longrightarrow> \<forall>e \<in> set es. ok e \<Longrightarrow> inv (foldl step s es)"
  by (induction es arbitrary: s) (auto simp: step_inv)

lemma run_le: "inv s \<Longrightarrow> \<forall>e \<in> set es. ok e \<Longrightarrow> le s (foldl step s es)"
proof (induction es arbitrary: s)
  case Nil
  show ?case by (simp add: le_refl)
next
  case (Cons e es)
  then show ?case using step_le [of s e] step_inv [of s e] by (auto intro: le_trans)
qed

lemma run_le_later:
  "inv s \<Longrightarrow> \<forall>e \<in> set (es @ es'). ok e \<Longrightarrow> le (foldl step s es) (foldl step s (es @ es'))"
  using run_inv [of s es] run_le [of "foldl step s es" es'] by auto

end

section \<open>Events\<close>

datatype event =
    EvElect elect_request
  | EvPrepare prepare_request
  | EvAccept accept_request
  | EvLearn decide_request
  | EvHeartbeat heartbeat_request
  | EvForget int int

fun server_step :: "'d env \<Rightarrow> 'd paxos_impl \<Rightarrow> event \<Rightarrow> 'd paxos_impl" where
  "server_step E s (EvElect req) = snd (Elect s req)"
| "server_step E s (EvPrepare req) = snd (Prepare E s req)"
| "server_step E s (EvAccept req) = snd (Accept E s req)"
| "server_step E s (EvLearn req) = snd (Learn E s req)"
| "server_step E s (EvHeartbeat req) = snd (Heartbeat s req)"
| "server_step E s (EvForget peer peerDone) = snd (Forget s peer peerDone)"

abbreviation server_run :: "'d env \<Rightarrow> 'd paxos_impl \<Rightarrow> event list \<Rightarrow> 'd paxos_impl" where
  "server_run E \<equiv> foldl (server_step E)"

section \<open>The type invariant\<close>

text \<open>
  \<open>wf_server N s\<close>: the slot table is a map, the mutex is free, the integers are in the range of
  their type, \<open>done\<close> has an entry for this server (\<open>N\<close> bounds the servers' numbers).
  \<open>wf_event N\<close>: the integers of a request are in the range of their protobuf type, the view of
  an \<open>ElectRequest\<close>, which the code narrows, in that of \<open>int\<close>; a heartbeat brings at least
  \<open>N\<close> done entries.
\<close>

definition done_ok :: "int \<Rightarrow> bool" where
  "done_ok d \<longleftrightarrow> - 1 \<le> d \<and> d < 2 ^ 31 - 1"

definition wf_server :: "nat \<Rightarrow> 'd paxos_impl \<Rightarrow> bool" where
  "wf_server N s \<longleftrightarrow>
     smap_ok (slots s) \<and> \<not> mu_locked s \<and> in_int32 (view s) \<and>
     0 \<le> lowest_slot s \<and> in_int32 (lowest_slot s) \<and>
     0 \<le> me s \<and> me s < int N \<and> N \<le> length (done_vec s) \<and> (\<forall>d \<in> set (done_vec s). done_ok d)"

fun wf_event :: "nat \<Rightarrow> event \<Rightarrow> bool" where
  "wf_event N (EvElect req) \<longleftrightarrow> in_int32 (er_view req)"
| "wf_event N (EvPrepare req) \<longleftrightarrow> in_int64 (pr_proposal_number req)"
| "wf_event N (EvAccept req) \<longleftrightarrow> in_int32 (ar_view req)"
| "wf_event N (EvLearn req) \<longleftrightarrow> True"
| "wf_event N (EvHeartbeat req) \<longleftrightarrow>
     in_int32 (hb_view req) \<and> smap_ok (hb_slots req) \<and> N \<le> length (hb_done req) \<and>
     (\<forall>d \<in> set (hb_done req). done_ok d)"
| "wf_event N (EvForget peer peerDone) \<longleftrightarrow> done_ok peerDone"

lemma in_int32_max: "in_int32 a \<Longrightarrow> in_int32 b \<Longrightarrow> in_int32 (max a b)"
  by (simp add: max_def)

lemma wf_server_can_enter: "wf_server N s \<Longrightarrow> can_enter s q \<longleftrightarrow> lowest_slot s \<le> q"
  by (auto simp: wf_server_def can_enter_def)

lemma min_done_le: "min_done m ds \<le> m \<and> (\<forall>d \<in> set ds. min_done m ds \<le> d)"
  by (induction m ds rule: min_done.induct) auto

lemma min_done_mem: "min_done m ds = m \<or> min_done m ds \<in> set ds"
  by (induction m ds rule: min_done.induct) (auto simp: min_def)

text \<open>\<open>Forget\<close> in the range of its integers: \<open>lowest_slot\<close> becomes one more than the minimum.\<close>

definition forget_done :: "'d paxos_impl \<Rightarrow> int \<Rightarrow> int \<Rightarrow> int list" where
  "forget_done s peer peerDone =
     (if done_vec s ! nat peer < peerDone then (done_vec s)[nat peer := peerDone] else done_vec s)"

definition forget_lowest :: "'d paxos_impl \<Rightarrow> int \<Rightarrow> int \<Rightarrow> int" where
  "forget_lowest s peer peerDone =
     (let ds = forget_done s peer peerDone in max (lowest_slot s) (min_done (hd ds) ds + 1))"

definition drop_below :: "int \<Rightarrow> (int, paxos_slot) smap \<Rightarrow> (int, paxos_slot) smap" where
  "drop_below low m = filter (\<lambda>(k, sl). \<not> k < low) m"

lemma Forget_ok:
  assumes wf: "wf_server N s" and d: "done_ok peerDone"
    and i: "0 \<le> peer" "peer < int (length (done_vec s))"
  defines "ds \<equiv> forget_done s peer peerDone" and "low \<equiv> forget_lowest s peer peerDone"
  shows "Forget s peer peerDone =
      (Ok (), s\<lparr>done_vec := ds, lowest_slot := low, slots := drop_below low (slots s)\<rparr>)"
    and "in_int32 low" and "lowest_slot s \<le> low"
    and "\<forall>d \<in> set ds. done_ok d" and "length ds = length (done_vec s)"
proof -
  show len: "length ds = length (done_vec s)" by (simp add: ds_def forget_done_def)
  show dk: "\<forall>d \<in> set ds. done_ok d"
    using wf d
    by (auto simp: ds_def forget_done_def wf_server_def dest: set_update_subset_insert [THEN subsetD])
  let ?mini = "min_done (hd ds) ds"
  have low: "low = max (lowest_slot s) (?mini + 1)"
    by (simp add: low_def ds_def forget_lowest_def Let_def)
  then show "lowest_slot s \<le> low" by simp
  have "ds \<noteq> []" using len i by auto
  then have "?mini \<in> set ds" using min_done_mem [of "hd ds" ds] by auto
  then have m: "done_ok ?mini" using dk by blast
  have l: "0 \<le> lowest_slot s" "in_int32 (lowest_slot s)" using wf by (auto simp: wf_server_def)
  show "in_int32 low" using m l by (auto simp: low done_ok_def in_int32_def)
  have off: "to_int32 (?mini - lowest_slot s + 1) = ?mini - lowest_slot s + 1"
    using m l by (intro to_int32_id) (auto simp: done_ok_def in_int32_def)
  have up: "to_int32 (?mini + 1) = low" if "lowest_slot s \<le> ?mini"
    using that m l by (subst to_int32_id) (auto simp: low done_ok_def in_int32_def)
  have same: "low = lowest_slot s" if "\<not> lowest_slot s \<le> ?mini"
    using that by (simp add: low)
  show "Forget s peer peerDone =
      (Ok (), s\<lparr>done_vec := ds, lowest_slot := low, slots := drop_below low (slots s)\<rparr>)"
    using wf i up same
    by (cases "lowest_slot s \<le> ?mini")
      (simp_all add: Forget_def vec_get_def wf_server_def Let_def ds_def [symmetric]
        forget_done_def [symmetric] off drop_below_def)
qed

lemma Forget_refused:
  "\<not> (0 \<le> peer \<and> peer < int (length (done_vec s))) \<Longrightarrow> snd (Forget s peer d) = s"
  by (auto simp: Forget_def vec_get_def with_mu_def)

lemma map_of_filter_keys: "map_of (filter (\<lambda>(k, x). P k) m) j = (if P j then map_of m j else None)"
  by (induction m) auto

section \<open>The invariant is kept\<close>

lemma wf_addSlots [simp]: "wf_server N s \<Longrightarrow> wf_server N (snd (addSlots s q))"
  by (simp add: wf_server_def)

lemma wf_set_slot [simp]: "wf_server N s \<Longrightarrow> wf_server N (set_slot q sl s)"
  by (simp add: wf_server_def)

lemma wf_paxos_db [simp]: "wf_server N (s\<lparr>paxos_db := w\<rparr>) = wf_server N s"
  by (simp add: wf_server_def)

lemma wf_adopt_view [simp]: "wf_server N s \<Longrightarrow> in_int32 vw \<Longrightarrow> wf_server N (adopt_view vw s)"
  by (simp add: wf_server_def in_int32_max)

lemma wf_Accept_seq [simp]: "wf_server N (Accept_seq q s) = wf_server N s"
  by (simp add: wf_server_def)

lemma wf_raise_highest [simp]: "wf_server N (raise_highest q s) = wf_server N s"
  by (simp add: wf_server_def)

lemma wf_Elect: "wf_server N s \<Longrightarrow> wf_server N (snd (Elect s req))"
  by (auto simp: Elect_def wf_server_def Let_def)

lemma wf_Prepare: "wf_server N s \<Longrightarrow> wf_server N (snd (Prepare E s req))"
  by (cases "can_enter s (pr_seq req)") (simp_all add: Prepare_ok Prepare_refused Let_def)

lemma wf_Accept: "wf_server N s \<Longrightarrow> in_int32 (ar_view req) \<Longrightarrow> wf_server N (snd (Accept E s req))"
  by (cases "can_enter s (ar_seq req)") (simp_all add: Accept_ok Accept_refused Let_def)

lemma wf_Learn: "wf_server N s \<Longrightarrow> wf_server N (snd (Learn E s req))"
  by (cases "can_enter s (dr_seq req)") (simp_all add: Learn_ok Learn_refused Let_def)

lemma wf_Heartbeat:
  "wf_server N s \<Longrightarrow> wf_event N (EvHeartbeat req) \<Longrightarrow> wf_server N (snd (Heartbeat s req))"
  by (cases "heartbeat_taken s req")
    (auto simp: Heartbeat_taken Heartbeat_not_taken wf_server_def in_int32_max)

lemma wf_Forget: "wf_server N s \<Longrightarrow> done_ok d \<Longrightarrow> wf_server N (snd (Forget s peer d))"
proof (cases "0 \<le> peer \<and> peer < int (length (done_vec s))")
  case True
  assume wf: "wf_server N s" and d: "done_ok d"
  show ?thesis
    using wf True Forget_ok [OF wf d, of peer] by (auto simp: wf_server_def drop_below_def smap_ok_filter)
qed (simp add: Forget_refused)

lemma wf_server_step: "wf_server N s \<Longrightarrow> wf_event N e \<Longrightarrow> wf_server N (server_step E s e)"
  using wf_Heartbeat
  by (cases e) (auto simp: wf_Elect wf_Prepare wf_Accept wf_Learn wf_Forget)

section \<open>What only grows\<close>

text \<open>The view.\<close>

lemma view_server_step:
  assumes "wf_server N s" "wf_event N e"
  shows "view s \<le> view (server_step E s e)"
proof (cases e)
  case (EvElect req)
  then show ?thesis using assms by (auto simp: Elect_def wf_server_def Let_def)
next
  case (EvPrepare req)
  then show ?thesis
    by (cases "can_enter s (pr_seq req)") (simp_all add: Prepare_ok Prepare_refused Let_def)
next
  case (EvAccept req)
  then show ?thesis
    by (cases "can_enter s (ar_seq req)") (simp_all add: Accept_ok Accept_refused Let_def)
next
  case (EvLearn req)
  then show ?thesis
    by (cases "can_enter s (dr_seq req)") (simp_all add: Learn_ok Learn_refused Let_def)
next
  case (EvHeartbeat req)
  then show ?thesis
    by (cases "heartbeat_taken s req") (simp_all add: Heartbeat_taken Heartbeat_not_taken)
next
  case (EvForget peer d)
  then show ?thesis by (auto simp: Forget_def with_mu_def Let_def split: option.split)
qed

text \<open>
  The decisions and the promises of the slots that have not been garbage collected: \<open>kept s t\<close>
  says that \<open>t\<close> has every decision of \<open>s\<close>, and no promise of \<open>s\<close> has become smaller, in the
  slots that \<open>t\<close> still serves.
\<close>

definition kept :: "'d paxos_impl \<Rightarrow> 'd paxos_impl \<Rightarrow> bool" where
  "kept s t \<longleftrightarrow>
     lowest_slot s \<le> lowest_slot t \<and>
     (\<forall>k \<ge> lowest_slot t. promised s k \<le> promised t k \<and>
        (\<forall>v. decided s k = Some v \<longrightarrow> decided t k = Some v))"

lemma kept_refl [simp]: "kept s s"
  by (simp add: kept_def)

lemma kept_trans: "kept s t \<Longrightarrow> kept t u \<Longrightarrow> kept s u"
  unfolding kept_def by (meson order_trans)

lemma keptI:
  "lowest_slot s = lowest_slot t \<Longrightarrow> (\<And>k. promised s k \<le> promised t k) \<Longrightarrow>
   (\<And>k v. decided s k = Some v \<Longrightarrow> decided t k = Some v) \<Longrightarrow> kept s t"
  by (simp add: kept_def)

lemma lowest_slot_handlers:
  "lowest_slot (snd (Elect s req1)) = lowest_slot s"
  "lowest_slot (snd (Prepare E s req2)) = lowest_slot s"
  "lowest_slot (snd (Accept E s req3)) = lowest_slot s"
  "lowest_slot (snd (Learn E s req4)) = lowest_slot s"
  "lowest_slot (snd (Heartbeat s req5)) = lowest_slot s"
proof -
  show "lowest_slot (snd (Elect s req1)) = lowest_slot s"
    by (simp add: Elect_def with_mu_def Let_def)
  show "lowest_slot (snd (Prepare E s req2)) = lowest_slot s"
    by (cases "can_enter s (pr_seq req2)") (simp_all add: Prepare_ok Prepare_refused Let_def)
  show "lowest_slot (snd (Accept E s req3)) = lowest_slot s"
    by (cases "can_enter s (ar_seq req3)") (simp_all add: Accept_ok Accept_refused Let_def)
  show "lowest_slot (snd (Learn E s req4)) = lowest_slot s"
    by (cases "can_enter s (dr_seq req4)") (simp_all add: Learn_ok Learn_refused Let_def)
  show "lowest_slot (snd (Heartbeat s req5)) = lowest_slot s"
    by (cases "heartbeat_taken s req5") (simp_all add: Heartbeat_taken Heartbeat_not_taken)
qed

lemma slots_Elect [simp]: "slots (snd (Elect s req)) = slots s"
  by (simp add: Elect_def with_mu_def Let_def)

lemma kept_Heartbeat: "smap_ok (hb_slots req) \<Longrightarrow> kept s (snd (Heartbeat s req))"
proof (cases "heartbeat_taken s req")
  case True
  assume "smap_ok (hb_slots req)"
  with True show ?thesis
    by (intro keptI) (simp_all add: Heartbeat_taken decided_heartbeat_merge)
qed (simp add: Heartbeat_not_taken keptI)

lemma kept_Forget:
  assumes wf: "wf_server N s" and d: "done_ok d"
  shows "kept s (snd (Forget s peer d))"
proof (cases "0 \<le> peer \<and> peer < int (length (done_vec s))")
  case True
  then show ?thesis
    using Forget_ok [OF wf d, of peer]
    by (simp add: kept_def decided_def promised_def get_slot_def drop_below_def map_of_filter_keys)
qed (simp add: Forget_refused)

lemma kept_server_step:
  assumes "wf_server N s" "wf_event N e"
  shows "kept s (server_step E s e)"
proof (cases e)
  case (EvElect req)
  then show ?thesis
    by (auto intro!: keptI simp: lowest_slot_handlers
        decided_cong [OF slots_Elect] promised_cong [OF slots_Elect])
next
  case (EvPrepare req)
  then show ?thesis by (auto intro!: keptI simp: lowest_slot_handlers promised_Prepare)
next
  case (EvAccept req)
  then show ?thesis by (auto intro!: keptI simp: lowest_slot_handlers)
next
  case (EvLearn req)
  then show ?thesis by (auto intro!: keptI simp: lowest_slot_handlers decided_Learn)
qed (use assms in \<open>auto intro: kept_Heartbeat kept_Forget\<close>)

interpretation vw: growing_system "server_step E" "wf_server N" "wf_event N"
    "\<lambda>s t. view s \<le> view t" for E :: "'d env" and N
  by unfold_locales (auto simp: wf_server_step view_server_step)

interpretation kp: growing_system "server_step E" "wf_server N" "wf_event N" kept
    for E :: "'d env" and N
  by unfold_locales (auto simp: wf_server_step kept_server_step intro: kept_trans)

section \<open>Where decisions come from\<close>

text \<open>The value an event brings for a slot.\<close>

fun brings :: "event \<Rightarrow> int \<Rightarrow> string \<Rightarrow> bool" where
  "brings (EvLearn req) k v \<longleftrightarrow> dr_seq req = k \<and> dr_value req = v"
| "brings (EvHeartbeat req) k v \<longleftrightarrow> proto_values (hb_slots req) k = Some v"
| "brings _ k v \<longleftrightarrow> False"

lemma decided_Elect [simp]: "decided (snd (Elect s req)) = decided s"
  by (rule decided_cong) simp

lemma decided_Forget:
  "decided (snd (Forget s peer d)) k = Some v \<Longrightarrow> decided s k = Some v"
  by (auto simp: Forget_def with_mu_def Let_def decided_def get_slot_def map_of_filter_keys
      split: option.splits if_splits)

lemma decided_server_step:
  assumes "wf_server N s" "wf_event N e" "decided (server_step E s e) k = Some v"
  shows "decided s k = Some v \<or> brings e k v"
proof (cases e)
  case (EvHeartbeat req)
  with assms show ?thesis
    by (cases "heartbeat_taken s req")
      (auto simp: Heartbeat_taken Heartbeat_not_taken decided_heartbeat_merge map_add_Some_iff
        split: if_splits)
next
  case (EvLearn req)
  with assms show ?thesis by (auto simp: decided_Learn split: if_splits)
qed (use assms in \<open>auto dest: decided_Forget\<close>)

lemma decided_server_run:
  "wf_server N s \<Longrightarrow> \<forall>e \<in> set es. wf_event N e \<Longrightarrow> decided (server_run E s es) k = Some v \<Longrightarrow>
   decided s k = Some v \<or> (\<exists>e \<in> set es. brings e k v)"
proof (induction es arbitrary: s)
  case (Cons e es)
  then have "decided (server_step E s e) k = Some v \<or> (\<exists>e \<in> set es. brings e k v)"
    using wf_server_step [of N s e E] by simp
  with Cons.prems decided_server_step [of N s e E k v] show ?case by auto
qed simp

section \<open>Properties\<close>

lemma wf_sample_server [simp]: "i \<in> {0, 1, 2} \<Longrightarrow> wf_server 3 (sample_server i)"
  by (auto simp: wf_server_def sample_server_def in_int32_def done_ok_def)

text \<open>
  C21: under every sequence of well-formed calls a server keeps the type invariant, and therefore
  each handler answers: no read of \<open>done\<close> is out of range, nobody waits for \<open>mu\<close>.  \<open>Elect\<close>
  always succeeds, \<open>Prepare\<close> and \<open>Accept\<close> refuse exactly the slots that have been forgotten,
  \<open>Heartbeat\<close> exactly the older views of others, and \<open>Learn\<close> fails besides only on a value
  without \<open>#\<close>.
\<close>
theorem handlers_answer:
  fixes E :: "'d env"
  assumes "wf_server N s" "\<forall>e \<in> set es. wf_event N e"
  defines "t \<equiv> server_run E s es"
  shows "wf_server N t \<and> is_Ok (fst (Elect t ereq)) \<and>
    (if pr_seq preq < lowest_slot t then Prepare E t preq = (Error INVALID_ARGUMENT, t)
     else is_Ok (fst (Prepare E t preq))) \<and>
    (if ar_seq areq < lowest_slot t then Accept E t areq = (Error INVALID_ARGUMENT, t)
     else is_Ok (fst (Accept E t areq))) \<and>
    (if dr_seq dreq < lowest_slot t then Learn E t dreq = (Error INVALID_ARGUMENT, t)
     else is_Ok (fst (Learn E t dreq)) \<or>
          fst (Learn E t dreq) = Raise Invalid_argument \<and> CHR ''#'' \<notin> set (dr_value dreq)) \<and>
    (if me t \<noteq> hb_id hreq \<and> hb_view hreq < view t then Heartbeat t hreq = (Error ABORTED, t)
     else is_Ok (fst (Heartbeat t hreq)))"
proof -
  have wf: "wf_server N t" unfolding t_def by (rule vw.run_inv [OF assms(1,2)])
  then have free: "\<not> mu_locked t" by (simp add: wf_server_def)
  have pr: "if pr_seq preq < lowest_slot t then Prepare E t preq = (Error INVALID_ARGUMENT, t)
     else is_Ok (fst (Prepare E t preq))"
  proof (cases "pr_seq preq < lowest_slot t")
    case True
    with free show ?thesis by (simp add: Prepare_def enter_slot_def)
  next
    case False
    with wf_server_can_enter [OF wf] show ?thesis by (simp add: Prepare_ok Let_def)
  qed
  have ac: "if ar_seq areq < lowest_slot t then Accept E t areq = (Error INVALID_ARGUMENT, t)
     else is_Ok (fst (Accept E t areq))"
  proof (cases "ar_seq areq < lowest_slot t")
    case True
    with free show ?thesis by (simp add: Accept_def Accept_mu_def enter_slot_def)
  next
    case False
    with wf_server_can_enter [OF wf] show ?thesis by (simp add: Accept_ok Let_def)
  qed
  have le: "if dr_seq dreq < lowest_slot t then Learn E t dreq = (Error INVALID_ARGUMENT, t)
     else is_Ok (fst (Learn E t dreq)) \<or>
          fst (Learn E t dreq) = Raise Invalid_argument \<and> CHR ''#'' \<notin> set (dr_value dreq)"
  proof (cases "dr_seq dreq < lowest_slot t")
    case True
    with free show ?thesis by (simp add: Learn_def Learn_mu_def enter_slot_def)
  next
    case False
    with wf_server_can_enter [OF wf] show ?thesis
      by (auto simp: Learn_ok Learn_slot_def Let_def getKeyValue_Inl_iff split: sum.split)
  qed
  have "is_Ok (fst (Elect t ereq))" using free by (simp add: Elect_def Let_def)
  moreover have "if me t \<noteq> hb_id hreq \<and> hb_view hreq < view t then Heartbeat t hreq = (Error ABORTED, t)
     else is_Ok (fst (Heartbeat t hreq))"
    using free by (simp add: Heartbeat_def Let_def)
  ultimately show ?thesis using wf pr ac le by blast
qed

definition sample_elect :: elect_request where "sample_elect = \<lparr>er_view = 4\<rparr>"

definition sample_prepare :: "int \<Rightarrow> int \<Rightarrow> prepare_request" where
  "sample_prepare q n = \<lparr>pr_seq = q, pr_proposal_number = n, pr_latest_done = - 1, pr_sender_id = 1\<rparr>"

definition sample_accept :: "int \<Rightarrow> string \<Rightarrow> accept_request" where
  "sample_accept q v = \<lparr>ar_seq = q, ar_view = 4, ar_value = v, ar_sender_id = 1, ar_latest_done = - 1\<rparr>"

definition sample_learn :: "int \<Rightarrow> string \<Rightarrow> decide_request" where
  "sample_learn q v = \<lparr>dr_seq = q, dr_value = v, dr_sender_id = 1, dr_latest_done = - 1\<rparr>"

definition sample_heartbeat :: "int \<Rightarrow> (int, proto_slot) smap \<Rightarrow> heartbeat_request" where
  "sample_heartbeat vw ps = \<lparr>hb_id = 1, hb_view = vw, hb_done = [- 1, - 1, - 1], hb_slots = ps\<rparr>"

lemma wf_sample_events [simp]:
  "in_int32 (er_view sample_elect)" "in_int64 (pr_proposal_number (sample_prepare q 7))"
  "in_int32 (ar_view (sample_accept q v))"
  "in_int32 (hb_view (sample_heartbeat 4 ps))" "hb_slots (sample_heartbeat vw ps) = ps"
  "hb_done (sample_heartbeat vw ps) = [- 1, - 1, - 1]" "done_ok (- 1)"
  by (simp_all add: sample_elect_def sample_prepare_def sample_accept_def sample_heartbeat_def
      in_int32_def in_int64_def done_ok_def)

lemma handlers_answer_witness:
  "let t = server_run mem_env (sample_server 0)
             [EvElect sample_elect, EvPrepare (sample_prepare 1 7), EvLearn (sample_learn 1 ''a#FREE'')]
   in wf_server 3 t"
  using handlers_answer [of 3 "sample_server 0"
      "[EvElect sample_elect, EvPrepare (sample_prepare 1 7), EvLearn (sample_learn 1 ''a#FREE'')]"
      mem_env]
  by simp

text \<open>
  C12: along every run of a server the view never goes back, and in every slot the server still
  serves no decision is lost or changed and no promise is withdrawn.
\<close>
theorem runs_only_grow:
  fixes E :: "'d env"
  assumes "wf_server N s" "\<forall>e \<in> set (es @ es'). wf_event N e"
  defines "t \<equiv> server_run E s es" and "u \<equiv> server_run E s (es @ es')"
  shows "view t \<le> view u \<and> lowest_slot t \<le> lowest_slot u \<and>
    (\<forall>k \<ge> lowest_slot u. promised t k \<le> promised u k \<and>
       (\<forall>v. decided t k = Some v \<longrightarrow> decided u k = Some v))"
  using vw.run_le_later [OF assms(1,2)] kp.run_le_later [OF assms(1,2)]
  by (simp add: t_def u_def kept_def)

lemma runs_only_grow_witness:
  "view (server_run mem_env (sample_server 0) [EvElect sample_elect])
     \<le> view (server_run mem_env (sample_server 0) [EvElect sample_elect, EvLearn (sample_learn 1 ''a#FREE'')])"
  using runs_only_grow [of 3 "sample_server 0" "[EvElect sample_elect]" "[EvLearn (sample_learn 1 ''a#FREE'')]" mem_env]
  by simp

text \<open>
  C18: a server grants a prepare number at most once per slot: once \<open>Prepare\<close> has answered \<open>OK\<close> to a
  number, every later request for that slot with a number that is not higher is rejected, as long
  as the slot is served.
\<close>
theorem prepare_granted_once:
  fixes E :: "'d env"
  assumes "wf_server N s" "wf_event N (EvPrepare req)" "\<forall>e \<in> set es. wf_event N e"
    and "fst (Prepare E s req) = Ok r" "pp_status r = ''OK''"
  defines "t \<equiv> server_run E s (EvPrepare req # es)"
  assumes "lowest_slot t \<le> pr_seq again" "pr_seq again = pr_seq req"
    and "pr_proposal_number again \<le> pr_proposal_number req"
  shows "\<exists>r'. fst (Prepare E t again) = Ok r' \<and> pp_status r' = ''Reject''"
proof -
  let ?s' = "snd (Prepare E s req)"
  have wf': "wf_server N ?s'" using wf_Prepare [OF assms(1)] .
  have t: "t = server_run E ?s' es" by (simp add: t_def)
  have wft: "wf_server N t" unfolding t by (rule vw.run_inv [OF wf' assms(3)])
  have enter: "can_enter s (pr_seq req)"
    using assms(4) Prepare_refused [of s req E] by fastforce
  have "kept ?s' t" unfolding t by (rule kp.run_le [OF wf' assms(3)])
  then have "promised ?s' (pr_seq req) \<le> promised t (pr_seq req)"
    using assms(7,8) by (simp add: kept_def)
  moreover have "pr_proposal_number req \<le> promised ?s' (pr_seq req)"
    using enter by (simp add: promised_Prepare)
  ultimately have "\<not> promised t (pr_seq again) < pr_proposal_number again"
    using assms(8,9) by simp
  moreover have "can_enter t (pr_seq again)" using wf_server_can_enter [OF wft] assms(7) by simp
  ultimately show ?thesis by (simp add: Prepare_ok Prepare_slot_def Let_def)
qed

lemma prepare_granted_once_witness:
  "\<exists>r'. fst (Prepare mem_env (server_run mem_env (sample_server 0) [EvPrepare (sample_prepare 1 7)])
       (sample_prepare 1 7)) = Ok r' \<and> pp_status r' = ''Reject''"
proof -
  have "\<exists>r. fst (Prepare mem_env (sample_server 0) (sample_prepare 1 7)) = Ok r \<and> pp_status r = ''OK''"
    by (simp add: Prepare_ok can_enter_def sample_prepare_def Prepare_slot_def Let_def)
  then obtain r where r: "fst (Prepare mem_env (sample_server 0) (sample_prepare 1 7)) = Ok r"
    "pp_status r = ''OK''" by blast
  have "lowest_slot (server_run mem_env (sample_server 0) [EvPrepare (sample_prepare 1 7)])
      \<le> pr_seq (sample_prepare 1 7)"
    by (simp add: sample_prepare_def)
  from prepare_granted_once [OF wf_sample_server _ _ r this] show ?thesis by simp
qed

text \<open>
  A server decides only what it has been told: every decision at the end of a run was there at
  its start or was brought by a \<open>Learn\<close> or a \<open>Heartbeat\<close> of the run; \<open>Prepare\<close>, \<open>Accept\<close>,
  \<open>Elect\<close> and \<open>Forget\<close> decide nothing.
\<close>
theorem decisions_were_brought:
  assumes "wf_server N s" "\<forall>e \<in> set es. wf_event N e" "decided (server_run E s es) k = Some v"
  shows "decided s k = Some v \<or>
    (\<exists>req. EvLearn req \<in> set es \<and> dr_seq req = k \<and> dr_value req = v) \<or>
    (\<exists>req. EvHeartbeat req \<in> set es \<and> proto_values (hb_slots req) k = Some v)"
proof -
  from decided_server_run [OF assms] show ?thesis
  proof
    assume "\<exists>e \<in> set es. brings e k v"
    then obtain e where e: "e \<in> set es" "brings e k v" by blast
    show ?thesis by (rule brings.elims(2) [OF e(2)]) (use e(1) in blast)+
  qed simp
qed

lemma decisions_were_brought_witness:
  "decided (sample_server 0) 1 = Some ''a#FREE'' \<or>
   (\<exists>req. EvLearn req \<in> {EvLearn (sample_learn 1 ''a#FREE'')} \<and> dr_seq req = 1 \<and> dr_value req = ''a#FREE'') \<or>
   (\<exists>req. EvHeartbeat req \<in> {EvLearn (sample_learn 1 ''a#FREE'')} \<and> proto_values (hb_slots req) 1 = Some ''a#FREE'')"
  using decisions_were_brought [of 3 "sample_server 0" "[EvLearn (sample_learn 1 ''a#FREE'')]" mem_env 1 "''a#FREE''"]
  by (simp add: decided_Learn sample_learn_def can_enter_def)

text \<open>
  \<open>Forget\<close> erases only what every server has reported done: the new \<open>lowest_slot\<close> is the old one
  or one past the smallest done index, whichever is higher, the slots below it are gone, and every
  other slot is as it was.
\<close>
theorem forget_keeps_undone_slots:
  assumes "wf_server N s" "done_ok peerDone" "0 \<le> peer" "peer < int (length (done_vec s))"
  defines "t \<equiv> snd (Forget s peer peerDone)"
  shows "fst (Forget s peer peerDone) = Ok () \<and>
    done_vec t = (done_vec s)[nat peer := max (done_vec s ! nat peer) peerDone] \<and>
    lowest_slot t = max (lowest_slot s) (Min (set (done_vec t)) + 1) \<and>
    (\<forall>k. get_slot t k = (if k < lowest_slot t then None else get_slot s k))"
proof -
  let ?ds = "forget_done s peer peerDone"
  have ds: "?ds = (done_vec s)[nat peer := max (done_vec s ! nat peer) peerDone]"
    by (simp add: forget_done_def max_def list_update_id)
  have ne: "set ?ds \<noteq> {}" using assms(3,4) by (auto simp: ds)
  then have "min_done (hd ?ds) ?ds \<in> set ?ds" using min_done_mem [of "hd ?ds" ?ds] by auto
  then have mn: "min_done (hd ?ds) ?ds = Min (set ?ds)"
    using min_done_le [of "hd ?ds" ?ds] by (intro Min_eqI [symmetric]) auto
  have f: "Forget s peer peerDone =
      (Ok (), s\<lparr>done_vec := ?ds, lowest_slot := forget_lowest s peer peerDone,
               slots := drop_below (forget_lowest s peer peerDone) (slots s)\<rparr>)"
    by (rule Forget_ok(1) [OF assms(1-4)])
  have low: "forget_lowest s peer peerDone = max (lowest_slot s) (Min (set ?ds) + 1)"
    by (simp only: forget_lowest_def Let_def mn)
  have "get_slot t k = (if k < lowest_slot t then None else get_slot s k)" for k
    by (simp add: t_def f get_slot_def drop_below_def map_of_filter_keys)
  then show ?thesis by (simp add: t_def f low ds [symmetric])
qed

lemma forget_keeps_undone_slots_witness:
  "lowest_slot (snd (Forget (sample_server 0) 1 5)) = max 0 (Min {- 1, 5 :: int} + 1)"
  using forget_keeps_undone_slots [of 3 "sample_server 0" 5 1]
  by (simp add: done_ok_def sample_server_def insert_commute wf_server_def in_int32_def)

end
