(* ===== verification/ProposerOrder.thy ===== *)
theory ProposerOrder
  imports Proposer ServerSteps
begin

text \<open>
  What a whole proposal, over any network, does to the servers of a cell: a relation between the
  states of a server that every handler and every local step of the proposer respects is
  respected by \<open>Start\<close>, \<open>StartOnForward\<close> and \<open>StartOnNewSlot\<close> on every server
  (locale \<open>server_relation\<close>), whatever the fate of each call and however the operation ends.
  Then the bound on the depth of the calls: \<open>Start\<close> never runs out of fuel.
\<close>

section \<open>Relations that proposals respect\<close>

definition cluster_rel ::
  "('d paxos_impl \<Rightarrow> 'd paxos_impl \<Rightarrow> bool) \<Rightarrow> 'd cluster \<Rightarrow> 'd cluster \<Rightarrow> bool" where
  "cluster_rel R c c' \<longleftrightarrow> (\<forall>b t. node c' b = Some t \<longrightarrow> (\<exists>s. node c b = Some s \<and> R s t))"

lemma cluster_relD: "cluster_rel R c c' \<Longrightarrow> node c' b = Some t \<Longrightarrow> \<exists>s. node c b = Some s \<and> R s t"
  by (simp add: cluster_rel_def)

lemma node_next_fate: "next_fate c = (f, c0) \<Longrightarrow> node c0 = node c"
  by (auto simp: next_fate_def fun_eq_iff split: list.splits)

lemma own_slot_Some:
  "own_slot c a seq = Some (s, sl) \<longleftrightarrow> node c a = Some s \<and> get_slot s seq = Some sl"
  by (auto simp: own_slot_def split: option.splits)

text \<open>The slot that a call is about.\<close>

primrec call_slot :: "call \<Rightarrow> int" where
  "call_slot (CallStart seq v) = seq"
| "call_slot (CallForward seq v) = seq"
| "call_slot (CallNewSlot seq v my_view) = seq"

text \<open>
  A relation between the states of one server before and after, which every step of a proposal for
  a slot of \<open>S\<close> respects.
\<close>

locale server_relation =
  fixes E :: "'d env"
    and S :: "int set"
    and R :: "'d paxos_impl \<Rightarrow> 'd paxos_impl \<Rightarrow> bool"
  assumes R_refl: "R s s"
    and R_trans: "R s t \<Longrightarrow> R t u \<Longrightarrow> R s u"
    and R_Prepare: "pr_seq preq \<in> S \<Longrightarrow> R s (snd (Prepare E s preq))"
    and R_Accept: "ar_seq areq \<in> S \<Longrightarrow> R s (snd (Accept E s areq))"
    and R_Learn: "dr_seq dreq \<in> S \<Longrightarrow> R s (snd (Learn E s dreq))"
    and R_addSlots: "q \<in> S \<Longrightarrow> R s (snd (addSlots s q))"
    and R_lock: "R s (s\<lparr>mu_locked := b\<rparr>)"
    and R_slot_n: "q \<in> S \<Longrightarrow> get_slot s q = Some sl \<Longrightarrow> R s (set_slot q (sl\<lparr>slot_n := i\<rparr>) s)"
    and R_highest_N: "q \<in> S \<Longrightarrow> get_slot s q = Some sl \<Longrightarrow> R s (set_slot q (sl\<lparr>slot_highest_N := i\<rparr>) s)"
    and R_same_slot: "q \<in> S \<Longrightarrow> get_slot s q = Some sl \<Longrightarrow> R s (set_slot q sl s)"
    and R_view: "view s < vw \<Longrightarrow>
      R s (s\<lparr>view := vw, leader_dead := False, missed_heartbeats := 0\<rparr>)"
begin

lemma C_refl: "cluster_rel R c c"
  by (simp add: cluster_rel_def R_refl)

lemma C_trans: "cluster_rel R c c1 \<Longrightarrow> cluster_rel R c1 c2 \<Longrightarrow> cluster_rel R c c2"
  unfolding cluster_rel_def by (meson R_trans)

lemma C_put: "node c a = Some s \<Longrightarrow> R s t \<Longrightarrow> cluster_rel R c (put_node a t c)"
  by (simp add: cluster_rel_def R_refl)

lemma C_kill: "cluster_rel R c c' \<Longrightarrow> cluster_rel R c (kill_node a c')"
  by (simp add: cluster_rel_def)

lemma C_rpc:
  assumes call: "rpc a handler c = (r, c')" and h: "\<And>s. R s (snd (handler s))"
  shows "cluster_rel R c c'"
proof -
  have "\<exists>s. node c b = Some s \<and> R s t" if t: "node c' b = Some t" for b t
  proof -
    from t rpc_dom [OF call, of b] obtain s where s: "node c b = Some s" by auto
    from rpc_preserves [OF call, where P = R, OF R_refl h s] t s show ?thesis by auto
  qed
  then show ?thesis by (simp add: cluster_rel_def)
qed

lemma C_upd_slot:
  assumes "\<And>s sl. get_slot s seq = Some sl \<Longrightarrow> R s (set_slot seq (f sl) s)"
  shows "cluster_rel R c (upd_slot a seq f c)"
  using assms by (auto simp: upd_slot_def own_slot_Some C_refl intro: C_put split: option.split)

lemma C_note_highest_N:
  assumes q: "seq \<in> S"
  shows "cluster_rel R c (note_highest_N a seq p r c)"
proof -
  have "cluster_rel R c
      (upd_slot a seq (\<lambda>sl. if slot_highest_N sl < i then sl\<lparr>slot_highest_N := i\<rparr> else sl) c)" for i
    by (rule C_upd_slot) (simp add: q R_highest_N R_same_slot)
  then show ?thesis by (simp add: note_highest_N_def C_refl)
qed

lemma C_unlock: "cluster_rel R c (unlock_mu a c)"
  by (auto simp: unlock_mu_def C_refl intro: C_put R_lock split: option.split)

lemma C_prepare_loop:
  assumes q: "seq \<in> S"
  shows "case prepare_loop E a seq nsrv bs p c of
     Inl out \<Rightarrow> pred_outcome (cluster_rel R c) out
   | Inr (p', c') \<Rightarrow> cluster_rel R c c'"
proof (induction bs arbitrary: p c)
  case Nil
  show ?case by (simp add: C_refl)
next
  case (Cons b bs)
  show ?case
  proof (cases "own_slot c a seq")
    case None
    then show ?thesis by (simp add: C_refl)
  next
    case (Some ssl)
    then obtain s sl where own: "own_slot c a seq = Some (s, sl)" by (cases ssl) auto
    show ?thesis
    proof (cases "vec_get (done_vec s) (me s)")
      case None
      with own show ?thesis by (simp add: C_refl)
    next
      case (Some d)
      obtain r c1 where call: "rpc b (\<lambda>t. Prepare E t \<lparr>pr_seq = seq, pr_proposal_number = slot_n sl,
          pr_latest_done = d, pr_sender_id = me s\<rparr>) c = (r, c1)" by fastforce
      have c1: "cluster_rel R c c1" by (rule C_rpc [OF call R_Prepare]) (simp add: q)
      have c2: "cluster_rel R c (note_highest_N a seq p x c1)" for x
        by (rule C_trans [OF c1 C_note_highest_N [OF q]])
      have step: "case prepare_loop E a seq nsrv bs p' c' of
            Inl out \<Rightarrow> pred_outcome (cluster_rel R c) out
          | Inr (p'', c'') \<Rightarrow> cluster_rel R c c''" if "cluster_rel R c c'" for p' c'
        using Cons.IH [where c = c' and p = p'] that
        by (auto split: sum.splits prod.splits intro: C_trans outcome.pred_mono_strong)
      show ?thesis
        using c1 c2 step own Some call
        by (cases r) (auto simp: Let_def split: prod.split)
    qed
  qed
qed

lemma C_accept_loop:
  assumes q: "seq \<in> S"
  shows "case accept_loop E a seq vw va bs st c of
     Inl out \<Rightarrow> pred_outcome (cluster_rel R c) out
   | Inr (st', c') \<Rightarrow> cluster_rel R c c'"
proof (induction bs arbitrary: st c)
  case Nil
  show ?case by (simp add: C_refl)
next
  case (Cons b bs)
  show ?case
  proof (cases "node c a")
    case None
    then show ?thesis by (simp add: C_refl)
  next
    case s: (Some s)
    show ?thesis
    proof (cases "vec_get (done_vec s) (me s)")
      case None
      with s show ?thesis by (simp add: C_kill C_refl)
    next
      case (Some d)
      obtain r c1 where call: "rpc b (\<lambda>t. Accept E t \<lparr>ar_seq = seq, ar_view = vw, ar_value = va,
          ar_sender_id = me s, ar_latest_done = d\<rparr>) c = (r, c1)" by fastforce
      have c1: "cluster_rel R c c1" by (rule C_rpc [OF call R_Accept]) (simp add: q)
      have step: "case accept_loop E a seq vw va bs st' c1 of
            Inl out \<Rightarrow> pred_outcome (cluster_rel R c) out
          | Inr (p'', c'') \<Rightarrow> cluster_rel R c c''" for st'
        using Cons.IH [where c = c1 and st = st'] c1
        by (auto split: sum.splits prod.splits intro: C_trans outcome.pred_mono_strong)
      show ?thesis
        using step s Some call by (cases r) (auto split: prod.split)
    qed
  qed
qed

lemma C_learn_loop:
  assumes q: "seq \<in> S"
  shows "pred_outcome (cluster_rel R c) (learn_loop E a seq va bs c)"
proof (induction bs arbitrary: c)
  case Nil
  show ?case by (simp add: C_refl)
next
  case (Cons b bs)
  show ?case
  proof (cases "node c a")
    case None
    then show ?thesis by (simp add: C_refl)
  next
    case s: (Some s)
    show ?thesis
    proof (cases "vec_get (done_vec s) (me s)")
      case None
      with s show ?thesis by (simp add: C_kill C_refl)
    next
      case (Some d)
      obtain r c1 where call: "rpc b (\<lambda>t. Learn E t \<lparr>dr_seq = seq, dr_value = va,
          dr_sender_id = me s, dr_latest_done = d\<rparr>) c = (r, c1)" by fastforce
      have c1: "cluster_rel R c c1" by (rule C_rpc [OF call R_Learn]) (simp add: q)
      have "pred_outcome (cluster_rel R c) (learn_loop E a seq va bs c1)"
        using Cons.IH [of c1] c1 by (auto intro: C_trans outcome.pred_mono_strong)
      then show ?thesis
        using s Some call by (cases r) (auto split: prod.split)
    qed
  qed
qed

text \<open>The bodies, given that the calls they make respect the relation.\<close>

definition obeys :: "('d cluster \<Rightarrow> string \<Rightarrow> call \<Rightarrow> 'd cluster outcome) \<Rightarrow> bool" where
  "obeys rec \<longleftrightarrow> (\<forall>c a k. call_slot k \<in> S \<longrightarrow> pred_outcome (cluster_rel R c) (rec c a k))"

lemma obeys_from:
  "obeys rec \<Longrightarrow> cluster_rel R c c' \<Longrightarrow> call_slot k \<in> S \<Longrightarrow>
   pred_outcome (cluster_rel R c) (rec c' a k)"
  unfolding obeys_def by (meson C_trans outcome.pred_mono_strong)

lemma C_step_down:
  assumes rec: "obeys rec" and q: "seq \<in> S"
  shows "pred_outcome (cluster_rel R c) (step_down rec c a seq v na)"
proof (cases "node c a")
  case None
  then show ?thesis by (simp add: step_down_def C_refl)
next
  case (Some s)
  have "pred_outcome (cluster_rel R c) (rec (put_node a (s\<lparr>view := na, leader_dead := False,
      missed_heartbeats := 0\<rparr>) c) a (CallForward seq v))" if "view s < na"
    by (rule obeys_from [OF rec C_put [OF Some R_view [OF that]]]) (simp add: q)
  then show ?thesis
    using Some q obeys_from [OF rec C_refl, of "CallForward seq v" c a]
    by (auto simp: step_down_def split: outcome.split)
qed

lemma C_accept_phase:
  assumes rec: "obeys rec" and q: "seq \<in> S"
  shows "pred_outcome (cluster_rel R c) (accept_phase E rec c a seq v vw p)"
proof -
  let ?va = "if p_highest_va p = [] then v else p_highest_va p"
  let ?loop = "accept_loop E a seq vw ?va (run_order E (stub_addresses c a)) acc_init c"
  have later: "pred_outcome (cluster_rel R c) (step_down rec c1 a seq v na)"
    "pred_outcome (cluster_rel R c) (learn_phase E c1 a seq va)" if "cluster_rel R c c1" for c1 na va
    using that C_step_down [OF rec q, where c = c1 and a = a and v = v and na = na] C_learn_loop [OF q, where c = c1 and a = a and va = va]
    by (auto simp: learn_phase_def intro: C_trans outcome.pred_mono_strong)
  show ?thesis
    using C_accept_loop [OF q, where c = c and a = a and vw = vw and va = ?va
        and bs = "run_order E (stub_addresses c a)" and st = acc_init] later C_refl
    by (cases ?loop) (auto simp: accept_phase_def Let_def split: prod.splits)
qed

lemma C_StartOnNewSlot:
  assumes rec: "obeys rec" and q: "seq \<in> S"
  shows "pred_outcome (cluster_rel R c) (StartOnNewSlot_body E rec c a seq v vw)"
proof (cases "own_slot c a seq")
  case None
  then show ?thesis by (simp add: StartOnNewSlot_body_def C_refl)
next
  case (Some ssl)
  then obtain s sl where own: "own_slot c a seq = Some (s, sl)" by (cases ssl) auto
  have c0: "cluster_rel R c (upd_slot a seq (\<lambda>sl. sl\<lparr>slot_n := n'\<rparr>) c)" for n'
    by (rule C_upd_slot) (rule R_slot_n [OF q])
  have later: "pred_outcome (cluster_rel R c) (step_down rec c1 a seq v na)"
    "pred_outcome (cluster_rel R c) (accept_phase E rec c1 a seq v vw p)" if "cluster_rel R c c1"
    for c1 na p
    using that C_step_down [OF rec q, where c = c1 and a = a and v = v and na = na] C_accept_phase [OF rec q, where c = c1 and a = a and v = v and vw = vw and p = p]
    by (auto intro: C_trans outcome.pred_mono_strong)
  have prep: "case prepare_loop E a seq nsrv bs p (upd_slot a seq (\<lambda>sl. sl\<lparr>slot_n := n'\<rparr>) c) of
     Inl out \<Rightarrow> pred_outcome (cluster_rel R c) out
   | Inr (p', c') \<Rightarrow> cluster_rel R c c'" for nsrv bs p n'
    using C_prepare_loop [OF q, where c = "upd_slot a seq (\<lambda>sl. sl\<lparr>slot_n := n'\<rparr>) c" and a = a
        and nsrv = nsrv and bs = bs and p = p] c0 [of n']
    by (auto split: sum.splits prod.splits intro: C_trans outcome.pred_mono_strong)
  show ?thesis
    using own later C_refl [of c] prep [where nsrv = "length (stub_addresses c a)" and bs = "stub_addresses c a"
        and p = "prep_init v"]
    by (auto simp: StartOnNewSlot_body_def split: option.split sum.split prod.split)
       (fastforce split: sum.splits prod.splits)+
qed

lemma C_ForwardLeader:
  assumes rec: "obeys rec" and q: "seq \<in> S"
  shows "case ForwardLeader rec l seq v c of
     Inl out \<Rightarrow> pred_outcome (cluster_rel R c) out
   | Inr (b, c') \<Rightarrow> cluster_rel R c c'"
proof -
  obtain fate c0 where f: "next_fate c = (fate, c0)" by fastforce
  have c0: "cluster_rel R c c0" using node_next_fate [OF f] by (simp add: cluster_rel_def R_refl)
  show ?thesis
    using c0 q obeys_from [OF rec c0, of "CallStart seq v" l]
    by (auto simp: ForwardLeader_def f split: outcome.split)
qed

lemma C_StartOnForward:
  assumes rec: "obeys rec" and q: "seq \<in> S"
  shows "pred_outcome (cluster_rel R c) (StartOnForward_body rec c a seq v)"
proof (cases "node c a")
  case None
  then show ?thesis by (simp add: StartOnForward_body_def C_refl)
next
  case (Some s)
  obtain sl s1 where add: "addSlots (s\<lparr>mu_locked := True\<rparr>) seq = (sl, s1)" by fastforce
  have "R s s1"
    using R_trans [OF R_lock [of s True] R_addSlots [OF q, of "s\<lparr>mu_locked := True\<rparr>"]] add by simp
  then have c1: "cluster_rel R c (put_node a s1 c)" by (rule C_put [OF Some])
  have unl: "cluster_rel R c (unlock_mu a c2)" if "cluster_rel R c c2" for c2
    using that by (rule C_trans [OF _ C_unlock])
  have fw: "case ForwardLeader rec l seq v (put_node a s1 c) of
     Inl out \<Rightarrow> pred_outcome (cluster_rel R c) out
   | Inr (b, c') \<Rightarrow> cluster_rel R c c'" for l
    using C_ForwardLeader [OF rec q, where c = "put_node a s1 c" and l = l and v = v] c1
    by (auto split: sum.splits prod.splits intro: C_trans outcome.pred_mono_strong)
  show ?thesis
    using Some add c1 unl q fw [of "leader_address s"] C_kill [OF c1]
      obeys_from [OF rec c1, of "CallNewSlot seq v (view s)" a]
    by (auto simp: StartOnForward_body_def Let_def split: outcome.split sum.splits prod.split)
qed

lemma C_joined: "pred_outcome (cluster_rel R c) out \<Longrightarrow> pred_outcome (cluster_rel R c) (joined a out)"
  by (auto simp: joined_def C_kill split: outcome.split)

lemma C_Start:
  assumes rec: "obeys rec" and q: "seq \<in> S"
  shows "pred_outcome (cluster_rel R c) (Start_body rec c a seq v)"
proof (cases "node c a")
  case None
  then show ?thesis by (simp add: Start_body_def C_refl)
next
  case (Some s)
  have c1: "cluster_rel R c (put_node a (snd (addSlots s seq)) c)"
    by (rule C_put [OF Some R_addSlots [OF q]])
  show ?thesis
    using Some c1 C_refl q obeys_from [OF rec c1]
    by (auto simp: Start_body_def Let_def intro: C_joined split: prod.split)
qed

lemma C_exec: "call_slot k \<in> S \<Longrightarrow> pred_outcome (cluster_rel R c) (exec f E c a k)"
proof (induction f arbitrary: c a k)
  case 0
  show ?case by simp
next
  case (Suc f)
  then have "obeys (exec f E)" by (simp add: obeys_def)
  with Suc.prems show ?case
    by (cases k) (simp_all add: C_Start C_StartOnForward C_StartOnNewSlot)
qed

text \<open>What \<open>Start\<close> leaves behind, whether it returns or its process dies.\<close>

lemma C_left:
  assumes "Start E c a seq v = Done c' \<or> Start E c a seq v = Died c'" "seq \<in> S"
  shows "cluster_rel R c c'"
  using C_exec [of "CallStart seq v" c "call_depth c" a] assms by (auto simp: Start_def)

lemmas C_done = C_left [OF disjI1]

end

section \<open>What no proposal undoes\<close>

text \<open>
  \<open>advanced s t\<close>: \<open>t\<close> has every decision of \<open>s\<close>, and its promises, its view and its highest
  accepted slot are not below those of \<open>s\<close>.
\<close>

definition advanced :: "'d paxos_impl \<Rightarrow> 'd paxos_impl \<Rightarrow> bool" where
  "advanced s t \<longleftrightarrow>
     decided s \<subseteq>\<^sub>m decided t \<and> (\<forall>k. promised s k \<le> promised t k) \<and> view s \<le> view t \<and>
     highest_accepted_seq s \<le> highest_accepted_seq t"

text \<open>\<open>same_config s t\<close>: the fields that only the constructor, \<open>Forget\<close> and \<open>Heartbeat\<close> write.\<close>

definition same_config :: "'d paxos_impl \<Rightarrow> 'd paxos_impl \<Rightarrow> bool" where
  "same_config s t \<longleftrightarrow>
     me t = me s \<and> group_size t = group_size s \<and> num_servers t = num_servers s \<and>
     paxos_stubs_map t = paxos_stubs_map s \<and> first_port t = first_port s \<and>
     server_address t = server_address s \<and> done_vec t = done_vec s \<and>
     lowest_slot t = lowest_slot s \<and> is_dead t = is_dead s"

lemma first_port_sections [simp]:
  "first_port (adopt_view vw s) = first_port s" "first_port (Accept_seq q s) = first_port s"
  "first_port (raise_highest q s) = first_port s"
  by (simp_all add: adopt_view_def Accept_seq_def raise_highest_def)

lemma same_config_refl: "same_config s s"
  by (simp add: same_config_def)

lemma same_config_Prepare: "same_config s (snd (Prepare E s req))"
  by (cases "can_enter s (pr_seq req)")
    (simp_all add: Prepare_ok Prepare_refused Let_def same_config_def)

lemma same_config_Accept: "same_config s (snd (Accept E s req))"
  by (cases "can_enter s (ar_seq req)")
    (simp_all add: Accept_ok Accept_refused Let_def same_config_def)

lemma same_config_Learn: "same_config s (snd (Learn E s req))"
  by (cases "can_enter s (dr_seq req)")
    (simp_all add: Learn_ok Learn_refused Let_def same_config_def)

lemma view_handlers:
  "view (snd (Prepare E s preq)) = view s"
  "view (snd (Learn E s dreq)) = view s"
  "view s \<le> view (snd (Accept E s areq))"
  by (cases "can_enter s (pr_seq preq)", simp_all add: Prepare_ok Prepare_refused Let_def,
      cases "can_enter s (dr_seq dreq)", simp_all add: Learn_ok Learn_refused Let_def,
      cases "can_enter s (ar_seq areq)", simp_all add: Accept_ok Accept_refused Let_def)

lemma highest_accepted_handlers:
  "highest_accepted_seq (snd (Prepare E s preq)) = highest_accepted_seq s"
  "highest_accepted_seq (snd (Learn E s dreq)) = highest_accepted_seq s"
  "highest_accepted_seq s \<le> highest_accepted_seq (snd (Accept E s areq))"
  by (cases "can_enter s (pr_seq preq)", simp_all add: Prepare_ok Prepare_refused Let_def,
      cases "can_enter s (dr_seq dreq)", simp_all add: Learn_ok Learn_refused Let_def,
      cases "can_enter s (ar_seq areq)", simp_all add: Accept_ok Accept_refused Let_def)

lemma advancedI:
  "(\<And>k v. decided s k = Some v \<Longrightarrow> decided t k = Some v) \<Longrightarrow> (\<And>k. promised s k \<le> promised t k) \<Longrightarrow>
   view s \<le> view t \<Longrightarrow> highest_accepted_seq s \<le> highest_accepted_seq t \<Longrightarrow> advanced s t"
  by (auto simp: advanced_def map_le_def)

lemma advanced_trans: "advanced s t \<Longrightarrow> advanced t u \<Longrightarrow> advanced s u"
  unfolding advanced_def by (meson map_le_trans order_trans)

lemma advanced_set_slot:
  assumes "get_slot s q = Some sl" "slot_status sl' = slot_status sl" "slot_value sl' = slot_value sl"
    "slot_n_p sl' = slot_n_p sl"
  shows "advanced s (set_slot q sl' s)"
  using assms by (intro advancedI) (auto simp: decided_def promised_def split: if_splits)

lemma advanced_same_slots:
  "slots t = slots s \<Longrightarrow> view s \<le> view t \<Longrightarrow> highest_accepted_seq s \<le> highest_accepted_seq t \<Longrightarrow>
   advanced s t"
  using decided_cong [of t s] promised_cong [of t s] by (intro advancedI) auto

interpretation adv: server_relation E UNIV advanced for E :: "'d env"
proof unfold_locales
  fix s t u :: "'d paxos_impl" and b q sl i vw
  fix preq :: prepare_request and areq :: accept_request and dreq :: decide_request
  show "advanced s s" by (simp add: advanced_same_slots)
  show "advanced s t \<Longrightarrow> advanced t u \<Longrightarrow> advanced s u" by (rule advanced_trans)
  show "advanced s (snd (Prepare E s preq))"
    by (intro advancedI) (simp_all add: promised_Prepare view_handlers highest_accepted_handlers)
  show "advanced s (snd (Accept E s areq))"
    by (intro advancedI) (simp_all add: view_handlers highest_accepted_handlers)
  show "advanced s (snd (Learn E s dreq))"
    by (intro advancedI) (auto simp: decided_Learn view_handlers highest_accepted_handlers)
  show "advanced s (snd (addSlots s q))" by (intro advancedI) simp_all
  show "advanced s (s\<lparr>mu_locked := b\<rparr>)" by (simp add: advanced_same_slots)
  show "get_slot s q = Some sl \<Longrightarrow> advanced s (set_slot q (sl\<lparr>slot_n := i\<rparr>) s)"
    by (rule advanced_set_slot) simp_all
  show "get_slot s q = Some sl \<Longrightarrow> advanced s (set_slot q (sl\<lparr>slot_highest_N := i\<rparr>) s)"
    by (rule advanced_set_slot) simp_all
  show "get_slot s q = Some sl \<Longrightarrow> advanced s (set_slot q sl s)"
    by (rule advanced_set_slot) simp_all
  show "view s < vw \<Longrightarrow> advanced s (s\<lparr>view := vw, leader_dead := False, missed_heartbeats := 0\<rparr>)"
    by (simp add: advanced_same_slots)
qed

interpretation cfg: server_relation E UNIV same_config for E :: "'d env"
proof unfold_locales
  fix s t u :: "'d paxos_impl"
  show "same_config s t \<Longrightarrow> same_config t u \<Longrightarrow> same_config s u" by (simp add: same_config_def)
qed (rule same_config_Prepare same_config_Accept same_config_Learn same_config_refl |
      simp add: same_config_def)+

text \<open>
  \<open>calmed s t\<close>: \<open>t\<close> does not take its leader for dead unless \<open>s\<close> did, and the window after a
  failure is as it was.
\<close>

definition calmed :: "'d paxos_impl \<Rightarrow> 'd paxos_impl \<Rightarrow> bool" where
  "calmed s t \<longleftrightarrow>
     (leader_dead t \<longrightarrow> leader_dead s) \<and> leader_election_happened t = leader_election_happened s"

lemma election_window_sections [simp]:
  "leader_election_happened (adopt_view vw s) = leader_election_happened s"
  "leader_election_happened (Accept_seq q s) = leader_election_happened s"
  "leader_election_happened (raise_highest q s) = leader_election_happened s"
  by (simp_all add: adopt_view_def Accept_seq_def raise_highest_def)

lemma calmed_handlers:
  "calmed s (snd (Prepare E s preq))" "calmed s (snd (Accept E s areq))" "calmed s (snd (Learn E s dreq))"
proof -
  show "calmed s (snd (Prepare E s preq))"
    by (cases "can_enter s (pr_seq preq)") (simp_all add: Prepare_ok Prepare_refused Let_def calmed_def)
  show "calmed s (snd (Accept E s areq))"
    by (cases "can_enter s (ar_seq areq)")
      (simp_all add: Accept_ok Accept_refused Let_def calmed_def adopt_view_def)
  show "calmed s (snd (Learn E s dreq))"
    by (cases "can_enter s (dr_seq dreq)") (simp_all add: Learn_ok Learn_refused Let_def calmed_def)
qed

interpretation calm: server_relation E UNIV calmed for E :: "'d env"
proof unfold_locales
  fix s t u :: "'d paxos_impl"
  show "calmed s t \<Longrightarrow> calmed t u \<Longrightarrow> calmed s u" by (simp add: calmed_def)
qed (rule calmed_handlers | simp add: calmed_def)+

text \<open>
  \<open>only_slot q s t\<close>: \<open>t\<close> has all slots of \<open>s\<close> but the slot \<open>q\<close> as they were, and has accepted
  nothing above what \<open>s\<close> had accepted and \<open>q\<close>.
\<close>

definition only_slot :: "int \<Rightarrow> 'd paxos_impl \<Rightarrow> 'd paxos_impl \<Rightarrow> bool" where
  "only_slot q s t \<longleftrightarrow>
     (\<forall>k. k \<noteq> q \<longrightarrow> get_slot t k = get_slot s k) \<and>
     highest_accepted_seq t \<le> max (highest_accepted_seq s) q"

lemma get_slot_sections [simp]:
  "get_slot (adopt_view vw s) = get_slot s" "get_slot (Accept_seq q s) = get_slot s"
  "get_slot (raise_highest q s) = get_slot s" "get_slot (s\<lparr>paxos_db := w\<rparr>) = get_slot s"
  "get_slot (s\<lparr>mu_locked := b\<rparr>) = get_slot s"
  "get_slot (s\<lparr>view := vw, leader_dead := l, missed_heartbeats := i\<rparr>) = get_slot s"
  by (simp_all add: get_slot_def fun_eq_iff)

lemma only_slot_handlers:
  "only_slot (pr_seq preq) s (snd (Prepare E s preq))"
  "only_slot (ar_seq areq) s (snd (Accept E s areq))"
  "only_slot (dr_seq dreq) s (snd (Learn E s dreq))"
proof -
  show "only_slot (pr_seq preq) s (snd (Prepare E s preq))"
    by (cases "can_enter s (pr_seq preq)") (simp_all add: Prepare_ok Prepare_refused Let_def only_slot_def)
  show "only_slot (ar_seq areq) s (snd (Accept E s areq))"
    by (cases "can_enter s (ar_seq areq)") (simp_all add: Accept_ok Accept_refused Let_def only_slot_def)
  show "only_slot (dr_seq dreq) s (snd (Learn E s dreq))"
    by (cases "can_enter s (dr_seq dreq)") (simp_all add: Learn_ok Learn_refused Let_def only_slot_def)
qed

interpretation slt: server_relation E "{q}" "only_slot q" for E :: "'d env" and q
proof unfold_locales
  fix s t u :: "'d paxos_impl"
  show "only_slot q s t \<Longrightarrow> only_slot q t u \<Longrightarrow> only_slot q s u" by (auto simp: only_slot_def)
  show "pr_seq preq \<in> {q} \<Longrightarrow> only_slot q s (snd (Prepare E s preq))" for preq
    using only_slot_handlers(1) [of preq s E] by simp
  show "ar_seq areq \<in> {q} \<Longrightarrow> only_slot q s (snd (Accept E s areq))" for areq
    using only_slot_handlers(2) [of areq s E] by simp
  show "dr_seq dreq \<in> {q} \<Longrightarrow> only_slot q s (snd (Learn E s dreq))" for dreq
    using only_slot_handlers(3) [of dreq s E] by simp
qed (simp_all add: only_slot_def)

section \<open>The depth of the calls\<close>

text \<open>The servers whose mutex is free: each \<open>StartOnForward\<close> takes one away.\<close>

definition free_nodes :: "'d cluster \<Rightarrow> string set" where
  "free_nodes c = {b. \<exists>s. node c b = Some s \<and> \<not> mu_locked s}"

definition lock_state :: "'d cluster \<Rightarrow> string \<Rightarrow> bool option" where
  "lock_state c b = map_option mu_locked (node c b)"

lemma finite_free_nodes [simp]: "finite (free_nodes c)"
  by (rule finite_subset [OF _ finite_dom_map_of [of "nodes c"]])
    (auto simp: free_nodes_def node_def)

lemma card_free_nodes: "card (free_nodes c) \<le> length (nodes c)"
proof -
  have "free_nodes c \<subseteq> set (map fst (nodes c))"
    by (auto simp: free_nodes_def node_def dest!: map_of_SomeD intro: rev_image_eqI)
  then have "card (free_nodes c) \<le> card (set (map fst (nodes c)))" by (intro card_mono) auto
  also have "\<dots> \<le> length (nodes c)" using card_length [of "map fst (nodes c)"] by simp
  finally show ?thesis .
qed

lemma free_nodes_lock_state:
  fixes c c' :: "'d cluster"
  assumes eq: "lock_state c = lock_state c'"
  shows "free_nodes c = free_nodes c'"
proof -
  have "free_nodes d = {b. lock_state d b = Some False}" for d :: "'d cluster"
    by (auto simp: free_nodes_def lock_state_def)
  with eq show ?thesis by simp
qed

lemma lock_state_put:
  "node c a = Some s \<Longrightarrow> mu_locked t = mu_locked s \<Longrightarrow> lock_state (put_node a t c) = lock_state c"
  by (auto simp: lock_state_def fun_eq_iff)

lemma mu_handlers [simp]:
  "mu_locked (snd (Prepare E s preq)) = mu_locked s"
  "mu_locked (snd (Learn E s dreq)) = mu_locked s"
  "mu_locked (snd (Accept E s areq)) = mu_locked s"
  by (cases "can_enter s (pr_seq preq)", simp_all add: Prepare_ok Prepare_refused Let_def,
      cases "can_enter s (dr_seq dreq)", simp_all add: Learn_ok Learn_refused Let_def,
      cases "can_enter s (ar_seq areq)", simp_all add: Accept_ok Accept_refused Let_def)

lemma lock_state_rpc:
  assumes call: "rpc a handler c = (r, c')" and h: "\<And>s. mu_locked (snd (handler s)) = mu_locked s"
  shows "lock_state c' = lock_state c"
proof
  fix b
  show "lock_state c' b = lock_state c b"
  proof (cases "node c b")
    case None
    with rpc_dom [OF call, of b] show ?thesis by (simp add: lock_state_def)
  next
    case (Some s)
    from rpc_preserves [OF call, where P = "\<lambda>s t. mu_locked t = mu_locked s", OF _ h Some]
    show ?thesis using Some by (auto simp: lock_state_def)
  qed
qed

lemma lock_state_upd_slot [simp]: "lock_state (upd_slot a seq f c) = lock_state c"
  by (auto simp: upd_slot_def own_slot_Some intro: lock_state_put split: option.split)

lemma lock_state_note [simp]: "lock_state (note_highest_N a seq p r c) = lock_state c"
  by (simp add: note_highest_N_def)

lemma lock_state_prepare_loop:
  "prepare_loop E a seq nsrv bs p c = Inr (p', c') \<Longrightarrow> lock_state c' = lock_state c"
proof (induction bs arbitrary: p c)
  case Nil
  then show ?case by simp
next
  case (Cons b bs)
  show ?case
  proof (cases "own_slot c a seq")
    case None
    with Cons.prems show ?thesis by simp
  next
    case (Some ssl)
    then obtain s sl where own: "own_slot c a seq = Some (s, sl)" by (cases ssl) auto
    with Cons.prems obtain d where d: "vec_get (done_vec s) (me s) = Some d"
      by (auto split: option.splits)
    obtain r c1 where call: "rpc b (\<lambda>t. Prepare E t \<lparr>pr_seq = seq, pr_proposal_number = slot_n sl,
        pr_latest_done = d, pr_sender_id = me s\<rparr>) c = (r, c1)" by fastforce
    have c1: "lock_state c1 = lock_state c" by (rule lock_state_rpc [OF call]) simp
    show ?thesis
      using Cons.prems Cons.IH c1 own d call
      by (cases r) (auto simp: Let_def split: prod.splits if_splits)
  qed
qed

lemma lock_state_accept_loop:
  "accept_loop E a seq vw va bs st c = Inr (st', c') \<Longrightarrow> lock_state c' = lock_state c"
proof (induction bs arbitrary: st c)
  case Nil
  then show ?case by simp
next
  case (Cons b bs)
  show ?case
  proof (cases "node c a")
    case None
    with Cons.prems show ?thesis by simp
  next
    case (Some s)
    with Cons.prems obtain d where d: "vec_get (done_vec s) (me s) = Some d"
      by (auto split: option.splits)
    obtain r c1 where call: "rpc b (\<lambda>t. Accept E t \<lparr>ar_seq = seq, ar_view = vw, ar_value = va,
          ar_sender_id = me s, ar_latest_done = d\<rparr>) c = (r, c1)" by fastforce
    have c1: "lock_state c1 = lock_state c" by (rule lock_state_rpc [OF call]) simp
    show ?thesis
      using Cons.prems Cons.IH c1 Some d call by (cases r) auto
  qed
qed

lemma learn_loop_fuel: "learn_loop E a seq va bs c \<noteq> Out_of_fuel"
proof (induction bs arbitrary: c)
  case (Cons b bs)
  show ?case
  proof (cases "node c a")
    case (Some s)
    show ?thesis
    proof (cases "vec_get (done_vec s) (me s)")
      case (Some d)
      then show ?thesis
        using \<open>node c a = Some s\<close> Cons.IH by (auto split: prod.split result.split)
    qed (use Some in simp)
  qed simp
qed simp

lemma prepare_loop_fuel: "prepare_loop E a seq nsrv bs p c \<noteq> Inl Out_of_fuel"
proof (induction bs arbitrary: p c)
  case (Cons b bs)
  show ?case
    using Cons.IH by (auto simp: Let_def split: option.split prod.split result.split)
qed simp

lemma accept_loop_fuel: "accept_loop E a seq vw va bs st c \<noteq> Inl Out_of_fuel"
proof (induction bs arbitrary: st c)
  case (Cons b bs)
  show ?case
    using Cons.IH by (auto split: option.split prod.split result.split)
qed simp

text \<open>
  The fuel that is enough for a call, with the number of servers whose mutex is free.  A call on a
  server whose mutex is held returns or waits at once.
\<close>

definition fuel_for :: "'d cluster \<Rightarrow> call \<Rightarrow> nat" where
  "fuel_for c k =
     (case k of
        CallStart seq v \<Rightarrow> 3 * card (free_nodes c) + 1
      | CallNewSlot seq v vw \<Rightarrow> max 1 (3 * card (free_nodes c))
      | CallForward seq v \<Rightarrow> max 1 (3 * card (free_nodes c) - 1))"

lemma fuel_for_lock_state:
  fixes c c' :: "'d cluster"
  shows "lock_state c = lock_state c' \<Longrightarrow> fuel_for c k = fuel_for c' k"
  using free_nodes_lock_state [of c c'] by (simp add: fuel_for_def split: call.split)

lemma free_pos: "node c a = Some s \<Longrightarrow> \<not> mu_locked s \<Longrightarrow> 0 < card (free_nodes c)"
  using finite_free_nodes [of c] by (subst card_gt_0_iff) (auto simp: free_nodes_def)

lemma step_down_fuel:
  assumes "node c a = Some s" "\<not> mu_locked s"
    and rec: "\<And>c'. lock_state c' = lock_state c \<Longrightarrow> rec c' a (CallForward seq v) \<noteq> Out_of_fuel"
  shows "step_down rec c a seq v na \<noteq> Out_of_fuel"
proof -
  have "rec (put_node a (s\<lparr>view := na, leader_dead := False, missed_heartbeats := 0\<rparr>) c) a
      (CallForward seq v) \<noteq> Out_of_fuel"
    using assms(1,2) by (intro rec lock_state_put) auto
  with assms rec [of c] show ?thesis
    by (auto simp: step_down_def split: outcome.split)
qed

lemma lock_state_node:
  "lock_state c' = lock_state c \<Longrightarrow> node c a = Some s \<Longrightarrow>
   \<exists>s'. node c' a = Some s' \<and> mu_locked s' = mu_locked s"
  by (auto simp: lock_state_def dest!: fun_cong [of _ _ a] split: option.splits)

lemma lock_state_addSlots:
  "node c a = Some s \<Longrightarrow> lock_state (put_node a (snd (addSlots s seq)) c) = lock_state c"
  by (rule lock_state_put) simp_all

lemma Start_fuel:
  assumes rec: "\<And>c' a' k. fuel_for c' k \<le> f \<Longrightarrow> rec c' a' k \<noteq> Out_of_fuel"
    and fuel: "fuel_for c (CallStart seq v) \<le> Suc f"
  shows "Start_body rec c a seq v \<noteq> Out_of_fuel"
proof (cases "node c a")
  case None
  then show ?thesis by (simp add: Start_body_def)
next
  case (Some s)
  let ?c1 = "put_node a (snd (addSlots s seq)) c"
  have "rec ?c1 a k \<noteq> Out_of_fuel" if k: "k = CallNewSlot seq v vw \<or> k = CallForward seq v"
    and free: "\<not> mu_locked s" for k vw
  proof (rule rec)
    show "fuel_for ?c1 k \<le> f"
      using k fuel free_pos [OF Some free] fuel_for_lock_state [OF lock_state_addSlots [OF Some]]
      by (auto simp: fuel_for_def)
  qed
  then show ?thesis
    using Some
    by (auto simp: Start_body_def Let_def joined_def split: prod.split outcome.split)
       (metis outcome.distinct snd_conv)+
qed

lemma StartOnForward_fuel:
  assumes rec: "\<And>c' a' k. fuel_for c' k \<le> f \<Longrightarrow> rec c' a' k \<noteq> Out_of_fuel"
    and fuel: "fuel_for c (CallForward seq v) \<le> Suc f"
  shows "StartOnForward_body rec c a seq v \<noteq> Out_of_fuel"
proof (cases "\<exists>s. node c a = Some s \<and> \<not> mu_locked s")
  case False
  then show ?thesis by (auto simp: StartOnForward_body_def split: option.split)
next
  case True
  then obtain s where s: "node c a = Some s" "\<not> mu_locked s" by blast
  obtain sl s1 where add: "addSlots (s\<lparr>mu_locked := True\<rparr>) seq = (sl, s1)" by fastforce
  then have l1: "mu_locked s1" using addSlots_frame(5) [of "s\<lparr>mu_locked := True\<rparr>" seq] by simp
  let ?c1 = "put_node a s1 c"
  have "free_nodes ?c1 = free_nodes c - {a}"
    using l1 by (auto simp: free_nodes_def)
  then have card: "card (free_nodes ?c1) = card (free_nodes c) - 1"
    using s by (simp add: free_nodes_def)
  have pos: "0 < card (free_nodes c)" by (rule free_pos [OF s])
  have new: "rec ?c1 a (CallNewSlot seq v vw) \<noteq> Out_of_fuel" for vw
    using fuel pos by (intro rec) (auto simp: fuel_for_def card)
  have "ForwardLeader rec l seq v ?c1 \<noteq> Inl Out_of_fuel" for l
  proof -
    obtain fate c0 where f: "next_fate ?c1 = (fate, c0)" by fastforce
    then have "lock_state c0 = lock_state ?c1"
      using node_next_fate [OF f] by (simp add: lock_state_def fun_eq_iff)
    then have "fuel_for c0 (CallStart seq v) \<le> f"
      using fuel pos by (subst fuel_for_lock_state) (auto simp: fuel_for_def card)
    then show ?thesis
      using rec [of c0 "CallStart seq v" l] by (auto simp: ForwardLeader_def f split: outcome.split)
  qed
  then show ?thesis
    using s add new
    by (auto simp: StartOnForward_body_def Let_def split: outcome.split sum.split prod.split)
qed

lemma accept_phase_fuel:
  assumes s: "node c a = Some s" "\<not> mu_locked s"
    and rec: "\<And>c'. lock_state c' = lock_state c \<Longrightarrow> rec c' a (CallForward seq v) \<noteq> Out_of_fuel"
  shows "accept_phase E rec c a seq v vw p \<noteq> Out_of_fuel"
proof -
  let ?va = "if p_highest_va p = [] then v else p_highest_va p"
  let ?loop = "accept_loop E a seq vw ?va (run_order E (stub_addresses c a)) acc_init c"
  have down: "step_down rec c1 a seq v na \<noteq> Out_of_fuel" if l: "lock_state c1 = lock_state c"
    for c1 na
  proof -
    obtain s1 where s1: "node c1 a = Some s1" "\<not> mu_locked s1"
      using lock_state_node [OF l s(1)] s(2) by auto
    show ?thesis by (rule step_down_fuel [OF s1]) (simp add: rec l)
  qed
  show ?thesis
  proof (cases ?loop)
    case (Inl out)
    then show ?thesis
      using accept_loop_fuel [of E a seq vw ?va "run_order E (stub_addresses c a)" acc_init c]
      by (auto simp: accept_phase_def Let_def learn_phase_def learn_loop_fuel)
  next
    case (Inr r)
    then obtain st c1 where r: "?loop = Inr (st, c1)" by (cases r) auto
    with lock_state_accept_loop [OF r] down show ?thesis
      by (auto simp: accept_phase_def Let_def learn_phase_def learn_loop_fuel)
  qed
qed

lemma StartOnNewSlot_fuel:
  assumes rec: "\<And>c' a' k. fuel_for c' k \<le> f \<Longrightarrow> rec c' a' k \<noteq> Out_of_fuel"
    and fuel: "fuel_for c (CallNewSlot seq v vw) \<le> Suc f"
  shows "StartOnNewSlot_body E rec c a seq v vw \<noteq> Out_of_fuel"
proof (cases "own_slot c a seq")
  case None
  then show ?thesis by (simp add: StartOnNewSlot_body_def)
next
  case (Some ssl)
  then obtain s sl where own: "own_slot c a seq = Some (s, sl)" by (cases ssl) auto
  show ?thesis
  proof (cases "mu_locked s")
    case True
    with own show ?thesis by (simp add: StartOnNewSlot_body_def)
  next
    case False
    have nd: "node c a = Some s" using own by (simp add: own_slot_Some)
    have fw: "rec c' a (CallForward seq v) \<noteq> Out_of_fuel" if "lock_state c' = lock_state c" for c'
      using fuel free_pos [OF nd False] fuel_for_lock_state [OF that]
      by (intro rec) (auto simp: fuel_for_def)
    have later: "step_down rec c1 a seq v na \<noteq> Out_of_fuel"
      "accept_phase E rec c1 a seq v vw p \<noteq> Out_of_fuel" if l: "lock_state c1 = lock_state c"
      for c1 na p
    proof -
      obtain s1 where s1: "node c1 a = Some s1" "\<not> mu_locked s1"
        using lock_state_node [OF l nd] False by auto
      show "step_down rec c1 a seq v na \<noteq> Out_of_fuel"
        by (rule step_down_fuel [OF s1]) (simp add: fw l)
      show "accept_phase E rec c1 a seq v vw p \<noteq> Out_of_fuel"
        by (rule accept_phase_fuel [OF s1]) (simp add: fw l)
    qed
    have prep: "case prepare_loop E a seq nsrv bs p (upd_slot a seq g c) of
        Inl out \<Rightarrow> out \<noteq> Out_of_fuel | Inr (p', c') \<Rightarrow> lock_state c' = lock_state c" for nsrv bs p g
      using prepare_loop_fuel [of E a seq nsrv bs p "upd_slot a seq g c"]
        lock_state_prepare_loop [of E a seq nsrv bs p "upd_slot a seq g c"]
      by (auto split: sum.split)
    show ?thesis
      using own False later prep [of "length (stub_addresses c a)" "stub_addresses c a" "prep_init v"]
      by (auto simp: StartOnNewSlot_body_def split: option.split sum.split prod.split)
         (fastforce split: sum.splits prod.splits)+
  qed
qed

theorem exec_enough_fuel: "fuel_for c k \<le> f \<Longrightarrow> exec f E c a k \<noteq> Out_of_fuel"
proof (induction f arbitrary: c a k)
  case 0
  then show ?case by (cases k) (auto simp: fuel_for_def)
next
  case (Suc f)
  show ?case
  proof (cases k)
    case (CallStart seq v)
    then show ?thesis using Start_fuel [of f "exec f E", OF Suc.IH] Suc.prems by simp
  next
    case (CallForward seq v)
    then show ?thesis using StartOnForward_fuel [of f "exec f E", OF Suc.IH] Suc.prems by simp
  next
    case (CallNewSlot seq v vw)
    then show ?thesis using StartOnNewSlot_fuel [of f "exec f E", OF Suc.IH] Suc.prems by simp
  qed
qed

lemma fuel_for_call_depth: "fuel_for c k \<le> call_depth c"
  using card_free_nodes [of c] by (auto simp: fuel_for_def call_depth_def split: call.split)

lemma Start_never_out_of_fuel: "Start E c a seq v \<noteq> Out_of_fuel"
  unfolding Start_def by (rule exec_enough_fuel [OF fuel_for_call_depth])

section \<open>Properties\<close>

text \<open>
  C20: \<open>Start\<close> always comes to an end or to a wait: the calls it makes, through \<open>StartOnForward\<close>,
  \<open>StartOnNewSlot\<close>, \<open>ForwardLeader\<close> and the \<open>Start\<close> of other servers, nest no deeper than three
  times the number of servers, on every cell and every network, because each \<open>StartOnForward\<close> keeps
  the mutex of one more server.
\<close>
theorem start_depth_bounded:
  "Start E c a seq v \<noteq> Out_of_fuel"
  by (rule Start_never_out_of_fuel)

text \<open>
  C13: nothing a proposal does, on any server, takes anything back: whatever calls are lost and
  whichever process dies, when \<open>Start\<close> ends every server that still runs has every decision it had,
  and its promises, its view and its highest accepted slot have not become smaller; and every slot
  but the one proposed in is as it was, on all of them.
\<close>
theorem start_takes_nothing_back:
  assumes "Start E c a seq v = Done c' \<or> Start E c a seq v = Died c'" "node c' b = Some t"
  shows "\<exists>s. node c b = Some s \<and> decided s \<subseteq>\<^sub>m decided t \<and> (\<forall>k. promised s k \<le> promised t k) \<and>
    view s \<le> view t \<and> highest_accepted_seq s \<le> highest_accepted_seq t \<and>
    (\<forall>k. k \<noteq> seq \<longrightarrow> get_slot t k = get_slot s k)"
proof -
  obtain s where s: "node c b = Some s" "advanced s t"
    using cluster_relD [OF adv.C_left [OF assms(1)] assms(2)] by auto
  have "only_slot seq s t"
    using cluster_relD [OF slt.C_left [OF assms(1)] assms(2)] s(1) by auto
  with s show ?thesis by (simp add: advanced_def only_slot_def)
qed

lemma sample_Start:
  "\<exists>c' t. Start mem_env (sample_cell\<lparr>net := [Delivered, Lost, Reply_lost]\<rparr>) ''127.0.0.1:50051'' 1 ''a#FREE'' = Done c' \<and>
     node c' ''127.0.0.1:50053'' = Some t"
proof -
  have "(case Start mem_env (sample_cell\<lparr>net := [Delivered, Lost, Reply_lost]\<rparr>) ''127.0.0.1:50051'' 1 ''a#FREE'' of
           Done c' \<Rightarrow> node c' ''127.0.0.1:50053'' \<noteq> None | _ \<Rightarrow> False)"
    by code_simp
  then show ?thesis by (auto split: outcome.splits)
qed

lemma start_takes_nothing_back_witness:
  "\<exists>c' t. Start mem_env (sample_cell\<lparr>net := [Delivered, Lost, Reply_lost]\<rparr>) ''127.0.0.1:50051'' 1 ''a#FREE'' = Done c' \<and>
     node c' ''127.0.0.1:50053'' = Some t \<and> 0 \<le> view t"
proof -
  obtain c' t where c': "Start mem_env (sample_cell\<lparr>net := [Delivered, Lost, Reply_lost]\<rparr>)
      ''127.0.0.1:50051'' 1 ''a#FREE'' = Done c'" "node c' ''127.0.0.1:50053'' = Some t"
    using sample_Start by blast
  with start_takes_nothing_back [OF disjI1 [OF c'(1)] c'(2)] show ?thesis by auto
qed

end
