(* ===== verification/ProposerRuns.thy ===== *)
theory ProposerRuns
  imports ProposerOrder
begin

text \<open>
  What a proposal achieves on a network that delivers every call: a fresh slot proposed by a
  leader is decided, with the proposed value, by every server of the address table, and written
  to every database; it is so whether or not a majority accepted it.  A proposal that a follower
  forwards to its leader never returns, because the follower holds its mutex while the leader
  calls it back.
\<close>

section \<open>The proposal number\<close>


section \<open>A cell in which a slot is fresh\<close>

definition ready :: "int \<Rightarrow> 'd paxos_impl \<Rightarrow> bool" where
  "ready seq s \<longleftrightarrow>
     can_enter s seq \<and> done_me s < seq \<and> decided s seq = None \<and> db_handle (paxos_db s) \<noteq> None"

text \<open>The threads of a broadcast run in some order, each once.\<close>

definition fair_order :: "'d env \<Rightarrow> bool" where
  "fair_order E \<longleftrightarrow> (\<forall>xs. distinct xs \<longrightarrow> set (run_order E xs) = set xs \<and> distinct (run_order E xs))"

definition cell_with ::
  "'d cluster \<Rightarrow> string set \<Rightarrow> (string \<Rightarrow> 'd paxos_impl \<Rightarrow> bool) \<Rightarrow> bool" where
  "cell_with c B P \<longleftrightarrow> net c = [] \<and> (\<forall>b \<in> B. \<exists>s. node c b = Some s \<and> P b s)"

lemma cell_withD: "cell_with c B P \<Longrightarrow> b \<in> B \<Longrightarrow> \<exists>s. node c b = Some s \<and> P b s"
  by (simp add: cell_with_def)

lemma cell_with_put:
  "cell_with c B P \<Longrightarrow> (\<And>b. b \<in> B \<Longrightarrow> b = a \<Longrightarrow> P a t) \<Longrightarrow> cell_with (put_node a t c) B P"
  by (auto simp: cell_with_def)

lemma cell_with_mono:
  "cell_with c B P \<Longrightarrow> (\<And>b s. b \<in> B \<Longrightarrow> P b s \<Longrightarrow> Q b s) \<Longrightarrow> cell_with c B Q"
  by (auto simp: cell_with_def)

lemma can_enter_frame:
  "mu_locked t = mu_locked s \<Longrightarrow> lowest_slot t = lowest_slot s \<Longrightarrow> me t = me s \<Longrightarrow>
   done_vec t = done_vec s \<Longrightarrow> can_enter t q = can_enter s q"
  by (simp add: can_enter_def)

lemma done_me_frame: "me t = me s \<Longrightarrow> done_vec t = done_vec s \<Longrightarrow> done_me t = done_me s"
  by (simp add: done_me_def)

lemma vec_get_ready: "can_enter s q \<Longrightarrow> vec_get (done_vec s) (me s) = Some (done_me s)"
  by (simp add: can_enter_def vec_get_def done_me_def)

lemma Accept_ready:
  assumes "ready seq s" "ar_seq req = seq"
  shows "\<exists>r. fst (Accept E s req) = Ok r \<and>
      (ap_status r = ''OK'' \<longleftrightarrow> view s \<le> ar_view req) \<and> ap_value r = null_str E \<and>
      ap_latest_done r < seq"
    and "ready seq (snd (Accept E s req))"
    and "paxos_db (snd (Accept E s req)) = paxos_db s"
    and "view (snd (Accept E s req)) = max (view s) (ar_view req)"
proof -
  have ce: "can_enter s (ar_seq req)" and und: "decided s seq = None"
    using assms by (auto simp: ready_def)
  show "\<exists>r. fst (Accept E s req) = Ok r \<and>
      (ap_status r = ''OK'' \<longleftrightarrow> view s \<le> ar_view req) \<and> ap_value r = null_str E \<and>
      ap_latest_done r < seq"
    using assms ce und
    by (simp add: Accept_ok Accept_slot_def Let_def ready_def)
  show db: "paxos_db (snd (Accept E s req)) = paxos_db s"
    and "view (snd (Accept E s req)) = max (view s) (ar_view req)"
    using ce by (simp_all add: Accept_ok Let_def)
  have "can_enter (snd (Accept E s req)) q = can_enter s q"
    "done_me (snd (Accept E s req)) = done_me s" for q
    using same_config_Accept [of s E req]
    by (simp_all add: same_config_def can_enter_def done_me_def)
  then show "ready seq (snd (Accept E s req))"
    using assms(1) db by (simp add: ready_def)
qed

text \<open>
  The accept broadcast: it ends, nobody reports a decided value, and the acceptors that run and
  whose view is not above the proposer's have accepted.  \<open>B\<close> are the servers that run.
\<close>

definition still_fresh ::
  "int \<Rightarrow> int \<Rightarrow> (string \<Rightarrow> bool) \<Rightarrow> (string \<Rightarrow> 'd rocksdb) \<Rightarrow> (string \<Rightarrow> 'd paxos_impl) \<Rightarrow>
   string \<Rightarrow> 'd paxos_impl \<Rightarrow> bool" where
  "still_fresh seq vw ok D S b s \<longleftrightarrow>
     ready seq s \<and> (view s \<le> vw \<longleftrightarrow> ok b) \<and> paxos_db s = D b \<and> same_config (S b) s"

lemma still_fresh_Accept:
  assumes "still_fresh seq vw ok D S b t" "ar_seq req = seq" "ar_view req = vw"
  shows "still_fresh seq vw ok D S b (snd (Accept E t req))"
proof -
  have t: "ready seq t" "same_config (S b) t" using assms(1) by (simp_all add: still_fresh_def)
  have "same_config (S b) (snd (Accept E t req))"
    using t(2) same_config_Accept [of t E req] by (simp add: same_config_def)
  then show ?thesis
    using Accept_ready [OF t(1) assms(2), of E] assms by (auto simp: still_fresh_def)
qed

lemma accept_loop_step:
  assumes "a \<in> B" "b \<in> B" "null_str E = []" "cell_with c B (still_fresh seq vw ok D S)"
  shows "\<exists>r c'. accept_loop E a seq vw va (b # bs) st c =
       accept_loop E a seq vw va bs (acc_reply seq r st) c' \<and>
     a_decided (acc_reply seq r st) = a_decided st \<and>
     a_majority (acc_reply seq r st) = a_majority st + (if ok b then 1 else 0) \<and>
     cell_with c' B (still_fresh seq vw ok D S) \<and> (\<forall>x. x \<notin> B \<longrightarrow> node c' x = node c x)"
proof -
  from cell_withD [OF assms(4,1)] obtain s where s: "node c a = Some s" "ready seq s"
    by (auto simp: still_fresh_def)
  have d: "vec_get (done_vec s) (me s) = Some (done_me s)"
    using s by (auto simp: ready_def vec_get_ready)
  let ?req = "\<lparr>ar_seq = seq, ar_view = vw, ar_value = va, ar_sender_id = me s,
              ar_latest_done = done_me s\<rparr>"
  from cell_withD [OF assms(4,2)] obtain t where t: "node c b = Some t" "still_fresh seq vw ok D S b t"
    by blast
  let ?t' = "snd (Accept E t ?req)"
  have rt: "ready seq t" "view t \<le> vw \<longleftrightarrow> ok b" using t(2) by (simp_all add: still_fresh_def)
  obtain r where r: "fst (Accept E t ?req) = Ok r" "ap_status r = ''OK'' \<longleftrightarrow> view t \<le> vw"
    "ap_value r = null_str E" "ap_latest_done r < seq"
    using Accept_ready(1) [OF rt(1), of ?req E] by auto
  have call: "rpc b (\<lambda>t. Accept E t ?req) c = (Ok r, put_node b ?t' c)"
    using assms(4) t(1) r(1) by (intro rpc_delivered) (auto simp: cell_with_def prod_eq_iff)
  have "cell_with (put_node b ?t' c) B (still_fresh seq vw ok D S)"
    using assms(4) still_fresh_Accept [OF t(2), of ?req E] by (intro cell_with_put) auto
  then show ?thesis
    using s d call r rt(2) assms(2,3)
    by (intro exI [of _ r] exI [of _ "put_node b ?t' c"]) (auto simp: acc_reply_def Let_def)
qed

lemma accept_loop_ready:
  assumes "a \<in> B" "\<forall>b \<in> set bs - B. node c b = None" "null_str E = []"
    and "cell_with c B (still_fresh seq vw ok D S)"
  shows "\<exists>st' c'. accept_loop E a seq vw va bs st c = Inr (st', c') \<and>
     a_decided st' = a_decided st \<and>
     a_majority st' = a_majority st + int (length (filter (\<lambda>b. b \<in> B \<and> ok b) bs)) \<and>
     cell_with c' B (still_fresh seq vw ok D S) \<and> (\<forall>x. x \<notin> B \<longrightarrow> node c' x = node c x)"
  using assms
proof (induction bs arbitrary: st c)
  case Nil
  then show ?case by simp
next
  case (Cons b bs)
  show ?case
  proof (cases "b \<in> B")
    case True
    from accept_loop_step [OF Cons.prems(1) True Cons.prems(3,4), of va bs st] obtain r c1 where
      step: "accept_loop E a seq vw va (b # bs) st c = accept_loop E a seq vw va bs (acc_reply seq r st) c1"
      "a_decided (acc_reply seq r st) = a_decided st"
      "a_majority (acc_reply seq r st) = a_majority st + (if ok b then 1 else 0)"
      "cell_with c1 B (still_fresh seq vw ok D S)" "\<forall>x. x \<notin> B \<longrightarrow> node c1 x = node c x" by blast
    have "\<forall>x \<in> set bs - B. node c1 x = None" using step(5) Cons.prems(2) by simp
    from Cons.IH [OF Cons.prems(1) this Cons.prems(3) step(4), of "acc_reply seq r st"] step True
    show ?thesis by auto
  next
    case False
    obtain s where s: "node c a = Some s" "ready seq s"
      using cell_withD [OF Cons.prems(4,1)] by (auto simp: still_fresh_def)
    have "rpc b h c = (Error UNAVAILABLE, c)" for h :: "'a paxos_impl \<Rightarrow> accept_response result \<times> 'a paxos_impl"
      using False Cons.prems(2,4) by (intro rpc_down) (auto simp: cell_with_def)
    moreover have "can_enter s seq" using s(2) by (simp add: ready_def)
    ultimately have "accept_loop E a seq vw va (b # bs) st c = accept_loop E a seq vw va bs st c"
      using s(1) vec_get_ready [of s seq] by simp
    with Cons.IH [OF Cons.prems(1) _ Cons.prems(3,4), of st] Cons.prems(2) False show ?thesis by auto
  qed
qed

section \<open>The learn broadcast\<close>

lemma Learn_ready:
  assumes ok: "rocks_ok E" "rocks_writes E"
    and s: "can_enter s seq" "decided s seq = None" "db_handle (paxos_db s) \<noteq> None"
    and req: "dr_seq req = seq" "getKeyValue (dr_value req) = Inr (key, val)"
  shows "\<exists>r. fst (Learn E s req) = Ok r"
    and "decided (snd (Learn E s req)) = (decided s)(seq \<mapsto> dr_value req)"
    and "store E (paxos_db (snd (Learn E s req))) = (store E (paxos_db s))(key \<mapsto> val)"
    and "can_enter (snd (Learn E s req)) seq"
proof -
  have fresh: "slot_status (fst (addSlots s seq)) \<noteq> DECIDED" using s(2) by simp
  show "\<exists>r. fst (Learn E s req) = Ok r"
    "store E (paxos_db (snd (Learn E s req))) = (store E (paxos_db s))(key \<mapsto> val)"
    using s req fresh RocksDB_Put_stores [OF ok s(3), of key val "[]"]
    by (simp_all add: Learn_ok Learn_slot_def Let_def)
  show "decided (snd (Learn E s req)) = (decided s)(seq \<mapsto> dr_value req)"
    using s req by (simp add: decided_Learn)
  show "can_enter (snd (Learn E s req)) seq"
    using s(1) same_config_Learn [of s E req]
    by (simp add: same_config_def can_enter_def)
qed

definition learned ::
  "'d env \<Rightarrow> int \<Rightarrow> string \<Rightarrow> string \<Rightarrow> string \<Rightarrow> 'd rocksdb \<Rightarrow> 'd paxos_impl \<Rightarrow> bool" where
  "learned E seq v key val w s \<longleftrightarrow>
     decided s seq = Some v \<and> store E (paxos_db s) = (store E w)(key \<mapsto> val)"

text \<open>During the learn broadcast: the servers of \<open>F\<close> have learned the value, the others not yet.\<close>

definition learning ::
  "'d env \<Rightarrow> int \<Rightarrow> string \<Rightarrow> string \<Rightarrow> string \<Rightarrow> (string \<Rightarrow> 'd rocksdb) \<Rightarrow>
   (string \<Rightarrow> 'd paxos_impl \<Rightarrow> bool) \<Rightarrow> string set \<Rightarrow> string \<Rightarrow> 'd paxos_impl \<Rightarrow> bool" where
  "learning E seq v key val D Q F b s \<longleftrightarrow> can_enter s seq \<and> Q b s \<and>
     (if b \<in> F then learned E seq v key val (D b) s
      else decided s seq = None \<and> paxos_db s = D b \<and> db_handle (paxos_db s) \<noteq> None)"

lemma learn_loop_step:
  assumes "rocks_ok E" "rocks_writes E" "getKeyValue v = Inr (key, val)"
    and "a \<in> B" "b \<in> B" "b \<notin> F"
    and "\<And>b s req. Q b s \<Longrightarrow> Q b (snd (Learn E s req))"
    and "cell_with c B (learning E seq v key val D Q F)"
  shows "\<exists>c'. learn_loop E a seq v (b # bs) c = learn_loop E a seq v bs c' \<and>
     cell_with c' B (learning E seq v key val D Q (insert b F)) \<and> (\<forall>x. x \<notin> B \<longrightarrow> node c' x = node c x)"
proof -
  from cell_withD [OF assms(8,4)] obtain s where s: "node c a = Some s" "can_enter s seq"
    by (auto simp: learning_def)
  let ?req = "\<lparr>dr_seq = seq, dr_value = v, dr_sender_id = me s, dr_latest_done = done_me s\<rparr>"
  from cell_withD [OF assms(8,5)] assms(6) obtain t where t: "node c b = Some t" "can_enter t seq"
    "decided t seq = None" "Q b t" "db_handle (paxos_db t) \<noteq> None" "paxos_db t = D b"
    by (auto simp: learning_def)
  let ?t' = "snd (Learn E t ?req)"
  note lrn = Learn_ready [OF assms(1,2) t(2,3,5), of ?req key val]
  have kv: "getKeyValue (dr_value ?req) = Inr (key, val)" using assms(3) by simp
  obtain r where r: "fst (Learn E t ?req) = Ok r" using lrn(1) [OF _ kv] by auto
  have net: "net c = []" using assms(8) by (simp add: cell_with_def)
  have call: "rpc b (\<lambda>t. Learn E t ?req) c = (Ok r, put_node b ?t' c)"
    using net t(1) r by (intro rpc_delivered) (auto simp: prod_eq_iff)
  have new: "learning E seq v key val D Q (insert b F) b ?t'"
    using lrn(2-4) [OF _ kv] t(6) assms(7) [OF t(4)] by (simp add: learning_def learned_def)
  have old: "learning E seq v key val D Q (insert b F) x u"
    if "x \<noteq> b" "learning E seq v key val D Q F x u" for x u
    using that by (auto simp: learning_def)
  have "\<exists>u. node (put_node b ?t' c) x = Some u \<and> learning E seq v key val D Q (insert b F) x u"
    if "x \<in> B" for x
    using new old cell_withD [OF assms(8) that] by (cases "x = b") auto
  moreover have "\<not> mu_locked s" using s by (simp add: can_enter_def)
  ultimately show ?thesis
    using s call net assms(5)
    by (intro exI [of _ "put_node b ?t' c"]) (auto simp: vec_get_ready cell_with_def)
qed

lemma learn_loop_ready:
  assumes "rocks_ok E" "rocks_writes E" "getKeyValue v = Inr (key, val)"
    and "a \<in> B" "\<forall>b \<in> set bs - B. node c b = None" "distinct bs" "set bs \<inter> F = {}"
    and "\<And>b s req. Q b s \<Longrightarrow> Q b (snd (Learn E s req))"
    and "cell_with c B (learning E seq v key val D Q F)"
  shows "\<exists>c'. learn_loop E a seq v bs c = Done c' \<and>
     cell_with c' B (learning E seq v key val D Q (F \<union> (set bs \<inter> B))) \<and>
     (\<forall>x. x \<notin> B \<longrightarrow> node c' x = node c x)"
  using assms(5-7,9)
proof (induction bs arbitrary: c F)
  case Nil
  then show ?case by simp
next
  case (Cons b bs)
  show ?case
  proof (cases "b \<in> B")
    case True
    have "b \<notin> F" using Cons.prems(3) by simp
    from learn_loop_step [OF assms(1-4) True this assms(8) Cons.prems(4), of bs] obtain c1 where
      c1: "learn_loop E a seq v (b # bs) c = learn_loop E a seq v bs c1"
      "cell_with c1 B (learning E seq v key val D Q (insert b F))" "\<forall>x. x \<notin> B \<longrightarrow> node c1 x = node c x"
      by blast
    have "insert b F \<union> (set bs \<inter> B) = F \<union> (set (b # bs) \<inter> B)" using True by auto
    with Cons.IH [OF _ _ _ c1(2)] Cons.prems(1-3) c1(1,3) show ?thesis by auto
  next
    case False
    obtain s where s: "node c a = Some s" "can_enter s seq"
      using cell_withD [OF Cons.prems(4) assms(4)] by (auto simp: learning_def)
    have "rpc b h c = (Error UNAVAILABLE, c)" for h :: "'a paxos_impl \<Rightarrow> decide_response result \<times> 'a paxos_impl"
      using False Cons.prems(1,4) by (intro rpc_down) (auto simp: cell_with_def)
    then have "learn_loop E a seq v (b # bs) c = learn_loop E a seq v bs c"
      using s vec_get_ready [OF s(2)] by (simp add: can_enter_def)
    with Cons.IH [OF _ _ _ Cons.prems(4)] Cons.prems(1-3) False show ?thesis by auto
  qed
qed

section \<open>A fresh slot\<close>

lemma nodes_nonempty: "node c a = Some s \<Longrightarrow> 0 < length (nodes c)"
  by (cases "nodes c") (auto simp: node_def)

lemma call_depth_Suc: "node c a = Some s \<Longrightarrow> \<exists>n. call_depth c = Suc (Suc (Suc (Suc n)))"
  using nodes_nonempty [of c a s]
  by (cases "nodes c") (auto simp: call_depth_def intro!: exI [of _ "3 * length (tl (nodes c))"])

text \<open>The leader of its view, able to propose in slot \<open>seq\<close> without a prepare phase.\<close>

definition fast_leader :: "int \<Rightarrow> 'd paxos_impl \<Rightarrow> bool" where
  "fast_leader seq s \<longleftrightarrow>
     view s smod num_servers s = me s \<and> \<not> leader_dead s \<and> is_dead s = 0 \<and>
     - 1 \<le> view s \<and> highest_accepted_seq s < seq"

lemma exec_Start_fast:
  assumes s: "node c a = Some s" "can_enter s seq" "decided s seq = None" "fast_leader seq s"
    and v: "v \<noteq> []"
  defines "c1 \<equiv> put_node a (snd (addSlots s seq)) c"
  shows "exec (Suc (Suc n)) E c a (CallStart seq v) =
     joined a
       (case accept_loop E a seq (view s) v
               (run_order E (smap_keys (paxos_stubs_map s))) acc_init c1 of
          Inl out \<Rightarrow> out
        | Inr (st, c2) \<Rightarrow>
            if a_decided st then Done c2 else learn_phase E c2 a seq v)"
proof -
  let ?s1 = "snd (addSlots s seq)"
  have own: "own_slot c1 a seq = Some (?s1, fst (addSlots s seq))"
    by (simp add: c1_def own_slot_Some)
  have st: "stub_addresses c1 a = smap_keys (paxos_stubs_map s)"
    by (simp add: c1_def stub_addresses_def)
  have "exec (Suc (Suc n)) E c a (CallStart seq v) =
      joined a (exec (Suc n) E c1 a (CallNewSlot seq v (view s)))"
    using s by (simp add: Start_body_def fast_leader_def can_enter_def c1_def
        case_prod_beta Let_def)
  also have "exec (Suc n) E c1 a (CallNewSlot seq v (view s)) =
      accept_phase E (exec n E) c1 a seq v (view s) (prep_init v)"
    using s own by (simp add: StartOnNewSlot_body_def fast_leader_def can_enter_def)
  also have "\<dots> = (case accept_loop E a seq (view s) v
               (run_order E (smap_keys (paxos_stubs_map s))) acc_init c1 of
          Inl out \<Rightarrow> out
        | Inr (st, c2) \<Rightarrow>
            if a_decided st then Done c2 else learn_phase E c2 a seq v)"
    using s v st
    by (auto simp: accept_phase_def prep_init_def fast_leader_def Let_def split: sum.split)
  finally show ?thesis .
qed

lemma Start_fast:
  assumes s: "node c a = Some s" "can_enter s seq" "decided s seq = None" "fast_leader seq s"
    and v: "v \<noteq> []"
  defines "c1 \<equiv> put_node a (snd (addSlots s seq)) c"
  shows "Start E c a seq v =
     joined a
       (case accept_loop E a seq (view s) v
               (run_order E (smap_keys (paxos_stubs_map s))) acc_init c1 of
          Inl out \<Rightarrow> out
        | Inr (st, c2) \<Rightarrow>
            if a_decided st then Done c2 else learn_phase E c2 a seq v)"
proof -
  obtain n where n: "call_depth c = Suc (Suc n)" using call_depth_Suc [OF s(1)] by blast
  show ?thesis unfolding Start_def n c1_def by (rule exec_Start_fast [OF s v])
qed

lemma ready_addSlots: "ready seq s \<Longrightarrow> ready seq (snd (addSlots s seq))"
  by (simp add: ready_def can_enter_def done_me_def)

lemma same_config_addSlots: "same_config s (snd (addSlots s seq))"
  by (simp add: same_config_def)

lemma distinct_smap_keys: "smap_ok m \<Longrightarrow> distinct (smap_keys m)"
  by (simp add: smap_keys_def smap_ok_distinct)

text \<open>
  The two broadcasts of a fresh slot, and then the proposal, in a cell of which some servers may
  be down: \<open>B\<close> are those that run.
\<close>

lemma fresh_accepts:
  assumes "null_str E = []" "net c = []" "node c a = Some s" "a \<in> B"
    and "\<forall>b \<in> set bs - B. node c b = None" "\<forall>b \<in> B. \<exists>t. node c b = Some t \<and> ready seq t"
  shows "\<exists>st c'. accept_loop E a seq (view s) v bs acc_init (put_node a (snd (addSlots s seq)) c) = Inr (st, c') \<and>
     \<not> a_decided st \<and>
     a_majority st = int (length (filter (\<lambda>b. b \<in> B \<and> view (the (node c b)) \<le> view s) bs)) \<and>
     cell_with c' B (still_fresh seq (view s) (\<lambda>b. view (the (node c b)) \<le> view s)
       (\<lambda>b. paxos_db (the (node c b))) (\<lambda>b. the (node c b))) \<and>
     (\<forall>x. x \<notin> B \<longrightarrow> node c' x = node c x)"
proof -
  let ?c1 = "put_node a (snd (addSlots s seq)) c"
  let ?P = "still_fresh seq (view s) (\<lambda>b. view (the (node c b)) \<le> view s)
       (\<lambda>b. paxos_db (the (node c b))) (\<lambda>b. the (node c b))"
  have "ready seq s" using assms(3,4,6) by auto
  moreover have "\<exists>t. node ?c1 b = Some t \<and> ?P b t" if b: "b \<in> B" for b
  proof -
    from b assms(6) obtain t where "node c b = Some t" "ready seq t" by blast
    with assms(3) \<open>ready seq s\<close> show ?thesis
      by (cases "b = a") (auto simp: still_fresh_def ready_addSlots same_config_addSlots same_config_refl)
  qed
  ultimately have cell: "cell_with ?c1 B ?P" using assms(2) by (simp add: cell_with_def)
  have down: "\<forall>b \<in> set bs - B. node ?c1 b = None" using assms(4,5) by auto
  obtain st c' where acc: "accept_loop E a seq (view s) v bs acc_init ?c1 = Inr (st, c')"
    "a_decided st = a_decided acc_init" "a_majority st = a_majority acc_init +
       int (length (filter (\<lambda>b. b \<in> B \<and> view (the (node c b)) \<le> view s) bs))"
    "cell_with c' B ?P" "\<forall>x. x \<notin> B \<longrightarrow> node c' x = node ?c1 x"
    using accept_loop_ready [OF assms(4) down assms(1) cell] by blast
  moreover have "node c' x = node c x" if "x \<notin> B" for x using acc(5) that assms(4) by auto
  moreover have "a_decided acc_init = False" "a_majority acc_init = 0" by (simp_all add: acc_init_def)
  ultimately show ?thesis by auto
qed

lemma fresh_learns:
  assumes env: "rocks_ok E" "rocks_writes E" and v: "getKeyValue v = Inr (key, val)"
    and "a \<in> B" "distinct bs" "B \<subseteq> set bs" "\<forall>b \<in> set bs - B. node c b = None"
    and "cell_with c B (still_fresh seq vw ok D S)"
  shows "\<exists>c'. learn_loop E a seq v bs c = Done c' \<and> net c' = [] \<and>
     (\<forall>b \<in> B. \<exists>t. node c' b = Some t \<and> can_enter t seq \<and> (view t \<le> vw \<longleftrightarrow> ok b) \<and>
        learned E seq v key val (D b) t)"
proof -
  let ?Q = "\<lambda>b t. view t \<le> vw \<longleftrightarrow> ok b"
  have "cell_with c B (learning E seq v key val D ?Q {})"
    using assms(8) by (rule cell_with_mono) (auto simp: still_fresh_def learning_def ready_def)
  from learn_loop_ready [OF env v assms(4,7,5) _ _ this] obtain c' where
    c': "learn_loop E a seq v bs c = Done c'"
    "cell_with c' B (learning E seq v key val D ?Q (set bs \<inter> B))"
    by (auto simp: view_handlers)
  moreover have "set bs \<inter> B = B" using assms(6) by auto
  ultimately show ?thesis by (auto simp: cell_with_def learning_def)
qed

lemma fresh_proposal_running:
  assumes env: "rocks_ok E" "rocks_writes E" "null_str E = []" "fair_order E"
    and net: "net c = []"
    and s: "node c a = Some s" "fast_leader seq s"
    and stubs: "smap_ok (paxos_stubs_map s)" "a \<in> set (smap_keys (paxos_stubs_map s))"
    and all: "\<forall>b \<in> set (smap_keys (paxos_stubs_map s)). \<forall>t. node c b = Some t \<longrightarrow> ready seq t"
    and v: "getKeyValue v = Inr (key, val)"
  shows "\<exists>st c1 c'.
     accept_loop E a seq (view s) v (run_order E (smap_keys (paxos_stubs_map s))) acc_init
       (put_node a (snd (addSlots s seq)) c) = Inr (st, c1) \<and>
     a_majority st = int (length (filter (\<lambda>b. node c b \<noteq> None \<and> view (the (node c b)) \<le> view s)
                                    (run_order E (smap_keys (paxos_stubs_map s))))) \<and>
     Start E c a seq v = Done c' \<and> net c' = [] \<and>
     (\<forall>b \<in> set (smap_keys (paxos_stubs_map s)). \<forall>t. node c b = Some t \<longrightarrow>
        (\<exists>t'. node c' b = Some t' \<and> can_enter t' seq \<and> decided t' seq = Some v \<and>
           (view t' \<le> view s \<longleftrightarrow> view t \<le> view s) \<and>
           store E (paxos_db t') = (store E (paxos_db t))(key \<mapsto> val)))"
proof -
  let ?keys = "smap_keys (paxos_stubs_map s)"
  let ?order = "run_order E ?keys"
  define B where "B = {b \<in> set ?keys. node c b \<noteq> None}"
  have order: "set ?order = set ?keys" "distinct ?order"
    using env(4) distinct_smap_keys [OF stubs(1)] by (auto simp: fair_order_def)
  have B: "a \<in> B" "B \<subseteq> set ?order" "\<forall>b \<in> set ?order - B. node c b = None"
    "\<forall>b \<in> B. \<exists>t. node c b = Some t \<and> ready seq t"
    using s(1) stubs(2) order(1) all by (auto simp: B_def)
  from fresh_accepts [OF env(3) net s(1) B(1,3,4), of v] obtain st c2 where acc:
    "accept_loop E a seq (view s) v ?order acc_init (put_node a (snd (addSlots s seq)) c) = Inr (st, c2)"
    "\<not> a_decided st"
    "a_majority st = int (length (filter (\<lambda>b. b \<in> B \<and> view (the (node c b)) \<le> view s) ?order))"
    "cell_with c2 B (still_fresh seq (view s) (\<lambda>b. view (the (node c b)) \<le> view s)
       (\<lambda>b. paxos_db (the (node c b))) (\<lambda>b. the (node c b)))"
    "\<forall>x. x \<notin> B \<longrightarrow> node c2 x = node c x" by blast
  have down: "\<forall>b \<in> set ?order - B. node c2 b = None" using acc(5) B(3) by simp
  from fresh_learns [OF env(1,2) v B(1) order(2) B(2) down acc(4)] obtain c' where
    c': "learn_loop E a seq v ?order c2 = Done c'" "net c' = []"
    "\<forall>b \<in> B. \<exists>t. node c' b = Some t \<and> can_enter t seq \<and>
       (view t \<le> view s \<longleftrightarrow> view (the (node c b)) \<le> view s) \<and>
       learned E seq v key val (paxos_db (the (node c b))) t" by blast
  obtain s2 where "node c2 a = Some s2" "same_config s s2"
    using cell_withD [OF acc(4) B(1)] s(1) by (auto simp: still_fresh_def)
  then have lrn: "learn_phase E c2 a seq v = Done c'"
    using c'(1) by (simp add: learn_phase_def stub_addresses_def same_config_def)
  have "v \<noteq> []" using v by (auto simp: getKeyValue_def)
  moreover have "ready seq s" using all stubs(2) s(1) by blast
  ultimately have run: "Start E c a seq v = Done c'"
    using Start_fast [OF s(1) _ _ s(2), of v E] acc(1,2) lrn by (simp add: ready_def joined_def)
  have "filter (\<lambda>b. b \<in> B \<and> view (the (node c b)) \<le> view s) ?order =
      filter (\<lambda>b. node c b \<noteq> None \<and> view (the (node c b)) \<le> view s) ?order"
    by (rule filter_cong [OF refl]) (simp add: order(1) B_def)
  note maj = acc(3) [unfolded this]
  have "\<exists>t'. node c' b = Some t' \<and> can_enter t' seq \<and> decided t' seq = Some v \<and>
      (view t' \<le> view s \<longleftrightarrow> view t \<le> view s) \<and> store E (paxos_db t') = (store E (paxos_db t))(key \<mapsto> val)"
    if "b \<in> set ?keys" "node c b = Some t" for b t
    using bspec [OF c'(3), of b] that by (auto simp: learned_def B_def)
  then show ?thesis
    by (intro exI [of _ st] exI [of _ c2] exI [of _ c'] conjI ballI allI impI acc(1) maj run c'(2))
qed

text \<open>The same when all servers of the table run.\<close>

lemma fresh_proposal:
  assumes env: "rocks_ok E" "rocks_writes E" "null_str E = []" "fair_order E"
    and net: "net c = []"
    and s: "node c a = Some s" "fast_leader seq s"
    and stubs: "smap_ok (paxos_stubs_map s)" "a \<in> set (smap_keys (paxos_stubs_map s))"
    and all: "\<forall>b \<in> set (smap_keys (paxos_stubs_map s)). \<exists>t. node c b = Some t \<and> ready seq t"
    and v: "getKeyValue v = Inr (key, val)"
  shows "\<exists>c'. Start E c a seq v = Done c' \<and> net c' = [] \<and>
     (\<forall>b \<in> set (smap_keys (paxos_stubs_map s)). \<exists>t t'. node c b = Some t \<and> node c' b = Some t' \<and>
        can_enter t' seq \<and> decided t' seq = Some v \<and>
        (view t' \<le> view s \<longleftrightarrow> view t \<le> view s) \<and> store E (paxos_db t') = (store E (paxos_db t))(key \<mapsto> val))"
proof -
  have run: "\<forall>b \<in> set (smap_keys (paxos_stubs_map s)). \<forall>t. node c b = Some t \<longrightarrow> ready seq t"
    using all by force
  from fresh_proposal_running [OF env net s stubs run v] all show ?thesis by (meson option.sel)
qed

section \<open>Forwarding\<close>

text \<open>An accept broadcast that reaches a server whose mutex is held never ends.\<close>

lemma accept_loop_stuck:
  assumes "net c = []" "node c a = Some s" "vec_get (done_vec s) (me s) \<noteq> None"
    and "w \<in> set bs" "node c w = Some t" "mu_locked t"
  shows "accept_loop E a seq vw va bs st c = Inl Stuck"
  using assms
proof (induction bs arbitrary: st c s t)
  case Nil
  then show ?case by simp
next
  case (Cons b bs)
  obtain d where d: "vec_get (done_vec s) (me s) = Some d" using Cons.prems(3) by auto
  let ?req = "\<lparr>ar_seq = seq, ar_view = vw, ar_value = va, ar_sender_id = me s,
              ar_latest_done = d\<rparr>"
  show ?case
  proof (cases "b = w")
    case True
    have "Accept E t ?req = (Blocked, t)"
      using Cons.prems(6) by (simp add: Accept_def Accept_mu_def enter_slot_def)
    then show ?thesis
      using Cons.prems d True rpc_blocked [OF Cons.prems(1,5), of "\<lambda>t. Accept E t ?req" t] by simp
  next
    case False
    obtain r c1 where call: "rpc b (\<lambda>t. Accept E t ?req) c = (r, c1)" by fastforce
    have cfg: "cluster_rel same_config c c1" by (rule cfg.C_rpc [OF call same_config_Accept])
    have lck: "lock_state c1 = lock_state c" by (rule lock_state_rpc [OF call]) simp
    obtain s1 where s1: "node c1 a = Some s1"
      using lock_state_node [OF lck Cons.prems(2)] by auto
    have same: "same_config s s1" using cluster_relD [OF cfg s1] Cons.prems(2) by simp
    obtain t1 where t1: "node c1 w = Some t1" "mu_locked t1"
      using lock_state_node [OF lck Cons.prems(5)] Cons.prems(6) by auto
    have "accept_loop E a seq vw va bs st' c1 = Inl Stuck" for st'
      using Cons.IH [of c1 s1 t1 st'] Cons.prems False s1 same t1 net_rpc [OF _ call]
      by (simp add: same_config_def)
    then show ?thesis using Cons.prems(2) d call by (cases r) auto
  qed
qed

text \<open>A proposal of a follower: its mutex is held when the leader's broadcast comes back to it.\<close>

lemma forward_stuck:
  assumes net: "net c = []" and ne: "f \<noteq> l"
    and t: "node c f = Some t" "can_enter t seq" "decided t seq = None" "is_dead t = 0"
      "view t smod num_servers t \<noteq> me t" "leader_address t = l" "map_of (paxos_stubs_map t) l \<noteq> None"
    and s: "node c l = Some s" "can_enter s seq" "decided s seq = None" "fast_leader seq s"
    and f: "f \<in> set (run_order E (smap_keys (paxos_stubs_map s)))" and v: "v \<noteq> []"
  shows "Start E c f seq v = Stuck"
proof -
  obtain n where n: "call_depth c = Suc (Suc (Suc (Suc n)))" using call_depth_Suc [OF t(1)] by blast
  let ?t1 = "snd (addSlots t seq)"
  let ?t2 = "snd (addSlots (?t1\<lparr>mu_locked := True\<rparr>) seq)"
  let ?c1 = "put_node f ?t1 c" and ?c2 = "put_node f ?t2 (put_node f ?t1 c)"
  let ?c3 = "put_node l (snd (addSlots s seq)) ?c2"
  have dec: "decided (?t1\<lparr>mu_locked := True\<rparr>) seq = None"
    using t(3) decided_cong [of "?t1\<lparr>mu_locked := True\<rparr>" ?t1] by simp
  have la: "leader_address (?t1\<lparr>mu_locked := True\<rparr>) = l" "leader_address ?t1 = l"
    using t(6) by (simp_all add: leader_address_def addSlots_def Let_def set_slot_def)
  have stuck: "accept_loop E l seq (view s) v (run_order E (smap_keys (paxos_stubs_map s))) acc_init ?c3
      = Inl Stuck"
    by (rule accept_loop_stuck [OF _ _ _ f, where s = "snd (addSlots s seq)" and t = ?t2])
      (use net ne s(2) vec_get_ready [OF s(2)] in \<open>simp_all\<close>)
  have lead: "exec (Suc (Suc n)) E ?c2 l (CallStart seq v) = Stuck"
    using exec_Start_fast [of ?c2 l s seq v n E] s ne v stuck by (simp add: joined_def)
  have "exec (Suc (Suc (Suc n))) E ?c1 f (CallForward seq v) = Stuck"
    using t ne net s(1) dec la lead
    by (simp add: StartOnForward_body_def can_enter_def ForwardLeader_def next_fate_def
        case_prod_beta Let_def del: exec.simps(2) add: exec.simps(2) [of "Suc (Suc n)"])
  then show ?thesis
    using t unfolding Start_def n
    by (simp add: Start_body_def can_enter_def case_prod_beta Let_def joined_def
        del: exec.simps(2) add: exec.simps(2) [of "Suc (Suc (Suc n))"])
qed

section \<open>Properties\<close>

lemma ready_sample_server [simp]: "i \<in> {0, 1, 2} \<Longrightarrow> ready 1 (sample_server i)"
  by (auto simp: ready_def can_enter_def done_me_def)

lemma length_filter_eq: "distinct xs \<Longrightarrow> length (filter (\<lambda>b. b = a) xs) \<le> 1"
  by (induction xs) (auto simp: filter_empty_conv)

lemma fast_leader_sample_server [simp]: "fast_leader 1 (sample_server 0)"
  by (simp add: fast_leader_def signed_modulo_int_def)

lemma fair_order_mem_env [simp]: "fair_order mem_env"
  by (simp add: fair_order_def)

text \<open>
  C4: replication.  When the leader of its view proposes \<open>path#mode\<close> in a slot that is above every
  slot it has accepted and that no running server has decided, every server of its address table that
  runs serves the slot and has an open database, and the network delivers, then \<open>Start\<close> returns and
  every one of those servers has decided exactly that value for the slot, has the mode stored under
  the path, and has every other key as before; whatever order the threads of the broadcasts take, and
  however many of the other servers are down.
\<close>
theorem proposal_reaches_everyone:
  assumes "rocks_ok E" "rocks_writes E" "null_str E = []" "fair_order E"
    and "net c = []" "node c a = Some s" "fast_leader seq s"
    and "smap_ok (paxos_stubs_map s)" "a \<in> set (smap_keys (paxos_stubs_map s))"
    and "\<forall>b \<in> set (smap_keys (paxos_stubs_map s)). \<forall>t. node c b = Some t \<longrightarrow> ready seq t"
    and "CHR ''#'' \<notin> set path"
  shows "\<exists>c'. Start E c a seq (put_string path mode) = Done c' \<and>
     (\<forall>b \<in> set (smap_keys (paxos_stubs_map s)). \<forall>t. node c b = Some t \<longrightarrow>
        (\<exists>t'. node c' b = Some t' \<and> decided t' seq = Some (put_string path mode) \<and>
           store E (paxos_db t') = (store E (paxos_db t))(path \<mapsto> mode)))"
proof -
  have "getKeyValue (put_string path mode) = Inr (path, mode)"
    using assms(11) by (rule getKeyValue_put_string)
  from fresh_proposal_running [OF assms(1-10) this] show ?thesis by blast
qed

lemma proposal_reaches_everyone_witness:
  "\<exists>c' t'. Start mem_env (kill_node ''127.0.0.1:50052'' sample_cell) ''127.0.0.1:50051'' 1
       (put_string ''a'' ''SHARED'') = Done c' \<and>
     node c' ''127.0.0.1:50053'' = Some t' \<and> store mem_env (paxos_db t') ''a'' = Some ''SHARED''"
proof -
  let ?c = "kill_node ''127.0.0.1:50052'' sample_cell"
  have keys: "set (smap_keys (paxos_stubs_map (sample_server 0))) =
      {''127.0.0.1:50051'', ''127.0.0.1:50052'', ''127.0.0.1:50053''}"
    by (simp add: smap_keys_def)
  have "smap_ok (paxos_stubs_map (sample_server 0))" by (simp add: smap_ok_def)
  with proposal_reaches_everyone [of mem_env ?c "''127.0.0.1:50051''" "sample_server 0" 1 "''a''" "''SHARED''"]
  show ?thesis unfolding keys by auto
qed

text \<open>
  No majority is needed.  When every other server is in a higher view, all of them refuse the
  leader's \<open>Accept\<close> and only the leader itself accepts, at most half of the cell; \<open>Start\<close> sends
  \<open>Learn\<close> all the same, and every server decides the value that the majority has refused.
\<close>
theorem decides_without_majority:
  assumes "rocks_ok E" "rocks_writes E" "null_str E = []" "fair_order E"
    and "net c = []" "node c a = Some s" "fast_leader seq s"
    and "smap_ok (paxos_stubs_map s)" "a \<in> set (smap_keys (paxos_stubs_map s))"
    and "\<forall>b \<in> set (smap_keys (paxos_stubs_map s)). \<exists>t. node c b = Some t \<and> ready seq t"
    and "getKeyValue v = Inr (key, val)"
    and "\<forall>b \<in> set (smap_keys (paxos_stubs_map s)) - {a}. \<exists>t. node c b = Some t \<and> view s < view t"
    and "2 \<le> length (smap_keys (paxos_stubs_map s))"
  shows "\<exists>st c1 c'.
     accept_loop E a seq (view s) v (run_order E (smap_keys (paxos_stubs_map s))) acc_init
       (put_node a (snd (addSlots s seq)) c) = Inr (st, c1) \<and>
     2 * a_majority st \<le> int (length (smap_keys (paxos_stubs_map s))) \<and>
     Start E c a seq v = Done c' \<and>
     (\<forall>b \<in> set (smap_keys (paxos_stubs_map s)). \<exists>t'. node c' b = Some t' \<and> decided t' seq = Some v)"
proof -
  let ?keys = "smap_keys (paxos_stubs_map s)"
  let ?order = "run_order E ?keys"
  have order: "set ?order = set ?keys" "distinct ?order"
    using assms(4) distinct_smap_keys [OF assms(8)] by (auto simp: fair_order_def)
  have run: "\<forall>b \<in> set ?keys. \<forall>t. node c b = Some t \<longrightarrow> ready seq t" using assms(10) by force
  have eq: "node c b \<noteq> None \<and> view (the (node c b)) \<le> view s \<longleftrightarrow> b = a" if "b \<in> set ?order" for b
    using that assms(6,12) order(1) by force
  have "filter (\<lambda>b. node c b \<noteq> None \<and> view (the (node c b)) \<le> view s) ?order = filter (\<lambda>b. b = a) ?order"
    using eq by (rule filter_cong [OF refl])
  moreover have "length (filter (\<lambda>b. b = a) ?order) \<le> 1"
    using order(2) by (rule length_filter_eq)
  ultimately have one: "length (filter (\<lambda>b. node c b \<noteq> None \<and> view (the (node c b)) \<le> view s) ?order) \<le> 1" by simp
  obtain st c1 c' where
    "accept_loop E a seq (view s) v ?order acc_init (put_node a (snd (addSlots s seq)) c) = Inr (st, c1)"
    "a_majority st = int (length (filter (\<lambda>b. node c b \<noteq> None \<and> view (the (node c b)) \<le> view s) ?order))"
    "Start E c a seq v = Done c'"
    "\<forall>b \<in> set ?keys. \<forall>t. node c b = Some t \<longrightarrow> (\<exists>t'. node c' b = Some t' \<and> decided t' seq = Some v)"
    using fresh_proposal_running [OF assms(1-9) run assms(11)] by blast
  moreover have "2 * int (length (filter (\<lambda>b. node c b \<noteq> None \<and> view (the (node c b)) \<le> view s) ?order))
      \<le> int (length ?keys)" using one assms(13) by linarith
  moreover have "\<exists>t'. node c' b = Some t' \<and> decided t' seq = Some v" if "b \<in> set ?keys" for b
    using calculation(4) assms(10) that by (meson option.sel)
  ultimately show ?thesis by auto
qed

definition ahead_cell :: "(string \<times> string) list cluster" where
  "ahead_cell =
     \<lparr>nodes = [(''127.0.0.1:50051'', sample_server 0), (''127.0.0.1:50052'', (sample_server 1)\<lparr>view := 1\<rparr>),
               (''127.0.0.1:50053'', (sample_server 2)\<lparr>view := 1\<rparr>)], net = []\<rparr>"

lemma ahead_cell_sel [simp]: "net ahead_cell = []"
  "node ahead_cell ''127.0.0.1:50051'' = Some (sample_server 0)"
  "node ahead_cell ''127.0.0.1:50052'' = Some ((sample_server 1)\<lparr>view := 1\<rparr>)"
  "node ahead_cell ''127.0.0.1:50053'' = Some ((sample_server 2)\<lparr>view := 1\<rparr>)"
  by (simp_all add: ahead_cell_def node_def)

lemma ready_view [simp]: "ready q (s\<lparr>view := i\<rparr>) = ready q s"
  by (simp add: ready_def can_enter_def done_me_def decided_def get_slot_def)

lemma decides_without_majority_witness:
  "\<exists>c' t'. Start mem_env ahead_cell ''127.0.0.1:50051'' 1 ''a#SHARED'' = Done c' \<and>
     node c' ''127.0.0.1:50053'' = Some t' \<and> decided t' 1 = Some ''a#SHARED''"
  using decides_without_majority [of mem_env ahead_cell "''127.0.0.1:50051''" "sample_server 0" 1
      "''a#SHARED''" "''a''" "''SHARED''"]
  by (auto simp: smap_ok_def smap_keys_def getKeyValue_Inr_iff)

text \<open>
  C38: a proposal made at a follower never returns.  \<open>StartOnForward\<close> keeps the follower's \<open>mu\<close>
  while it waits for \<open>ForwardLeader\<close>; the leader's broadcast of \<open>Accept\<close> needs that mutex and waits
  for it, so that both servers wait for ever, on a network that delivers everything.
\<close>
theorem follower_proposal_deadlocks:
  assumes "net c = []" "f \<noteq> l"
    and "node c f = Some t" "can_enter t seq" "decided t seq = None" "is_dead t = 0"
    and "view t smod num_servers t \<noteq> me t" "leader_address t = l" "map_of (paxos_stubs_map t) l \<noteq> None"
    and "node c l = Some s" "can_enter s seq" "decided s seq = None" "fast_leader seq s"
    and "f \<in> set (run_order E (smap_keys (paxos_stubs_map s)))" "v \<noteq> []"
  shows "Start E c f seq v = Stuck"
  using assms by (rule forward_stuck)

lemma follower_proposal_deadlocks_witness:
  "Start mem_env sample_cell ''127.0.0.1:50052'' 1 ''a#SHARED'' = Stuck"
proof -
  have "leader_address (sample_server 1) = ''127.0.0.1:50051''"
    by (simp add: leader_address_def signed_modulo_int_def server_addr_literals)
  then show ?thesis
    using follower_proposal_deadlocks [of sample_cell "''127.0.0.1:50052''" "''127.0.0.1:50051''"
        "sample_server 1" 1 "sample_server 0" mem_env "''a#SHARED''"]
    by (simp add: can_enter_def signed_modulo_int_def smap_keys_def)
qed

text \<open>
  Two servers that have created a slot in the same view propose with the same number in it: the number
  depends on that view and not on the server.
\<close>

lemma same_numbers:
  assumes "get_slot s q = None" "get_slot t q = None" "view s = view t" "num_servers s = num_servers t"
  shows "next_n (slot_n (fst (addSlots s q))) (slot_highest_N (fst (addSlots s q))) (num_servers s) =
    next_n (slot_n (fst (addSlots t q))) (slot_highest_N (fst (addSlots t q))) (num_servers t)"
  using assms by (simp add: addSlots_slot)



end
