(* ===== verification/ChubbyServer.thy ===== *)
theory ChubbyServer
  imports ProposerRuns "HOL-Library.Product_Lexorder"
begin

text \<open>
  The lock service \<open>ChubbyImpl\<close> (src/src/server/server.cpp): the RPC handlers \<open>Ping\<close>, \<open>KeepAlive\<close>,
  \<open>AcquireLock\<close>, \<open>TryAcquireLock\<close> and \<open>ReleaseLock\<close>, the per-path mutexes \<open>KeyLock\<close>, one pass
  of the lease checker, and the construction of a server in \<open>RunServer\<close>.

  A cell is the Paxos cluster together with the lock service of every server; both live in one
  process, so that a server whose Paxos side is gone is gone.  Times are nanoseconds of the steady
  clock, an argument of the operations that read it.  A handler runs alone, from its first line to
  its last; a \<open>KeepAlive\<close> is placed at the moment its wait ends.
\<close>

section \<open>The state\<close>

record chubby_impl =
  client_lock_map :: "(string \<times> string, unit) smap"
  client_lease_map :: "(string, int) smap"
  slot_number :: int
  lock_map :: "(string, bool) smap"
  chubby_stubs_map :: "(string, unit) smap"
  stop_lease_checker :: bool

record 'd cell =
  paxos :: "'d cluster"
  chubbies :: "(string, chubby_impl) smap"

text \<open>\<open>server_at x a\<close>: both halves of the process that listens at \<open>a\<close>.\<close>

definition server_at :: "'d cell \<Rightarrow> string \<Rightarrow> ('d paxos_impl \<times> chubby_impl) option" where
  "server_at x a =
     (case node (paxos x) a of
        None \<Rightarrow> None
      | Some s \<Rightarrow> map_option (Pair s) (map_of (chubbies x) a))"

definition put_chubby :: "string \<Rightarrow> chubby_impl \<Rightarrow> 'd cell \<Rightarrow> 'd cell" where
  "put_chubby a ch x = x\<lparr>chubbies := smap_put a ch (chubbies x)\<rparr>"

definition kill_server :: "string \<Rightarrow> 'd cell \<Rightarrow> 'd cell" where
  "kill_server a x = \<lparr>paxos = kill_node a (paxos x), chubbies = smap_erase a (chubbies x)\<rparr>"

text \<open>The stubs of the lock services, one per port of the Paxos server's range.\<close>

definition chubby_InitializeServerStubs :: "'d paxos_impl \<Rightarrow> (string, unit) smap" where
  "chubby_InitializeServerStubs s = InitializeServerStubs (first_port s) (last_port s)"

declare chubby_InitializeServerStubs_def [simp]

text \<open>
  The constructor.  \<open>slot_number\<close> and \<open>stop_lease_checker\<close> are atomics without an initializer:
  they hold what the storage \<open>raw\<close> holds.
\<close>

definition ChubbyImpl_new :: "chubby_impl \<Rightarrow> 'd paxos_impl \<Rightarrow> chubby_impl" where
  "ChubbyImpl_new raw s =
     raw\<lparr>client_lock_map := [], client_lease_map := [], lock_map := [],
         chubby_stubs_map := chubby_InitializeServerStubs s\<rparr>"

text \<open>
  \<open>RunServer\<close> up to the start of the server: \<open>find\<close> of a missing colon is \<open>npos\<close>, and
  \<open>npos + 1\<close> is \<open>0\<close>.
\<close>

definition RunServer ::
  "'d env \<Rightarrow> 'd paxos_impl \<Rightarrow> chubby_impl \<Rightarrow> int \<Rightarrow> string \<Rightarrow> exn + 'd paxos_impl \<times> chubby_impl" where
  "RunServer E raw_paxos raw gs addr =
     (case stoi (case find_char CHR '':'' addr of None \<Rightarrow> addr | Some p \<Rightarrow> drop (p + 1) addr) of
        Inl e \<Rightarrow> Inl e
      | Inr host_port \<Rightarrow>
          (case PaxosImpl_new E raw_paxos gs (''db_'' @ to_string host_port) addr of
             Inl e \<Rightarrow> Inl e
           | Inr s \<Rightarrow> Inr (s, ChubbyImpl_new raw s)))"

text \<open>
  \<open>main\<close>, with \<open>argv\<close> as a list: when one argument is given and no second one, \<open>argv[2]\<close> is the null
  pointer that ends the array, and \<open>atoi\<close> reads it.
\<close>

definition main_arguments :: "string list \<Rightarrow> exn + string \<times> int" where
  "main_arguments argv =
     (if 1 < length argv then
        (if length argv = 2 then Inl Null_pointer
         else (case atoi (argv ! 2) of Inl x \<Rightarrow> Inl x | Inr gs \<Rightarrow> Inr (argv ! 1, gs)))
      else Inr (''127.0.0.1:50051'', 3))"

definition server_main ::
  "'d env \<Rightarrow> 'd paxos_impl \<Rightarrow> chubby_impl \<Rightarrow> string list \<Rightarrow> exn + 'd paxos_impl \<times> chubby_impl" where
  "server_main E raw_paxos raw argv =
     (case main_arguments argv of
        Inl x \<Rightarrow> Inl x
      | Inr (addr, gs) \<Rightarrow> RunServer E raw_paxos raw gs addr)"

section \<open>KeyLock\<close>

text \<open>\<open>None\<close>: the mutex of the key is held and the caller waits.\<close>

definition KeyLock_lock :: "string \<Rightarrow> (string, bool) smap \<Rightarrow> (string, bool) smap option" where
  "KeyLock_lock key m =
     (case map_of m key of
        Some True \<Rightarrow> None
      | _ \<Rightarrow> Some (smap_put key True m))"

definition KeyLock_unlock :: "string \<Rightarrow> (string, bool) smap \<Rightarrow> (string, bool) smap" where
  "KeyLock_unlock key m = smap_put key False m"

definition lock_key :: "string \<Rightarrow> string \<Rightarrow> 'd cell \<Rightarrow> 'd cell option" where
  "lock_key a key x =
     (case map_of (chubbies x) a of
        None \<Rightarrow> None
      | Some ch \<Rightarrow>
          map_option (\<lambda>m. put_chubby a (ch\<lparr>lock_map := m\<rparr>) x) (KeyLock_lock key (lock_map ch)))"

definition upd_chubby :: "string \<Rightarrow> (chubby_impl \<Rightarrow> chubby_impl) \<Rightarrow> 'd cell \<Rightarrow> 'd cell" where
  "upd_chubby a f x =
     (case map_of (chubbies x) a of None \<Rightarrow> x | Some ch \<Rightarrow> put_chubby a (f ch) x)"

definition unlock_key :: "string \<Rightarrow> string \<Rightarrow> 'd cell \<Rightarrow> 'd cell" where
  "unlock_key a key = upd_chubby a (\<lambda>ch. ch\<lparr>lock_map := KeyLock_unlock key (lock_map ch)\<rparr>)"

section \<open>Put and Get\<close>

text \<open>
  \<open>Put\<close> proposes \<open>path#mode\<close> in the slot that \<open>slot_number\<close> names at that moment.  Neither it
  nor its callers learn which value the slot has got.
\<close>

definition with_paxos :: "'d cell \<Rightarrow> 'd cluster \<Rightarrow> 'd cell" where
  "with_paxos x c =
     \<lparr>paxos = c, chubbies = filter (\<lambda>(b, ch). node c b \<noteq> None) (chubbies x)\<rparr>"

definition Put :: "'d env \<Rightarrow> 'd cell \<Rightarrow> string \<Rightarrow> string \<Rightarrow> string \<Rightarrow> 'd cell outcome" where
  "Put E x a path locking_mode =
     (case map_of (chubbies x) a of
        None \<Rightarrow> Done x
      | Some ch \<Rightarrow>
          map_outcome (with_paxos x)
            (Start E (paxos x) a (slot_number ch) (put_string path locking_mode)))"

definition Get :: "'d env \<Rightarrow> 'd paxos_impl \<Rightarrow> string \<Rightarrow> bool \<times> string" where
  "Get E s path = RocksDB_Get E (paxos_db s) path ''''"

section \<open>Forwarding\<close>

text \<open>
  A server that takes its leader for dead calls the same RPC on the address of the leader of its
  view.  \<open>No_stub\<close>: that address is not in the table, \<open>operator[]\<close> returns a null pointer and
  the process dies of its dereference.
\<close>

datatype 'd hop = No_stub | No_answer "'d cell" | Answers string bool "'d cell"

definition forward_hop :: "'d cell \<Rightarrow> 'd paxos_impl \<Rightarrow> chubby_impl \<Rightarrow> 'd hop" where
  "forward_hop x s ch =
     (if map_of (chubby_stubs_map ch) (leader_address s) = None then No_stub
      else
        (case next_fate (paxos x) of
           (fate, c0) \<Rightarrow>
             (let x0 = x\<lparr>paxos := c0\<rparr> in
              if fate = Lost \<or> server_at x0 (leader_address s) = None then No_answer x0
              else Answers (leader_address s) (fate \<noteq> Reply_lost) x0)))"

text \<open>What the response object holds after the forwarded call: a failed call leaves it alone.\<close>

definition response_of :: "bool \<Rightarrow> 'r result \<Rightarrow> 'r \<Rightarrow> 'r" where
  "response_of delivered r untouched =
     (case r of Ok x \<Rightarrow> if delivered then x else untouched | _ \<Rightarrow> untouched)"

section \<open>AcquireLock\<close>

record lock_request =
  lq_client_id :: string
  lq_path :: string
  lq_locking_mode :: string

record lock_response =
  lr_success :: bool
  lr_error_message :: string
  lr_current_leader :: string

definition no_response :: lock_response where
  "no_response = \<lparr>lr_success = False, lr_error_message = '''', lr_current_leader = ''''\<rparr>"

definition refuse :: "string \<Rightarrow> lock_response \<Rightarrow> 'd cell \<Rightarrow> (lock_response \<times> 'd cell) outcome" where
  "refuse msg resp x = Done (resp\<lparr>lr_success := False, lr_error_message := msg\<rparr>, x)"

text \<open>The lock is given: written to the store or not, entered in the map, success reported.\<close>

definition grant ::
  "'d env \<Rightarrow> bool \<Rightarrow> 'd cell \<Rightarrow> string \<Rightarrow> lock_request \<Rightarrow> lock_response \<Rightarrow>
   (lock_response \<times> 'd cell) outcome" where
  "grant E write x a req resp =
     map_outcome
       (\<lambda>x'. (resp\<lparr>lr_success := True, lr_error_message := ''NO_ERROR''\<rparr>,
              upd_chubby a (\<lambda>ch. ch\<lparr>client_lock_map :=
                smap_put (lq_path req, lq_client_id req) () (client_lock_map ch)\<rparr>) x'))
       (if write then Put E x a (lq_path req) (lq_locking_mode req) else Done x)"

text \<open>From the check of the session on; a mode or a stored value that is none of the known ones
  falls through and leaves the response as it is.\<close>

definition AcquireLock_decide ::
  "'d env \<Rightarrow> 'd cell \<Rightarrow> string \<Rightarrow> 'd paxos_impl \<Rightarrow> chubby_impl \<Rightarrow> lock_request \<Rightarrow> lock_response \<Rightarrow>
   (lock_response \<times> 'd cell) outcome" where
  "AcquireLock_decide E x a s ch req resp =
     (if map_of (client_lease_map ch) (lq_client_id req) = None
      then refuse ''NO_CLIENT_SESSION'' resp x
      else
        (case Get E s (lq_path req) of
           (key_found, val) \<Rightarrow>
             if key_found then
               (if lq_locking_mode req = ''SHARED'' then
                  (if val = ''FREE'' then grant E True x a req resp
                   else if val = ''SHARED'' then grant E False x a req resp
                   else if val = ''EXCLUSIVE'' then refuse ''EXCLUSIVE_LOCK_HELD'' resp x
                   else Done (resp, x))
                else if lq_locking_mode req = ''EXCLUSIVE'' then
                  (if val = ''FREE'' then grant E True x a req resp
                   else if val = ''SHARED'' then refuse ''SHARED_LOCK_HELD'' resp x
                   else if val = ''EXCLUSIVE'' then refuse ''EXCLUSIVE_LOCK_HELD'' resp x
                   else Done (resp, x))
                else Done (resp, x))
             else grant E True x a req resp))"

text \<open>The end of the two lock handlers: report the leader, unlock the path.\<close>

definition finish_lock ::
  "string \<Rightarrow> string \<Rightarrow> 'd cell \<Rightarrow> (lock_response \<times> 'd cell) outcome \<Rightarrow> lock_response result \<times> 'd cell" where
  "finish_lock a path x out =
     (case out of
        Done (r, x1) \<Rightarrow>
          (case node (paxos x1) a of
             None \<Rightarrow> (Error UNAVAILABLE, x1)
           | Some s \<Rightarrow> (Ok (r\<lparr>lr_current_leader := leader_address s\<rparr>), unlock_key a path x1))
      | Thrown e (r, x1) \<Rightarrow> (Raise e, x1)
      | Died (r, x1) \<Rightarrow> (Error UNAVAILABLE, x1)
      | Stuck \<Rightarrow> (Blocked, x)
      | Out_of_fuel \<Rightarrow> (Blocked, x))"

text \<open>From \<open>key_lock.lock\<close> to the end.\<close>

definition AcquireLock_local ::
  "'d env \<Rightarrow> 'd cell \<Rightarrow> string \<Rightarrow> lock_request \<Rightarrow> lock_response \<Rightarrow> lock_response result \<times> 'd cell" where
  "AcquireLock_local E x a req resp =
     (case lock_key a (lq_path req) x of
        None \<Rightarrow> (Blocked, x)
      | Some x1 \<Rightarrow>
          (let x2 = upd_chubby a (\<lambda>ch. ch\<lparr>slot_number := to_int32 (slot_number ch + 1)\<rparr>) x1 in
           case server_at x2 a of
             None \<Rightarrow> (Error UNAVAILABLE, x2)
           | Some (s, ch) \<Rightarrow>
               finish_lock a (lq_path req) x2 (AcquireLock_decide E x2 a s ch req resp)))"

text \<open>\<open>None\<close>: the servers forward the call in a circle and it never returns.\<close>

partial_function (option) AcquireLock ::
  "'d env \<Rightarrow> 'd cell \<Rightarrow> string \<Rightarrow> lock_request \<Rightarrow> (lock_response result \<times> 'd cell) option" where
  "AcquireLock E x a req =
     (case server_at x a of
        None \<Rightarrow> Some (Error UNAVAILABLE, x)
      | Some (s, ch) \<Rightarrow>
          if leader_election_happened s then Some (Error ABORTED, x)
          else if leader_dead s then
            (case forward_hop x s ch of
               No_stub \<Rightarrow> Some (Error UNAVAILABLE, kill_server a x)
             | No_answer x0 \<Rightarrow> Some (AcquireLock_local E x0 a req no_response)
             | Answers b delivered x0 \<Rightarrow>
                 Option.bind (AcquireLock E x0 b req)
                   (\<lambda>(r, x1). Some (if r = Blocked then (Blocked, x1)
                     else AcquireLock_local E x1 a req (response_of delivered r no_response))))
          else Some (AcquireLock_local E x a req no_response))"

declare AcquireLock.simps [code]

section \<open>ReleaseLock\<close>

text \<open>The client of the request is not checked: whoever asks, the lock becomes free.\<close>

definition ReleaseLock_decide ::
  "'d env \<Rightarrow> 'd cell \<Rightarrow> string \<Rightarrow> 'd paxos_impl \<Rightarrow> lock_request \<Rightarrow> lock_response \<Rightarrow>
   (lock_response \<times> 'd cell) outcome" where
  "ReleaseLock_decide E x a s req resp =
     (case Get E s (lq_path req) of
        (key_found, val) \<Rightarrow>
          if key_found then
            (if val = ''FREE'' then refuse ''TRYING_TO_RELEASE_UNACQUIRED_LOCK'' resp x
             else if val = ''SHARED'' \<or> val = ''EXCLUSIVE'' then
               map_outcome
                 (\<lambda>x'. (resp\<lparr>lr_success := True, lr_error_message := ''NO_ERROR''\<rparr>,
                        upd_chubby a (\<lambda>ch. ch\<lparr>client_lock_map :=
                          smap_erase (lq_path req, lq_client_id req) (client_lock_map ch)\<rparr>) x'))
                 (Put E x a (lq_path req) ''FREE'')
             else Done (resp, x))
          else refuse ''TRYING_TO_RELEASE_UNACQUIRED_LOCK'' resp x)"

definition ReleaseLock_local ::
  "'d env \<Rightarrow> 'd cell \<Rightarrow> string \<Rightarrow> lock_request \<Rightarrow> lock_response \<Rightarrow> lock_response result \<times> 'd cell" where
  "ReleaseLock_local E x a req resp =
     (case lock_key a (lq_path req) x of
        None \<Rightarrow> (Blocked, x)
      | Some x1 \<Rightarrow>
          (case server_at x1 a of
             None \<Rightarrow> (Error UNAVAILABLE, x1)
           | Some (s, ch) \<Rightarrow>
               finish_lock a (lq_path req) x1 (ReleaseLock_decide E x1 a s req resp)))"

partial_function (option) ReleaseLock ::
  "'d env \<Rightarrow> 'd cell \<Rightarrow> string \<Rightarrow> lock_request \<Rightarrow> (lock_response result \<times> 'd cell) option" where
  "ReleaseLock E x a req =
     (case server_at x a of
        None \<Rightarrow> Some (Error UNAVAILABLE, x)
      | Some (s, ch) \<Rightarrow>
          if leader_election_happened s then Some (Error ABORTED, x)
          else if leader_dead s then
            (case forward_hop x s ch of
               No_stub \<Rightarrow> Some (Error UNAVAILABLE, kill_server a x)
             | No_answer x0 \<Rightarrow> Some (ReleaseLock_local E x0 a req no_response)
             | Answers b delivered x0 \<Rightarrow>
                 Option.bind (ReleaseLock E x0 b req)
                   (\<lambda>(r, x1). Some (if r = Blocked then (Blocked, x1)
                     else ReleaseLock_local E x1 a req (response_of delivered r no_response))))
          else Some (ReleaseLock_local E x a req no_response))"

declare ReleaseLock.simps [code]

section \<open>TryAcquireLock and Ping\<close>

record try_response =
  tr_success :: bool
  tr_error_message :: string

partial_function (option) TryAcquireLock ::
  "'d cell \<Rightarrow> string \<Rightarrow> (try_response result \<times> 'd cell) option" where
  "TryAcquireLock x a =
     (case server_at x a of
        None \<Rightarrow> Some (Error UNAVAILABLE, x)
      | Some (s, ch) \<Rightarrow>
          if leader_dead s then
            (case forward_hop x s ch of
               No_stub \<Rightarrow> Some (Error UNAVAILABLE, kill_server a x)
             | No_answer x0 \<Rightarrow> Some (Ok \<lparr>tr_success = False, tr_error_message = ''''\<rparr>, x0)
             | Answers b delivered x0 \<Rightarrow>
                 Option.bind (TryAcquireLock x0 b)
                   (\<lambda>(r, x1). Some (if r = Blocked then (Blocked, x1)
                     else (Ok (response_of delivered r
                                 \<lparr>tr_success = False, tr_error_message = ''''\<rparr>), x1))))
          else Some (Ok \<lparr>tr_success = False, tr_error_message = ''''\<rparr>, x))"

declare TryAcquireLock.simps [code]

definition Ping :: "'d cell \<Rightarrow> string \<Rightarrow> unit result \<times> 'd cell" where
  "Ping x a = (if server_at x a = None then (Error UNAVAILABLE, x) else (Ok (), x))"

section \<open>Sessions\<close>

definition second :: int where "second = 1000000000"

text \<open>\<open>lease_timeout\<close>, 12 seconds.\<close>

definition lease_timeout :: int where "lease_timeout = 12 * second"

record keepalive_response =
  kr_success :: bool
  kr_lease_timeout :: int
  kr_epoch_number :: int
  kr_error_message :: string

definition lease_of :: "chubby_impl \<Rightarrow> string \<Rightarrow> int" where
  "lease_of ch client_id =
     (case map_of (client_lease_map ch) client_id of None \<Rightarrow> 0 | Some t \<Rightarrow> t)"

text \<open>
  The wait of \<open>KeepAlive\<close> ends at a time \<open>wake\<close> that is not before the deadline, a tenth of a
  second before the lease runs out; a client without a lease reads the default \<open>0\<close>.
\<close>

definition wait_over :: "chubby_impl \<Rightarrow> string \<Rightarrow> int \<Rightarrow> bool" where
  "wait_over ch client_id wake \<longleftrightarrow> lease_of ch client_id - second div 10 \<le> wake"

definition KeepAlive_local ::
  "'d cell \<Rightarrow> string \<Rightarrow> string \<Rightarrow> int \<Rightarrow> keepalive_response result \<times> 'd cell" where
  "KeepAlive_local x a client_id wake =
     (case server_at x a of
        None \<Rightarrow> (Error UNAVAILABLE, x)
      | Some (s, ch) \<Rightarrow>
          (Ok \<lparr>kr_success = True, kr_lease_timeout = ((wake + lease_timeout) div second) mod 2 ^ 64,
               kr_epoch_number = to_uint32 (view s), kr_error_message = ''''\<rparr>,
           put_chubby a
             (ch\<lparr>client_lease_map := smap_put client_id (wake + lease_timeout) (client_lease_map ch)\<rparr>) x))"

text \<open>\<open>wake\<close> gives, for every server that serves the call, the time at which its wait ends.\<close>

partial_function (option) KeepAlive ::
  "'d cell \<Rightarrow> string \<Rightarrow> string \<Rightarrow> (string \<Rightarrow> int) \<Rightarrow> (keepalive_response result \<times> 'd cell) option" where
  "KeepAlive x a client_id wake =
     (case server_at x a of
        None \<Rightarrow> Some (Error UNAVAILABLE, x)
      | Some (s, ch) \<Rightarrow>
          if leader_dead s then
            (case forward_hop x s ch of
               No_stub \<Rightarrow> Some (Error UNAVAILABLE, kill_server a x)
             | No_answer x0 \<Rightarrow> Some (Error ABORTED, x0)
             | Answers b delivered x0 \<Rightarrow>
                 Option.bind (KeepAlive x0 b client_id wake)
                   (\<lambda>(r, x1). Some (if r = Blocked then (Blocked, x1)
                     else if is_Ok r \<and> delivered then KeepAlive_local x1 a client_id (wake a)
                     else (Error ABORTED, x1))))
          else Some (KeepAlive_local x a client_id (wake a)))"

declare KeepAlive.simps [code]

text \<open>
  \<open>ReleaseLocksForClient\<close>, without taking the entries out of \<open>client_lock_map\<close>.  The result
  says how the checker thread ends.
\<close>

definition locked_keys :: "string \<Rightarrow> chubby_impl \<Rightarrow> string list" where
  "locked_keys client_id ch =
     map (\<lambda>(entry, u). fst entry) (filter (\<lambda>(entry, u). snd entry = client_id) (client_lock_map ch))"

fun release_keys :: "'d env \<Rightarrow> string \<Rightarrow> string list \<Rightarrow> 'd cell \<Rightarrow> 'd cell outcome" where
  "release_keys E a [] x = Done x"
| "release_keys E a (key # keys) x =
     (case lock_key a key x of
        None \<Rightarrow> Stuck
      | Some x1 \<Rightarrow>
          (case server_at x1 a of
             None \<Rightarrow> Done x1
           | Some (s, ch) \<Rightarrow>
               (case Get E s key of
                  (key_found, val) \<Rightarrow>
                    (case (if key_found \<and> (val = ''SHARED'' \<or> val = ''EXCLUSIVE'')
                           then Put E x1 a key ''FREE'' else Done x1) of
                       Done x2 \<Rightarrow> release_keys E a keys (unlock_key a key x2)
                     | out \<Rightarrow> out))))"

definition ReleaseLocksForClient :: "'d env \<Rightarrow> 'd cell \<Rightarrow> string \<Rightarrow> string \<Rightarrow> 'd cell outcome" where
  "ReleaseLocksForClient E x a client_id =
     (case map_of (chubbies x) a of
        None \<Rightarrow> Done x
      | Some ch \<Rightarrow> release_keys E a (locked_keys client_id ch) x)"

fun release_clients :: "'d env \<Rightarrow> string \<Rightarrow> string list \<Rightarrow> 'd cell \<Rightarrow> 'd cell outcome" where
  "release_clients E a [] x = Done x"
| "release_clients E a (c # cs) x =
     (case ReleaseLocksForClient E x a c of
        Done x1 \<Rightarrow> release_clients E a cs x1
      | out \<Rightarrow> out)"

text \<open>
  One pass of \<open>CheckAndExpireLeases\<close> at time \<open>now\<close>; \<open>table_order\<close> is the order in which the
  hash table iterates over its keys.
\<close>

definition expired_clients :: "(string list \<Rightarrow> string list) \<Rightarrow> int \<Rightarrow> chubby_impl \<Rightarrow> string list" where
  "expired_clients table_order now ch =
     filter (\<lambda>c. lease_of ch c \<le> now) (table_order (smap_keys (client_lease_map ch)))"

definition CheckAndExpireLeases ::
  "'d env \<Rightarrow> (string list \<Rightarrow> string list) \<Rightarrow> 'd cell \<Rightarrow> string \<Rightarrow> int \<Rightarrow> 'd cell outcome" where
  "CheckAndExpireLeases E table_order x a now =
     (case map_of (chubbies x) a of
        None \<Rightarrow> Done x
      | Some ch \<Rightarrow>
          if stop_lease_checker ch then Done x
          else
            (let expired = expired_clients table_order now ch in
             release_clients E a expired
               (put_chubby a (ch\<lparr>client_lease_map := foldl (\<lambda>m c. smap_erase c m)
                                                    (client_lease_map ch) expired\<rparr>) x)))"

section \<open>What the handlers do on one server\<close>

text \<open>What returns has been computed: induction over the forwarded calls.\<close>

lemmas AcquireLock_induct =
  AcquireLock.raw_induct [where xa = "(((E, x), a), req)" for E x a req, unfolded prod.case]

lemmas ReleaseLock_induct =
  ReleaseLock.raw_induct [where xa = "(((E, x), a), req)" for E x a req, unfolded prod.case]

lemmas TryAcquireLock_induct =
  TryAcquireLock.raw_induct [where xa = "(x, a)" for x a, unfolded prod.case]

lemmas KeepAlive_induct =
  KeepAlive.raw_induct [where xa = "(((x, a), client_id), wake)" for x a client_id wake, unfolded prod.case]

lemma paxos_put_chubby [simp]: "paxos (put_chubby a ch x) = paxos x"
  by (simp add: put_chubby_def)

lemma chubbies_put_chubby [simp]:
  "map_of (chubbies (put_chubby a ch x)) = (map_of (chubbies x))(a \<mapsto> ch)"
  by (simp add: put_chubby_def)

lemma put_chubby_twice [simp]: "put_chubby a ch (put_chubby a ch' x) = put_chubby a ch x"
  by (simp add: put_chubby_def)

lemma upd_chubby_Some: "map_of (chubbies x) a = Some ch \<Longrightarrow> upd_chubby a f x = put_chubby a (f ch) x"
  by (simp add: upd_chubby_def)

lemma paxos_upd_chubby [simp]: "paxos (upd_chubby a f x) = paxos x"
  by (simp add: upd_chubby_def split: option.split)

lemma map_of_with_paxos [simp]:
  "map_of (chubbies (with_paxos x c)) a = (if node c a = None then None else map_of (chubbies x) a)"
  by (simp add: with_paxos_def map_of_filter_keys)

lemma paxos_with_paxos [simp]: "paxos (with_paxos x c) = c"
  by (simp add: with_paxos_def)

lemma server_at_Some:
  "server_at x a = Some (s, ch) \<longleftrightarrow> node (paxos x) a = Some s \<and> map_of (chubbies x) a = Some ch"
  by (auto simp: server_at_def split: option.splits)

text \<open>The server at \<open>a\<close> serves the path itself: it trusts its leader, and the path's mutex is free.\<close>

definition serves :: "'d cell \<Rightarrow> string \<Rightarrow> 'd paxos_impl \<Rightarrow> chubby_impl \<Rightarrow> string \<Rightarrow> bool" where
  "serves x a s ch path \<longleftrightarrow>
     server_at x a = Some (s, ch) \<and> \<not> leader_election_happened s \<and> \<not> leader_dead s \<and>
     map_of (lock_map ch) path \<noteq> Some True"

definition locked :: "string \<Rightarrow> chubby_impl \<Rightarrow> chubby_impl" where
  "locked path ch = ch\<lparr>lock_map := smap_put path True (lock_map ch)\<rparr>"

definition next_slot :: "chubby_impl \<Rightarrow> chubby_impl" where
  "next_slot ch = ch\<lparr>slot_number := to_int32 (slot_number ch + 1)\<rparr>"

lemma locked_sel [simp]:
  "client_lock_map (locked path ch) = client_lock_map ch"
  "client_lease_map (locked path ch) = client_lease_map ch"
  "slot_number (locked path ch) = slot_number ch"
  "lock_map (locked path ch) = smap_put path True (lock_map ch)"
  "client_lock_map (next_slot ch) = client_lock_map ch"
  "client_lease_map (next_slot ch) = client_lease_map ch"
  "slot_number (next_slot ch) = to_int32 (slot_number ch + 1)"
  "lock_map (next_slot ch) = lock_map ch"
  by (simp_all add: locked_def next_slot_def)

lemma lock_key_serves:
  "serves x a s ch path \<Longrightarrow> lock_key a path x = Some (put_chubby a (locked path ch) x)"
  by (auto simp: serves_def lock_key_def server_at_Some KeyLock_lock_def locked_def
      split: option.split bool.split)

lemma serves_server: "serves x a s ch path \<Longrightarrow> server_at x a = Some (s, ch)"
  by (simp add: serves_def)

lemma server_at_put: "server_at x a = Some (s, ch) \<Longrightarrow> server_at (put_chubby a ch' x) a = Some (s, ch')"
  by (simp add: server_at_Some)

lemma AcquireLock_serves:
  assumes "serves x a s ch (lq_path req)"
  shows "AcquireLock E x a req =
    (let ch' = next_slot (locked (lq_path req) ch); x' = put_chubby a ch' x
     in Some (finish_lock a (lq_path req) x' (AcquireLock_decide E x' a s ch' req no_response)))"
proof -
  have "AcquireLock E x a req = Some (AcquireLock_local E x a req no_response)"
    using assms by (simp add: AcquireLock.simps serves_def)
  then show ?thesis
    using lock_key_serves [OF assms] server_at_put [OF serves_server [OF assms]]
    by (simp add: AcquireLock_local_def Let_def upd_chubby_Some next_slot_def)
qed

lemma ReleaseLock_serves:
  assumes "serves x a s ch (lq_path req)"
  shows "ReleaseLock E x a req =
    (let x' = put_chubby a (locked (lq_path req) ch) x
     in Some (finish_lock a (lq_path req) x' (ReleaseLock_decide E x' a s req no_response)))"
proof -
  have "ReleaseLock E x a req = Some (ReleaseLock_local E x a req no_response)"
    using assms by (simp add: ReleaseLock.simps serves_def)
  then show ?thesis
    using lock_key_serves [OF assms] server_at_put [OF serves_server [OF assms]]
    by (simp add: ReleaseLock_local_def Let_def)
qed

lemma Get_store: "Get E s path = (case store E (paxos_db s) path of None \<Rightarrow> (False, '''') | Some v \<Rightarrow> (True, v))"
  by (simp add: Get_def RocksDB_Get_store)

text \<open>The path's mutex is free again at the end.\<close>

definition unlocked :: "string \<Rightarrow> chubby_impl \<Rightarrow> chubby_impl" where
  "unlocked path ch = ch\<lparr>lock_map := smap_put path False (lock_map ch)\<rparr>"

lemma unlocked_sel [simp]:
  "client_lock_map (unlocked path ch) = client_lock_map ch"
  "client_lease_map (unlocked path ch) = client_lease_map ch"
  "slot_number (unlocked path ch) = slot_number ch"
  "map_of (lock_map (unlocked path ch)) path = Some False"
  by (simp_all add: unlocked_def)

lemma finish_lock_Done:
  assumes "node (paxos x1) a = Some s1" "map_of (chubbies x1) a = Some ch1"
  shows "finish_lock a path x (Done (r, x1)) =
    (Ok (r\<lparr>lr_current_leader := leader_address s1\<rparr>), put_chubby a (unlocked path ch1) x1)"
  using assms by (simp add: finish_lock_def unlock_key_def upd_chubby_Some KeyLock_unlock_def unlocked_def)

end
