(* ===== verification/Locks.thy ===== *)
theory Locks
  imports ChubbyServer
begin

text \<open>
  What the lock service promises and what it does not: locks that conflict are refused, a lock
  needs a session, a granted lock is stored on every server; but the slot in which a release is
  proposed is the slot of the acquisition before it, so that the release is lost, and nobody asks
  who releases.
\<close>

section \<open>Frames\<close>

text \<open>A proposal in a slot that is decided changes nothing but the slot's \<open>n_a\<close>.\<close>

lemma Start_decided:
  assumes "node c a = Some s" "\<not> mu_locked s" "lowest_slot s \<le> seq" "decided s seq \<noteq> None"
  shows "Start E c a seq v = Done (put_node a (snd (addSlots s seq)) c)"
  using assms by (simp add: Start_def call_depth_def Start_body_def case_prod_beta Let_def)

lemma Put_decided:
  assumes "server_at x a = Some (s, ch)" "\<not> mu_locked s" "lowest_slot s \<le> slot_number ch"
    and "decided s (slot_number ch) \<noteq> None"
  shows "Put E x a path mode =
     Done (with_paxos x (put_node a (snd (addSlots s (slot_number ch))) (paxos x)))"
proof -
  have s: "node (paxos x) a = Some s" "map_of (chubbies x) a = Some ch"
    using assms(1) by (simp_all add: server_at_Some)
  show ?thesis using Start_decided [OF s(1) assms(2-4)] s(2) by (simp add: Put_def)
qed

text \<open>
  The locks on paths that conflict: \<open>held\<close> is what the store has, \<open>mode\<close> what is asked for.
\<close>

definition conflict :: "string \<Rightarrow> string \<Rightarrow> bool" where
  "conflict held mode \<longleftrightarrow>
     held = ''EXCLUSIVE'' \<and> (mode = ''SHARED'' \<or> mode = ''EXCLUSIVE'') \<or>
     held = ''SHARED'' \<and> mode = ''EXCLUSIVE''"

definition sample_chubby :: chubby_impl where
  "sample_chubby =
     \<lparr>client_lock_map = [], client_lease_map = [(''7'', 12000000000)], slot_number = 0, lock_map = [],
      chubby_stubs_map = [(''127.0.0.1:50051'', ()), (''127.0.0.1:50052'', ()), (''127.0.0.1:50053'', ())],
      stop_lease_checker = False\<rparr>"

definition sample_locks :: "(string \<times> string) list cell" where
  "sample_locks =
     \<lparr>paxos = sample_cell,
      chubbies = [(''127.0.0.1:50051'', sample_chubby), (''127.0.0.1:50052'', sample_chubby),
                  (''127.0.0.1:50053'', sample_chubby)]\<rparr>"

text \<open>The same cell with a lock on the path \<open>a\<close>.\<close>

definition held_locks :: "string \<Rightarrow> (string \<times> string) list cell" where
  "held_locks held =
     sample_locks\<lparr>paxos := put_node ''127.0.0.1:50051''
       ((sample_server 0)\<lparr>paxos_db := \<lparr>db_handle = Some [(''a'', held)]\<rparr>\<rparr>) sample_cell\<rparr>"

definition sample_lock :: "string \<Rightarrow> string \<Rightarrow> lock_request" where
  "sample_lock client mode = \<lparr>lq_client_id = client, lq_path = ''a'', lq_locking_mode = mode\<rparr>"

lemma sample_chubby_sel [simp]:
  "client_lease_map sample_chubby = [(''7'', 12000000000)]" "slot_number sample_chubby = 0"
  "lock_map sample_chubby = []" "client_lock_map sample_chubby = []" "\<not> stop_lease_checker sample_chubby"
  by (simp_all add: sample_chubby_def)

lemma sample_lock_sel [simp]:
  "lq_client_id (sample_lock c mode) = c" "lq_path (sample_lock c mode) = ''a''"
  "lq_locking_mode (sample_lock c mode) = mode"
  by (simp_all add: sample_lock_def)

lemma serves_sample_locks [simp]:
  "serves sample_locks ''127.0.0.1:50051'' (sample_server 0) sample_chubby path"
  by (simp add: serves_def server_at_Some sample_locks_def)

lemma serves_held_locks [simp]:
  "serves (held_locks held) ''127.0.0.1:50051''
     ((sample_server 0)\<lparr>paxos_db := \<lparr>db_handle = Some [(''a'', held)]\<rparr>\<rparr>) sample_chubby path"
  by (simp add: serves_def server_at_Some held_locks_def sample_locks_def)

lemma paxos_sample_locks [simp]: "paxos sample_locks = sample_cell"
  by (simp add: sample_locks_def)

lemma conflicting_lock_refused_lemma:
  assumes "serves x a s ch (lq_path req)" "map_of (client_lease_map ch) (lq_client_id req) \<noteq> None"
    and "store E (paxos_db s) (lq_path req) = Some held" "conflict held (lq_locking_mode req)"
  shows "\<exists>x' ch'. AcquireLock E x a req =
      Some (Ok \<lparr>lr_success = False, lr_error_message = held @ ''_LOCK_HELD'',
                lr_current_leader = leader_address s\<rparr>, x') \<and>
    paxos x' = paxos x \<and> server_at x' a = Some (s, ch') \<and> client_lock_map ch' = client_lock_map ch \<and>
    map_of (lock_map ch') (lq_path req) = Some False"
proof -
  let ?ch = "next_slot (locked (lq_path req) ch)"
  let ?x = "put_chubby a ?ch x"
  have srv: "server_at ?x a = Some (s, ?ch)" using server_at_put [OF serves_server [OF assms(1)]] .
  then have n: "node (paxos ?x) a = Some s" "map_of (chubbies ?x) a = Some ?ch"
    by (simp_all add: server_at_Some)
  have dec: "AcquireLock_decide E ?x a s ?ch req no_response =
      refuse (held @ ''_LOCK_HELD'') no_response ?x"
    using assms(2-4) by (auto simp: AcquireLock_decide_def Get_store conflict_def)
  let ?x' = "put_chubby a (unlocked (lq_path req) ?ch) ?x"
  have "AcquireLock E x a req = Some (Ok \<lparr>lr_success = False, lr_error_message = held @ ''_LOCK_HELD'',
                lr_current_leader = leader_address s\<rparr>, ?x')"
    unfolding AcquireLock_serves [OF assms(1)] Let_def dec refuse_def finish_lock_Done [OF n]
    by (simp add: no_response_def)
  moreover have "server_at ?x' a = Some (s, unlocked (lq_path req) ?ch)" using srv by (rule server_at_put)
  ultimately show ?thesis by auto
qed

section \<open>Properties of AcquireLock\<close>

text \<open>
  C9: locks exclude each other.  A server that serves the path itself refuses a lock that conflicts
  with the mode its store has for the path, names that mode in the error, and changes neither the
  Paxos state of any server nor its table of locks; the mutex of the path is free again.
\<close>
theorem conflicting_lock_refused:
  assumes "serves x a s ch (lq_path req)" "map_of (client_lease_map ch) (lq_client_id req) \<noteq> None"
    and "store E (paxos_db s) (lq_path req) = Some held" "conflict held (lq_locking_mode req)"
  shows "\<exists>x' ch'. AcquireLock E x a req =
      Some (Ok \<lparr>lr_success = False, lr_error_message = held @ ''_LOCK_HELD'',
                lr_current_leader = leader_address s\<rparr>, x') \<and>
    paxos x' = paxos x \<and> server_at x' a = Some (s, ch') \<and> client_lock_map ch' = client_lock_map ch \<and>
    map_of (lock_map ch') (lq_path req) = Some False"
  using assms by (rule conflicting_lock_refused_lemma)

lemma conflicting_lock_refused_witness:
  "\<exists>x' l. AcquireLock mem_env (held_locks ''SHARED'') ''127.0.0.1:50051'' (sample_lock ''7'' ''EXCLUSIVE'') =
     Some (Ok \<lparr>lr_success = False, lr_error_message = ''SHARED_LOCK_HELD'', lr_current_leader = l\<rparr>, x')"
  using conflicting_lock_refused [OF serves_held_locks, of "sample_lock ''7'' ''EXCLUSIVE''" mem_env "''SHARED''" "''SHARED''"]
  by (auto simp: store_def conflict_def)

text \<open>
  A lock needs a session.  A client without a lease is refused with \<open>NO_CLIENT_SESSION\<close>,
  whatever it asks for, and nothing is proposed and no lock entered.
\<close>
theorem lock_needs_session:
  assumes "serves x a s ch (lq_path req)" "map_of (client_lease_map ch) (lq_client_id req) = None"
  shows "\<exists>x' ch'. AcquireLock E x a req =
      Some (Ok \<lparr>lr_success = False, lr_error_message = ''NO_CLIENT_SESSION'',
                lr_current_leader = leader_address s\<rparr>, x') \<and>
    paxos x' = paxos x \<and> server_at x' a = Some (s, ch') \<and> client_lock_map ch' = client_lock_map ch"
proof -
  let ?ch = "next_slot (locked (lq_path req) ch)"
  let ?x = "put_chubby a ?ch x"
  have srv: "server_at ?x a = Some (s, ?ch)" using server_at_put [OF serves_server [OF assms(1)]] .
  then have n: "node (paxos ?x) a = Some s" "map_of (chubbies ?x) a = Some ?ch"
    by (simp_all add: server_at_Some)
  let ?x' = "put_chubby a (unlocked (lq_path req) ?ch) ?x"
  have "AcquireLock E x a req = Some (Ok \<lparr>lr_success = False, lr_error_message = ''NO_CLIENT_SESSION'',
                lr_current_leader = leader_address s\<rparr>, ?x')"
    using AcquireLock_serves [OF assms(1), of E] finish_lock_Done [OF n] assms(2)
    by (simp add: AcquireLock_decide_def refuse_def Let_def no_response_def)
  moreover have "server_at ?x' a = Some (s, unlocked (lq_path req) ?ch)" using srv by (rule server_at_put)
  ultimately show ?thesis by auto
qed

lemma lock_needs_session_witness:
  "\<exists>x' l. AcquireLock mem_env sample_locks ''127.0.0.1:50051'' (sample_lock ''8'' ''SHARED'') =
     Some (Ok \<lparr>lr_success = False, lr_error_message = ''NO_CLIENT_SESSION'', lr_current_leader = l\<rparr>, x')"
  using lock_needs_session [OF serves_sample_locks, of "sample_lock ''8'' ''SHARED''" mem_env] by auto

section \<open>A granted lock\<close>

text \<open>
  A server that can give a lock: it serves the path itself, leads its view, the slot it would use
  next is fresh on every server of its table that runs, and the network delivers.
\<close>

definition can_grant :: "'d env \<Rightarrow> 'd cell \<Rightarrow> string \<Rightarrow> 'd paxos_impl \<Rightarrow> chubby_impl \<Rightarrow> string \<Rightarrow> bool" where
  "can_grant E x a s ch path \<longleftrightarrow>
     rocks_ok E \<and> rocks_writes E \<and> null_str E = [] \<and> fair_order E \<and>
     serves x a s ch path \<and> net (paxos x) = [] \<and> CHR ''#'' \<notin> set path \<and>
     fast_leader (to_int32 (slot_number ch + 1)) s \<and>
     smap_ok (paxos_stubs_map s) \<and> a \<in> set (smap_keys (paxos_stubs_map s)) \<and>
     (\<forall>b \<in> set (smap_keys (paxos_stubs_map s)). \<forall>t. node (paxos x) b = Some t \<longrightarrow>
        ready (to_int32 (slot_number ch + 1)) t)"

lemma AcquireLock_grants:
  assumes g: "can_grant E x a s ch (lq_path req)"
    and session: "map_of (client_lease_map ch) (lq_client_id req) \<noteq> None"
    and free: "store E (paxos_db s) (lq_path req) = None \<or>
      store E (paxos_db s) (lq_path req) = Some ''FREE'' \<and>
      (lq_locking_mode req = ''SHARED'' \<or> lq_locking_mode req = ''EXCLUSIVE'')"
  defines "n \<equiv> to_int32 (slot_number ch + 1)"
  shows "\<exists>r x' s' ch'. AcquireLock E x a req = Some (Ok r, x') \<and>
    lr_success r \<and> lr_error_message r = ''NO_ERROR'' \<and>
    serves x' a s' ch' (lq_path req) \<and> slot_number ch' = n \<and> client_lease_map ch' = client_lease_map ch \<and>
    map_of (client_lock_map ch') (lq_path req, lq_client_id req) = Some () \<and>
    can_enter s' n \<and> decided s' n = Some (put_string (lq_path req) (lq_locking_mode req)) \<and>
    (\<forall>b \<in> set (smap_keys (paxos_stubs_map s)). \<forall>t. node (paxos x) b = Some t \<longrightarrow>
       (\<exists>t'. node (paxos x') b = Some t' \<and>
          store E (paxos_db t') = (store E (paxos_db t))(lq_path req \<mapsto> lq_locking_mode req)))"
proof -
  let ?path = "lq_path req" and ?mode = "lq_locking_mode req"
  let ?kv = "put_string ?path ?mode" and ?B = "set (smap_keys (paxos_stubs_map s))"
  let ?ch = "next_slot (locked ?path ch)"
  let ?x = "put_chubby a ?ch x"
  have sv: "serves x a s ch ?path" using g by (simp add: can_grant_def)
  have s: "node (paxos x) a = Some s" "map_of (chubbies x) a = Some ch"
    "\<not> leader_dead s" "\<not> leader_election_happened s"
    using sv by (auto simp: serves_def server_at_Some)
  have hyps: "rocks_ok E" "rocks_writes E" "null_str E = []" "fair_order E" "net (paxos x) = []"
    "fast_leader n s" "smap_ok (paxos_stubs_map s)" "a \<in> set (smap_keys (paxos_stubs_map s))"
    "\<forall>b \<in> ?B. \<forall>t. node (paxos x) b = Some t \<longrightarrow> ready n t" "CHR ''#'' \<notin> set ?path"
    using g by (auto simp: can_grant_def n_def)
  obtain c' where c': "Start E (paxos x) a n ?kv = Done c'"
    "\<forall>b \<in> ?B. \<forall>t. node (paxos x) b = Some t \<longrightarrow> (\<exists>t'. node c' b = Some t' \<and> can_enter t' n \<and>
       decided t' n = Some ?kv \<and> store E (paxos_db t') = (store E (paxos_db t))(?path \<mapsto> ?mode))"
    using fresh_proposal_running [OF hyps(1-5) s(1) hyps(6-9) getKeyValue_put_string [OF hyps(10)], of ?mode]
    by blast
  obtain s' where s': "node c' a = Some s'" "can_enter s' n" "decided s' n = Some ?kv"
    using c'(2) hyps(8) s(1) by blast
  from cluster_relD [OF calm.C_done [OF c'(1)] s'(1)] s have calm: "\<not> leader_dead s'" "\<not> leader_election_happened s'"
    by (auto simp: calmed_def)
  let ?ins = "\<lambda>ch. ch\<lparr>client_lock_map := smap_put (?path, lq_client_id req) () (client_lock_map ch)\<rparr>"
  let ?x1 = "put_chubby a (?ins ?ch) (with_paxos ?x c')"
  have put: "Put E ?x a ?path ?mode = Done (with_paxos ?x c')"
    using c'(1) by (simp add: Put_def n_def)
  have m: "map_of (chubbies (with_paxos ?x c')) a = Some ?ch" using s'(1) by simp
  have dec: "AcquireLock_decide E ?x a s ?ch req no_response =
      Done (no_response\<lparr>lr_success := True, lr_error_message := ''NO_ERROR''\<rparr>, ?x1)"
    using free session put upd_chubby_Some [OF m]
    by (auto simp: AcquireLock_decide_def Get_store grant_def)
  have fin: "node (paxos ?x1) a = Some s'" "map_of (chubbies ?x1) a = Some (?ins ?ch)"
    using s'(1) by simp_all
  let ?x2 = "put_chubby a (unlocked ?path (?ins ?ch)) ?x1"
  have "AcquireLock E x a req =
      Some (Ok (no_response\<lparr>lr_success := True, lr_error_message := ''NO_ERROR'',
                           lr_current_leader := leader_address s'\<rparr>), ?x2)"
    unfolding AcquireLock_serves [OF sv] Let_def dec finish_lock_Done [OF fin] by simp
  moreover have "serves ?x2 a s' (unlocked ?path (?ins ?ch)) ?path"
    using s'(1) calm by (simp add: serves_def server_at_Some)
  ultimately show ?thesis using s'(2,3) c'(2) by (fastforce simp: n_def)
qed

text \<open>
  A granted lock is known everywhere.  When a client with a session asks a server that can grant
  for a path nobody holds, the reply reports success, the lock is entered for the client, and on
  every server of the cell that runs the path has the requested mode in the store, all other paths
  being as before.
\<close>
theorem granted_lock_stored_everywhere:
  assumes "can_grant E x a s ch (lq_path req)" "map_of (client_lease_map ch) (lq_client_id req) \<noteq> None"
    and "store E (paxos_db s) (lq_path req) = None \<or>
      store E (paxos_db s) (lq_path req) = Some ''FREE'' \<and>
      (lq_locking_mode req = ''SHARED'' \<or> lq_locking_mode req = ''EXCLUSIVE'')"
  shows "\<exists>r x' s' ch'. AcquireLock E x a req = Some (Ok r, x') \<and>
    lr_success r \<and> lr_error_message r = ''NO_ERROR'' \<and> server_at x' a = Some (s', ch') \<and>
    map_of (client_lock_map ch') (lq_path req, lq_client_id req) = Some () \<and>
    (\<forall>b \<in> set (smap_keys (paxos_stubs_map s)). \<forall>t. node (paxos x) b = Some t \<longrightarrow>
       (\<exists>t'. node (paxos x') b = Some t' \<and>
          store E (paxos_db t') = (store E (paxos_db t))(lq_path req \<mapsto> lq_locking_mode req)))"
  using AcquireLock_grants [OF assms] by (fastforce simp: serves_def)

lemma can_grant_sample [simp]:
  "can_grant mem_env sample_locks ''127.0.0.1:50051'' (sample_server 0) sample_chubby ''a''"
  by (auto simp: can_grant_def smap_ok_def smap_keys_def)

lemma granted_lock_stored_everywhere_witness:
  "\<exists>r x' t. AcquireLock mem_env sample_locks ''127.0.0.1:50051'' (sample_lock ''7'' ''EXCLUSIVE'') = Some (Ok r, x') \<and>
     lr_success r \<and> node (paxos x') ''127.0.0.1:50053'' = Some t \<and>
     store mem_env (paxos_db t) ''a'' = Some ''EXCLUSIVE''"
proof -
  have "store mem_env \<lparr>db_handle = Some []\<rparr> ''a'' = None" by (simp add: store_def)
  then show ?thesis
    using granted_lock_stored_everywhere [of mem_env sample_locks "''127.0.0.1:50051''" "sample_server 0"
        sample_chubby "sample_lock ''7'' ''EXCLUSIVE''"]
    by (auto simp: smap_keys_def)
qed

section \<open>Properties of ReleaseLock\<close>

text \<open>A release is lost when the slot it is proposed in is decided: the reply still says success.\<close>

lemma ReleaseLock_lost:
  assumes sv: "serves x a s ch (lq_path req)"
    and held: "store E (paxos_db s) (lq_path req) = Some held" "held = ''SHARED'' \<or> held = ''EXCLUSIVE''"
    and dec: "\<not> mu_locked s" "lowest_slot s \<le> slot_number ch" "decided s (slot_number ch) \<noteq> None"
  shows "\<exists>r x' s' ch'. ReleaseLock E x a req = Some (Ok r, x') \<and>
    lr_success r \<and> lr_error_message r = ''NO_ERROR'' \<and> serves x' a s' ch' (lq_path req) \<and>
    paxos_db s' = paxos_db s \<and> client_lease_map ch' = client_lease_map ch \<and>
    (\<forall>b. b \<noteq> a \<longrightarrow> node (paxos x') b = node (paxos x) b)"
proof -
  let ?path = "lq_path req"
  let ?ch = "locked ?path ch"
  let ?x = "put_chubby a ?ch x"
  let ?s' = "snd (addSlots s (slot_number ch))"
  let ?c = "put_node a ?s' (paxos x)"
  have srv: "server_at ?x a = Some (s, ?ch)" using server_at_put [OF serves_server [OF sv]] .
  have put: "Put E ?x a ?path ''FREE'' = Done (with_paxos ?x ?c)"
    using Put_decided [OF srv, of E ?path "''FREE''"] dec by simp
  let ?del = "\<lambda>ch. ch\<lparr>client_lock_map := smap_erase (?path, lq_client_id req) (client_lock_map ch)\<rparr>"
  let ?x1 = "put_chubby a (?del ?ch) (with_paxos ?x ?c)"
  have m: "map_of (chubbies (with_paxos ?x ?c)) a = Some ?ch" by simp
  have dec: "ReleaseLock_decide E ?x a s req no_response =
      Done (no_response\<lparr>lr_success := True, lr_error_message := ''NO_ERROR''\<rparr>, ?x1)"
    using held put upd_chubby_Some [OF m] by (auto simp: ReleaseLock_decide_def Get_store)
  have fin: "node (paxos ?x1) a = Some ?s'" "map_of (chubbies ?x1) a = Some (?del ?ch)" by simp_all
  let ?x2 = "put_chubby a (unlocked ?path (?del ?ch)) ?x1"
  have "ReleaseLock E x a req =
      Some (Ok (no_response\<lparr>lr_success := True, lr_error_message := ''NO_ERROR'',
                           lr_current_leader := leader_address ?s'\<rparr>), ?x2)"
    unfolding ReleaseLock_serves [OF sv] Let_def dec finish_lock_Done [OF fin] by simp
  moreover have "serves ?x2 a ?s' (unlocked ?path (?del ?ch)) ?path"
    using sv by (simp add: serves_def server_at_Some)
  ultimately show ?thesis by fastforce
qed

text \<open>
  C36: the release after an acquisition is lost.  \<open>ReleaseLock\<close> does not advance \<open>slot_number\<close>, so
  that it proposes in the slot that the acquisition has decided: a client that acquires a lock, shared or
  exclusive, on a path that is not in the store and then releases it is told both times that it has
  succeeded, but the store of the server still has the mode under the path, and when the next call is a
  request for the path in a conflicting mode, by any client with a session, it is refused because the lock
  is held.  (A call in between that advances \<open>slot_number\<close> makes a second release effective.)
\<close>
theorem release_after_acquire_lost:
  assumes "can_grant E x a s ch (lq_path req)" "map_of (client_lease_map ch) (lq_client_id req) \<noteq> None"
    and "store E (paxos_db s) (lq_path req) = None"
    and "lq_locking_mode req = ''SHARED'' \<or> lq_locking_mode req = ''EXCLUSIVE''"
    and "lq_path again = lq_path req" "map_of (client_lease_map ch) (lq_client_id again) \<noteq> None"
    and "conflict (lq_locking_mode req) (lq_locking_mode again)"
  shows "\<exists>r1 x1 r2 x2 s2 r3 x3.
    AcquireLock E x a req = Some (Ok r1, x1) \<and> lr_success r1 \<and>
    ReleaseLock E x1 a req = Some (Ok r2, x2) \<and> lr_success r2 \<and> lr_error_message r2 = ''NO_ERROR'' \<and>
    node (paxos x2) a = Some s2 \<and> store E (paxos_db s2) (lq_path req) = Some (lq_locking_mode req) \<and>
    AcquireLock E x2 a again = Some (Ok r3, x3) \<and> \<not> lr_success r3 \<and>
    lr_error_message r3 = lq_locking_mode req @ ''_LOCK_HELD''"
proof -
  obtain r1 x1 s1 ch1 where one: "AcquireLock E x a req = Some (Ok r1, x1)" "lr_success r1"
    "serves x1 a s1 ch1 (lq_path req)" "slot_number ch1 = to_int32 (slot_number ch + 1)"
    "client_lease_map ch1 = client_lease_map ch"
    "can_enter s1 (to_int32 (slot_number ch + 1))" "decided s1 (to_int32 (slot_number ch + 1)) \<noteq> None"
    and all: "\<forall>b \<in> set (smap_keys (paxos_stubs_map s)). \<forall>t. node (paxos x) b = Some t \<longrightarrow>
       (\<exists>t'. node (paxos x1) b = Some t' \<and>
          store E (paxos_db t') = (store E (paxos_db t))(lq_path req \<mapsto> lq_locking_mode req))"
    using AcquireLock_grants [OF assms(1,2)] assms(3) by blast
  have "a \<in> set (smap_keys (paxos_stubs_map s))" "node (paxos x) a = Some s"
    using assms(1) by (simp_all add: can_grant_def serves_def server_at_Some)
  moreover have "node (paxos x1) a = Some s1" using one(3) by (simp add: serves_def server_at_Some)
  ultimately have held: "store E (paxos_db s1) (lq_path req) = Some (lq_locking_mode req)"
    using all by fastforce
  have mu: "\<not> mu_locked s1" "lowest_slot s1 \<le> slot_number ch1" "decided s1 (slot_number ch1) \<noteq> None"
    using one(4,6,7) by (simp_all add: can_enter_def)
  obtain r2 x2 s2 ch2 where two: "ReleaseLock E x1 a req = Some (Ok r2, x2)" "lr_success r2"
    "lr_error_message r2 = ''NO_ERROR''" "serves x2 a s2 ch2 (lq_path req)" "paxos_db s2 = paxos_db s1"
    "client_lease_map ch2 = client_lease_map ch1"
    using ReleaseLock_lost [OF one(3) held assms(4) mu] by blast
  have nd: "node (paxos x2) a = Some s2" using two(4) by (simp add: serves_def server_at_Some)
  have "serves x2 a s2 ch2 (lq_path again)" using two(4) assms(5) by simp
  moreover have "map_of (client_lease_map ch2) (lq_client_id again) \<noteq> None" using two(6) one(5) assms(6) by simp
  moreover have "store E (paxos_db s2) (lq_path again) = Some (lq_locking_mode req)" using two(5) held assms(5) by simp
  ultimately obtain x3 where "AcquireLock E x2 a again =
      Some (Ok \<lparr>lr_success = False, lr_error_message = lq_locking_mode req @ ''_LOCK_HELD'',
                lr_current_leader = leader_address s2\<rparr>, x3)"
    using conflicting_lock_refused_lemma [OF _ _ _ assms(7)] by blast
  then obtain r3 where "AcquireLock E x2 a again = Some (Ok r3, x3)" "\<not> lr_success r3"
    "lr_error_message r3 = lq_locking_mode req @ ''_LOCK_HELD''" by simp
  with one(1,2) two(1-3,5) nd held show ?thesis by fastforce
qed

lemma release_after_acquire_lost_witness:
  "\<exists>r1 x1 r2 x2 s2 r3 x3.
    AcquireLock mem_env sample_locks ''127.0.0.1:50051'' (sample_lock ''7'' ''SHARED'') = Some (Ok r1, x1) \<and>
    ReleaseLock mem_env x1 ''127.0.0.1:50051'' (sample_lock ''7'' ''SHARED'') = Some (Ok r2, x2) \<and> lr_success r2 \<and>
    node (paxos x2) ''127.0.0.1:50051'' = Some s2 \<and>
    store mem_env (paxos_db s2) (lq_path (sample_lock ''7'' ''SHARED'')) = Some ''SHARED'' \<and>
    AcquireLock mem_env x2 ''127.0.0.1:50051'' (sample_lock ''7'' ''EXCLUSIVE'') = Some (Ok r3, x3) \<and> \<not> lr_success r3"
proof -
  have "lq_locking_mode (sample_lock ''7'' m) = m" "lq_path (sample_lock ''7'' m) = lq_path (sample_lock ''7'' n)" for m n
    by (simp_all add: sample_lock_def)
  then show ?thesis
    using release_after_acquire_lost [of mem_env sample_locks "''127.0.0.1:50051''" "sample_server 0"
        sample_chubby "sample_lock ''7'' ''SHARED''" "sample_lock ''7'' ''EXCLUSIVE''"]
    by (fastforce simp: store_def conflict_def)
qed

text \<open>
  Anybody can release a lock.  On a server that trusts its leader the answer to \<open>ReleaseLock\<close>, and
  what becomes of the Paxos state of every server, do not depend on the client who asks: not on who
  holds the lock, and not on whether the client has a session.
\<close>
theorem release_ignores_client:
  assumes "server_at x a = Some (s, ch)" "\<not> leader_dead s"
  shows "\<exists>r x1 x2. ReleaseLock E x a req = Some (r, x1) \<and>
    ReleaseLock E x a (req\<lparr>lq_client_id := other\<rparr>) = Some (r, x2) \<and> paxos x1 = paxos x2"
proof (cases "serves x a s ch (lq_path req)")
  case False
  with assms have "leader_election_happened s \<or> map_of (lock_map ch) (lq_path req) = Some True"
    by (auto simp: serves_def)
  then show ?thesis
    using assms by (auto simp: ReleaseLock.simps ReleaseLock_local_def lock_key_def server_at_Some
        KeyLock_lock_def split: option.splits)
next
  case True
  let ?req = "req\<lparr>lq_client_id := other\<rparr>"
  let ?x = "put_chubby a (locked (lq_path req) ch) x"
  have sv: "serves x a s ch (lq_path ?req)" using True by simp
  note unf = ReleaseLock_serves [OF True, of E] ReleaseLock_serves [OF sv, of E]
  show ?thesis
    unfolding unf by (cases "Put E ?x a (lq_path req) ''FREE''")
      (auto simp: Let_def ReleaseLock_decide_def Get_store refuse_def finish_lock_def unlock_key_def
        split: option.split)
qed

lemma release_ignores_client_witness:
  "\<exists>r x1 x2. ReleaseLock mem_env (held_locks ''EXCLUSIVE'') ''127.0.0.1:50051'' (sample_lock ''7'' '''') = Some (r, x1) \<and>
     ReleaseLock mem_env (held_locks ''EXCLUSIVE'') ''127.0.0.1:50051'' (sample_lock ''nobody'' '''') = Some (r, x2) \<and>
     paxos x1 = paxos x2"
  using release_ignores_client [OF serves_server [OF serves_held_locks [of "''EXCLUSIVE''"]], where E = mem_env
      and req = "sample_lock ''7'' ''''" and other = "''nobody''"]
  by (simp add: sample_lock_def)

end
