(* ===== verification/LockTable.thy ===== *)
theory LockTable
  imports Locks
begin

text \<open>
  What the lock service is, seen from its clients: a table from paths to modes.  The machine of
  this theory, \<open>acquire_spec\<close> and \<open>release_spec\<close>, knows nothing of slots, proposals, mutexes and
  servers but one bit, \<open>settled\<close>: whether the slot of \<open>slot_number\<close> has been decided, because a
  release is lost when it has.  In a healthy cell the handlers \<open>AcquireLock\<close> and \<open>ReleaseLock\<close> of
  the leader implement it: they give its answers, and the store of every server is its table.
\<close>

section \<open>The abstract machine\<close>

record lock_table =
  held :: "string \<Rightarrow> string option"
  settled :: bool

definition table_put :: "string \<Rightarrow> string \<Rightarrow> lock_table \<Rightarrow> lock_table" where
  "table_put path mode T = \<lparr>held = (held T)(path \<mapsto> mode), settled = True\<rparr>"

definition acquire_spec ::
  "bool \<Rightarrow> lock_request \<Rightarrow> lock_table \<Rightarrow> (bool \<times> string) \<times> lock_table" where
  "acquire_spec session req T =
     (let path = lq_path req; mode = lq_locking_mode req; same = T\<lparr>settled := False\<rparr>;
          put = ((True, ''NO_ERROR''), table_put path mode T)
      in if \<not> session then ((False, ''NO_CLIENT_SESSION''), same)
         else
           (case held T path of
              None \<Rightarrow> put
            | Some val \<Rightarrow>
                if mode \<noteq> ''SHARED'' \<and> mode \<noteq> ''EXCLUSIVE'' then ((False, ''''), same)
                else if val = ''FREE'' then put
                else if val = ''SHARED'' \<and> mode = ''SHARED'' then ((True, ''NO_ERROR''), same)
                else if val = ''SHARED'' \<or> val = ''EXCLUSIVE'' then ((False, val @ ''_LOCK_HELD''), same)
                else ((False, ''''), same)))"

definition release_spec :: "lock_request \<Rightarrow> lock_table \<Rightarrow> (bool \<times> string) \<times> lock_table" where
  "release_spec req T =
     (case held T (lq_path req) of
        None \<Rightarrow> ((False, ''TRYING_TO_RELEASE_UNACQUIRED_LOCK''), T)
      | Some val \<Rightarrow>
          if val = ''FREE'' then ((False, ''TRYING_TO_RELEASE_UNACQUIRED_LOCK''), T)
          else if val = ''SHARED'' \<or> val = ''EXCLUSIVE'' then
            ((True, ''NO_ERROR''), if settled T then T else table_put (lq_path req) ''FREE'' T)
          else ((False, ''''), T))"

section \<open>When a cell implements a table\<close>

definition lock_env :: "'d env \<Rightarrow> bool" where
  "lock_env E \<longleftrightarrow> rocks_ok E \<and> rocks_writes E \<and> null_str E = [] \<and> fair_order E"

text \<open>The first slot that no server knows anything of.\<close>

definition first_free :: "lock_table \<Rightarrow> chubby_impl \<Rightarrow> int" where
  "first_free T ch = (if settled T then slot_number ch + 1 else slot_number ch)"

definition cell_holds ::
  "'d env \<Rightarrow> 'd cell \<Rightarrow> string \<Rightarrow> 'd paxos_impl \<Rightarrow> chubby_impl \<Rightarrow> lock_table \<Rightarrow> bool" where
  "cell_holds E x a s ch T \<longleftrightarrow>
     server_at x a = Some (s, ch) \<and> \<not> leader_election_happened s \<and> net (paxos x) = [] \<and>
     smap_ok (paxos_stubs_map s) \<and> a \<in> set (smap_keys (paxos_stubs_map s)) \<and>
     fast_leader (first_free T ch) s \<and>
     (settled T \<longrightarrow> can_enter s (slot_number ch) \<and> decided s (slot_number ch) \<noteq> None) \<and>
     (\<forall>b \<in> set (smap_keys (paxos_stubs_map s)). \<exists>t. node (paxos x) b = Some t \<and>
        store E (paxos_db t) = held T \<and> (\<forall>q \<ge> first_free T ch. ready q t))"

text \<open>Between two calls no path is locked.\<close>

definition implements ::
  "'d env \<Rightarrow> 'd cell \<Rightarrow> string \<Rightarrow> 'd paxos_impl \<Rightarrow> chubby_impl \<Rightarrow> lock_table \<Rightarrow> bool" where
  "implements E x a s ch T \<longleftrightarrow>
     cell_holds E x a s ch T \<and> (\<forall>path. map_of (lock_map ch) path \<noteq> Some True)"

lemma cell_holds_put:
  "cell_holds E x a s ch T \<Longrightarrow> slot_number ch' = slot_number ch \<Longrightarrow>
   cell_holds E (put_chubby a ch' x) a s ch' T"
  by (auto simp: cell_holds_def server_at_Some first_free_def)

lemma fast_leader_mono: "fast_leader q s \<Longrightarrow> q \<le> r \<Longrightarrow> fast_leader r s"
  by (auto simp: fast_leader_def)

lemma cell_holds_next:
  assumes "cell_holds E x a s ch T" "slot_number ch' = slot_number ch + 1"
  shows "cell_holds E (put_chubby a ch' x) a s ch' (T\<lparr>settled := False\<rparr>)"
proof -
  have le: "first_free T ch \<le> slot_number ch + 1" by (simp add: first_free_def)
  from assms(1) fast_leader_mono [OF _ le] have "fast_leader (slot_number ch + 1) s"
    by (auto simp: cell_holds_def)
  moreover have "\<forall>b \<in> set (smap_keys (paxos_stubs_map s)). \<exists>t. node (paxos x) b = Some t \<and>
      store E (paxos_db t) = held T \<and> (\<forall>q \<ge> slot_number ch + 1. ready q t)"
    using assms(1) le unfolding cell_holds_def by (meson order_trans)
  ultimately show ?thesis
    using assms by (simp add: cell_holds_def server_at_Some first_free_def)
qed

lemma cell_holds_store: "cell_holds E x a s ch T \<Longrightarrow> store E (paxos_db s) = held T"
  by (auto simp: cell_holds_def server_at_Some)

section \<open>A proposal\<close>

lemma store_handle: "store E w k = Some v \<Longrightarrow> db_handle w \<noteq> None"
  by (cases "db_handle w") (simp_all add: store_def)

text \<open>What a proposal in the next slot leaves of one server.\<close>

lemma ready_after:
  assumes r: "\<forall>q \<ge> n. ready q t" and e: "can_enter t' n" and cfg: "same_config t t'"
    and slt: "only_slot n t t'" and db: "db_handle (paxos_db t') \<noteq> None" and q: "n < q"
  shows "ready q t'"
proof -
  have t: "ready q t" "ready n t" using r q by auto
  have "decided t' q = decided t q" using slt q by (simp add: only_slot_def decided_def)
  with t e cfg db q show ?thesis
    by (auto simp: ready_def can_enter_def done_me_def same_config_def)
qed

lemma Put_fresh:
  assumes env: "lock_env E" and x: "cell_holds E x a s ch T" and fresh: "\<not> settled T"
    and path: "CHR ''#'' \<notin> set path"
  shows "\<exists>c' s'. Put E x a path mode = Done (with_paxos x c') \<and>
    cell_holds E (with_paxos x c') a s' ch (table_put path mode T) \<and>
    paxos_stubs_map s' = paxos_stubs_map s"
proof -
  let ?n = "slot_number ch" and ?kv = "put_string path mode" and ?B = "set (smap_keys (paxos_stubs_map s))"
  have s: "node (paxos x) a = Some s" "map_of (chubbies x) a = Some ch" "\<not> leader_election_happened s"
    "net (paxos x) = []" "smap_ok (paxos_stubs_map s)" "a \<in> ?B" "fast_leader ?n s"
    using x fresh by (auto simp: cell_holds_def server_at_Some first_free_def)
  have B: "\<exists>t. node (paxos x) b = Some t \<and> store E (paxos_db t) = held T \<and> (\<forall>q \<ge> ?n. ready q t)"
    if "b \<in> ?B" for b using x fresh that by (simp add: cell_holds_def first_free_def)
  then have B': "\<forall>b \<in> ?B. \<exists>t. node (paxos x) b = Some t \<and> ready ?n t" by blast
  have e: "rocks_ok E" "rocks_writes E" "null_str E = []" "fair_order E"
    using env by (auto simp: lock_env_def)
  obtain c' where c': "Start E (paxos x) a ?n ?kv = Done c'" "net c' = []"
    "\<forall>b \<in> ?B. \<exists>t t'. node (paxos x) b = Some t \<and> node c' b = Some t' \<and> can_enter t' ?n \<and>
       decided t' ?n = Some ?kv \<and> (view t' \<le> view s \<longleftrightarrow> view t \<le> view s) \<and>
       store E (paxos_db t') = (store E (paxos_db t))(path \<mapsto> mode)"
    using fresh_proposal [OF e s(4,1,7,5,6) B' getKeyValue_put_string [OF path], of mode] by blast
  note rel = cluster_relD [OF adv.C_done [OF c'(1)]] cluster_relD [OF cfg.C_done [OF c'(1)]]
    cluster_relD [OF calm.C_done [OF c'(1)]] cluster_relD [OF slt.C_done [OF c'(1)]]
  obtain s' where s': "node c' a = Some s'" "can_enter s' ?n" "decided s' ?n = Some ?kv" "view s' \<le> view s"
    using c'(3) s(1,6) by fastforce
  have as: "advanced s s'" "same_config s s'" "calmed s s'" "only_slot ?n s s'"
    using rel [OF _ s'(1)] s(1) by auto
  have all: "\<exists>t. node c' b = Some t \<and> store E (paxos_db t) = (held T)(path \<mapsto> mode) \<and>
      (\<forall>q \<ge> ?n + 1. ready q t)" if b: "b \<in> ?B" for b
  proof -
    obtain t t' where t: "node (paxos x) b = Some t" "node c' b = Some t'" "can_enter t' ?n"
      "store E (paxos_db t') = (store E (paxos_db t))(path \<mapsto> mode)" using c'(3) b by blast
    have t0: "store E (paxos_db t) = held T" "\<forall>q \<ge> ?n. ready q t" using B [OF b] t(1) by auto
    have "same_config t t'" "only_slot ?n t t'" using rel [OF _ t(2)] t(1) by auto
    moreover have "db_handle (paxos_db t') \<noteq> None"
      using store_handle [of E "paxos_db t'" path mode] t(4) by simp
    ultimately have "ready q t'" if "?n + 1 \<le> q" for q
      using ready_after [OF t0(2) t(3)] that by simp
    with t t0 show ?thesis by auto
  qed
  have "fast_leader (?n + 1) s'"
    using s(7) s'(4) as by (auto simp: fast_leader_def advanced_def same_config_def calmed_def only_slot_def)
  then have "cell_holds E (with_paxos x c') a s' ch (table_put path mode T)"
    using s s' as all c'(2)
    by (simp add: cell_holds_def table_put_def first_free_def server_at_Some same_config_def calmed_def)
  moreover have "Put E x a path mode = Done (with_paxos x c')"
    using s(2) c'(1) by (simp add: Put_def)
  moreover have "paxos_stubs_map s' = paxos_stubs_map s" using as by (simp add: same_config_def)
  ultimately show ?thesis by blast
qed

section \<open>AcquireLock\<close>

text \<open>How the decisions of the two handlers end: an answer, and a cell that holds the table.\<close>

definition decided_as ::
  "'d env \<Rightarrow> string \<Rightarrow> (string, unit) smap \<Rightarrow> chubby_impl \<Rightarrow> (bool \<times> string) \<times> lock_table \<Rightarrow>
   (lock_response \<times> 'd cell) outcome \<Rightarrow> bool" where
  "decided_as E a M ch res out \<longleftrightarrow>
     (\<exists>r x s ch'. out = Done (r, x) \<and> (lr_success r, lr_error_message r) = fst res \<and>
        cell_holds E x a s ch' (snd res) \<and> slot_number ch' = slot_number ch \<and>
        client_lease_map ch' = client_lease_map ch \<and> lock_map ch' = lock_map ch \<and>
        paxos_stubs_map s = M)"

lemma decided_as_refuse:
  "cell_holds E x a s ch T \<Longrightarrow> decided_as E a (paxos_stubs_map s) ch ((False, msg), T) (refuse msg resp x)"
  by (auto simp: decided_as_def refuse_def)

lemma decided_as_silent:
  "cell_holds E x a s ch T \<Longrightarrow> decided_as E a (paxos_stubs_map s) ch ((False, ''''), T) (Done (no_response, x))"
  by (auto simp: decided_as_def no_response_def)

text \<open>An answer of success after a change of the table of locks.\<close>

lemma decided_as_success:
  assumes "cell_holds E x a s ch T" "\<And>ch. slot_number (f ch) = slot_number ch"
    "\<And>ch. client_lease_map (f ch) = client_lease_map ch" "\<And>ch. lock_map (f ch) = lock_map ch"
  shows "decided_as E a (paxos_stubs_map s) ch ((True, msg), T)
    (Done (resp\<lparr>lr_success := True, lr_error_message := msg\<rparr>, upd_chubby a f x))"
proof -
  have "map_of (chubbies x) a = Some ch" using assms(1) by (simp add: cell_holds_def server_at_Some)
  from upd_chubby_Some [OF this, of f] cell_holds_put [OF assms(1), of "f ch"] assms(2-4)
  show ?thesis by (fastforce simp: decided_as_def)
qed

lemma grant_keeps:
  assumes "cell_holds E x a s ch T"
  shows "decided_as E a (paxos_stubs_map s) ch ((True, ''NO_ERROR''), T) (grant E False x a req resp)"
  unfolding grant_def using decided_as_success [OF assms] by simp

lemma grant_puts:
  assumes env: "lock_env E" and x: "cell_holds E x a s ch T" "\<not> settled T"
    and path: "CHR ''#'' \<notin> set (lq_path req)"
  shows "decided_as E a (paxos_stubs_map s) ch ((True, ''NO_ERROR''), table_put (lq_path req) (lq_locking_mode req) T)
    (grant E True x a req resp)"
proof -
  obtain c' s' where put: "Put E x a (lq_path req) (lq_locking_mode req) = Done (with_paxos x c')"
    "cell_holds E (with_paxos x c') a s' ch (table_put (lq_path req) (lq_locking_mode req) T)"
    "paxos_stubs_map s' = paxos_stubs_map s"
    using Put_fresh [OF env x path] by blast
  show ?thesis unfolding grant_def using decided_as_success [OF put(2)] put(1,3) by simp
qed

lemma table_put_same [simp]: "table_put path mode (T\<lparr>settled := b\<rparr>) = table_put path mode T"
  by (simp add: table_put_def)

lemma AcquireLock_decide_spec:
  assumes env: "lock_env E" and x: "cell_holds E x a s ch (T\<lparr>settled := False\<rparr>)"
    and path: "CHR ''#'' \<notin> set (lq_path req)"
  shows "decided_as E a (paxos_stubs_map s) ch
    (acquire_spec (map_of (client_lease_map ch) (lq_client_id req) \<noteq> None) req T)
    (AcquireLock_decide E x a s ch req no_response)"
proof -
  note grant = grant_puts [OF env x _ path, of no_response] grant_keeps [OF x]
    decided_as_refuse [OF x] decided_as_silent [OF x]
  have st: "store E (paxos_db s) = held T" using cell_holds_store [OF x] by simp
  show ?thesis
    using grant by (auto simp: AcquireLock_decide_def acquire_spec_def Let_def Get_store st
        split: option.split)
qed

text \<open>The frame of both handlers: lock the path, decide, report the leader, unlock.\<close>

lemma finish_lock_spec:
  assumes "decided_as E a M ch res out" "\<And>p. p \<noteq> path \<Longrightarrow> map_of (lock_map ch) p \<noteq> Some True"
  shows "\<exists>r x' s' ch'. finish_lock a path x out = (Ok r, x') \<and>
    (lr_success r, lr_error_message r) = fst res \<and> implements E x' a s' ch' (snd res) \<and>
    slot_number ch' = slot_number ch \<and> client_lease_map ch' = client_lease_map ch \<and>
    paxos_stubs_map s' = M"
proof -
  obtain r x1 s1 ch1 where d: "out = Done (r, x1)" "(lr_success r, lr_error_message r) = fst res"
    "cell_holds E x1 a s1 ch1 (snd res)" "slot_number ch1 = slot_number ch"
    "client_lease_map ch1 = client_lease_map ch" "lock_map ch1 = lock_map ch" "paxos_stubs_map s1 = M"
    using assms(1) unfolding decided_as_def by blast
  have n: "node (paxos x1) a = Some s1" "map_of (chubbies x1) a = Some ch1"
    using d(3) by (auto simp: cell_holds_def server_at_Some)
  have "implements E (put_chubby a (unlocked path ch1) x1) a s1 (unlocked path ch1) (snd res)"
    using cell_holds_put [OF d(3), of "unlocked path ch1"] assms(2) d(6)
    by (auto simp: implements_def unlocked_def)
  with finish_lock_Done [OF n, of path x r] d show ?thesis by fastforce
qed

lemma implements_serves:
  "implements E x a s ch T \<Longrightarrow> serves x a s ch path"
  by (simp add: implements_def cell_holds_def serves_def fast_leader_def)

lemma AcquireLock_spec:
  assumes env: "lock_env E" and x: "implements E x a s ch T" and n: "in_int32 (slot_number ch + 1)"
    and path: "CHR ''#'' \<notin> set (lq_path req)"
  shows "\<exists>r x' s' ch'. AcquireLock E x a req = Some (Ok r, x') \<and>
    (let res = acquire_spec (map_of (client_lease_map ch) (lq_client_id req) \<noteq> None) req T in
     (lr_success r, lr_error_message r) = fst res \<and> implements E x' a s' ch' (snd res) \<and>
     slot_number ch' = slot_number ch + 1 \<and> client_lease_map ch' = client_lease_map ch \<and>
     paxos_stubs_map s' = paxos_stubs_map s)"
proof -
  let ?ch = "next_slot (locked (lq_path req) ch)"
  let ?x = "put_chubby a ?ch x"
  have x1: "cell_holds E ?x a s ?ch (T\<lparr>settled := False\<rparr>)"
    using x n by (auto simp: implements_def intro: cell_holds_next)
  have free: "map_of (lock_map ?ch) p \<noteq> Some True" if "p \<noteq> lq_path req" for p
    using x that by (simp add: implements_def)
  from finish_lock_spec [OF AcquireLock_decide_spec [OF env x1 path] free, of "lq_path req" ?x]
  show ?thesis
    using n by (auto simp: AcquireLock_serves [OF implements_serves [OF x]] Let_def)
qed

section \<open>ReleaseLock\<close>

lemma Put_settled:
  assumes x: "cell_holds E x a s ch T" and "settled T"
  shows "\<exists>c' s'. Put E x a path mode = Done (with_paxos x c') \<and> cell_holds E (with_paxos x c') a s' ch T \<and>
    paxos_stubs_map s' = paxos_stubs_map s"
proof -
  let ?s = "snd (addSlots s (slot_number ch))"
  let ?c = "put_node a ?s (paxos x)"
  have srv: "server_at x a = Some (s, ch)" "can_enter s (slot_number ch)" "decided s (slot_number ch) \<noteq> None"
    using assms by (auto simp: cell_holds_def)
  have "can_enter ?s q = can_enter s q" "done_me ?s = done_me s" for q
    by (simp_all add: can_enter_def done_me_def)
  then have "cell_holds E (with_paxos x ?c) a ?s ch T"
    using x by (auto simp: cell_holds_def server_at_Some fast_leader_def ready_def)
  moreover have "Put E x a path mode = Done (with_paxos x ?c)"
    using srv(2) by (intro Put_decided [OF srv(1) _ _ srv(3)]) (simp_all add: can_enter_def)
  moreover have "paxos_stubs_map ?s = paxos_stubs_map s" by simp
  ultimately show ?thesis by blast
qed

lemma ReleaseLock_decide_spec:
  assumes env: "lock_env E" and x: "cell_holds E x a s ch T"
    and path: "CHR ''#'' \<notin> set (lq_path req)"
  shows "decided_as E a (paxos_stubs_map s) ch (release_spec req T) (ReleaseLock_decide E x a s req no_response)"
proof -
  let ?T = "if settled T then T else table_put (lq_path req) ''FREE'' T"
  have "\<exists>c' s'. Put E x a (lq_path req) ''FREE'' = Done (with_paxos x c') \<and>
      cell_holds E (with_paxos x c') a s' ch ?T \<and> paxos_stubs_map s' = paxos_stubs_map s"
    using Put_settled [OF x, of "lq_path req" "''FREE''"] Put_fresh [OF env x _ path, of "''FREE''"]
    by simp
  then obtain c' s' where put: "Put E x a (lq_path req) ''FREE'' = Done (with_paxos x c')"
    "cell_holds E (with_paxos x c') a s' ch ?T" "paxos_stubs_map s' = paxos_stubs_map s" by blast
  have st: "store E (paxos_db s) = held T" by (rule cell_holds_store [OF x])
  let ?del = "\<lambda>ch. ch\<lparr>client_lock_map := smap_erase (lq_path req, lq_client_id req) (client_lock_map ch)\<rparr>"
  note success = decided_as_success [OF put(2), of ?del "''NO_ERROR''" no_response, simplified]
  show ?thesis
    using decided_as_refuse [OF x] decided_as_silent [OF x] success put(1,3)
    by (cases "settled T")
      (auto simp: ReleaseLock_decide_def release_spec_def Get_store st split: option.split)
qed

lemma ReleaseLock_spec:
  assumes env: "lock_env E" and x: "implements E x a s ch T"
    and path: "CHR ''#'' \<notin> set (lq_path req)"
  shows "\<exists>r x' s' ch'. ReleaseLock E x a req = Some (Ok r, x') \<and>
     (lr_success r, lr_error_message r) = fst (release_spec req T) \<and>
     implements E x' a s' ch' (snd (release_spec req T)) \<and>
     slot_number ch' = slot_number ch \<and> client_lease_map ch' = client_lease_map ch \<and>
     paxos_stubs_map s' = paxos_stubs_map s"
proof -
  let ?ch = "locked (lq_path req) ch"
  let ?x = "put_chubby a ?ch x"
  have x1: "cell_holds E ?x a s ?ch T"
    using x by (auto simp: implements_def intro: cell_holds_put)
  have free: "map_of (lock_map ?ch) p \<noteq> Some True" if "p \<noteq> lq_path req" for p
    using x that by (simp add: implements_def)
  from finish_lock_spec [OF ReleaseLock_decide_spec [OF env x1 path] free, of "lq_path req" ?x]
  show ?thesis
    by (auto simp: ReleaseLock_serves [OF implements_serves [OF x]] Let_def)
qed


section \<open>Runs\<close>

datatype lock_op = Acquire lock_request | Release lock_request

primrec op_request :: "lock_op \<Rightarrow> lock_request" where
  "op_request (Acquire req) = req"
| "op_request (Release req) = req"

primrec table_step ::
  "(string \<Rightarrow> bool) \<Rightarrow> lock_op \<Rightarrow> lock_table \<Rightarrow> (bool \<times> string) \<times> lock_table" where
  "table_step sessions (Acquire req) T = acquire_spec (sessions (lq_client_id req)) req T"
| "table_step sessions (Release req) T = release_spec req T"

primrec table_run ::
  "(string \<Rightarrow> bool) \<Rightarrow> lock_op list \<Rightarrow> lock_table \<Rightarrow> (bool \<times> string) list \<times> lock_table" where
  "table_run sessions [] T = ([], T)"
| "table_run sessions (op # ops) T =
     (case table_step sessions op T of
        (ans, T1) \<Rightarrow> (case table_run sessions ops T1 of (as, T2) \<Rightarrow> (ans # as, T2)))"

text \<open>The same calls on the server at \<open>a\<close>, one after the other; \<open>None\<close> when one of them fails or
  does not return.\<close>

primrec serve :: "'d env \<Rightarrow> 'd cell \<Rightarrow> string \<Rightarrow> lock_op \<Rightarrow> (lock_response result \<times> 'd cell) option" where
  "serve E x a (Acquire req) = AcquireLock E x a req"
| "serve E x a (Release req) = ReleaseLock E x a req"

fun serve_all ::
  "'d env \<Rightarrow> 'd cell \<Rightarrow> string \<Rightarrow> lock_op list \<Rightarrow> ((bool \<times> string) list \<times> 'd cell) option" where
  "serve_all E x a [] = Some ([], x)"
| "serve_all E x a (op # ops) =
     (case serve E x a op of
        Some (Ok r, x1) \<Rightarrow>
          map_option (\<lambda>(as, x2). ((lr_success r, lr_error_message r) # as, x2)) (serve_all E x1 a ops)
      | _ \<Rightarrow> None)"

definition sessions_of :: "chubby_impl \<Rightarrow> string \<Rightarrow> bool" where
  "sessions_of ch c \<longleftrightarrow> map_of (client_lease_map ch) c \<noteq> None"

definition plain_path :: "lock_op \<Rightarrow> bool" where
  "plain_path op \<longleftrightarrow> CHR ''#'' \<notin> set (lq_path (op_request op))"

lemma serve_spec:
  assumes env: "lock_env E" and x: "implements E x a s ch T"
    and n: "0 \<le> slot_number ch" "slot_number ch + 1 < 2 ^ 31" and op: "plain_path op"
  shows "\<exists>r x' s' ch'. serve E x a op = Some (Ok r, x') \<and>
    (lr_success r, lr_error_message r) = fst (table_step (sessions_of ch) op T) \<and>
    implements E x' a s' ch' (snd (table_step (sessions_of ch) op T)) \<and>
    slot_number ch \<le> slot_number ch' \<and> slot_number ch' \<le> slot_number ch + 1 \<and>
    client_lease_map ch' = client_lease_map ch \<and> paxos_stubs_map s' = paxos_stubs_map s"
proof (cases op)
  case (Acquire req)
  have "in_int32 (slot_number ch + 1)" using n by (simp add: in_int32_def)
  from AcquireLock_spec [OF env x this, of req] op Acquire show ?thesis
    by (fastforce simp: plain_path_def sessions_of_def Let_def)
next
  case (Release req)
  with ReleaseLock_spec [OF env x, of req] op show ?thesis by (fastforce simp: plain_path_def)
qed

lemma serve_all_spec:
  assumes "lock_env E" "implements E x a s ch T"
    and "0 \<le> slot_number ch" "slot_number ch + int (length ops) < 2 ^ 31" "\<forall>op \<in> set ops. plain_path op"
  shows "\<exists>x' s' ch'. serve_all E x a ops = Some (fst (table_run (sessions_of ch) ops T), x') \<and>
    implements E x' a s' ch' (snd (table_run (sessions_of ch) ops T)) \<and>
    paxos_stubs_map s' = paxos_stubs_map s"
  using assms
proof (induction ops arbitrary: x s ch T)
  case Nil
  then show ?case by auto
next
  case (Cons op ops)
  from Cons.prems serve_spec [OF Cons.prems(1,2,3), of op] obtain r x1 s1 ch1 where one:
    "serve E x a op = Some (Ok r, x1)"
    "(lr_success r, lr_error_message r) = fst (table_step (sessions_of ch) op T)"
    "implements E x1 a s1 ch1 (snd (table_step (sessions_of ch) op T))"
    "slot_number ch \<le> slot_number ch1" "slot_number ch1 \<le> slot_number ch + 1"
    "client_lease_map ch1 = client_lease_map ch" "paxos_stubs_map s1 = paxos_stubs_map s"
    by auto
  have se: "sessions_of ch1 = sessions_of ch" using one(6) by (simp add: sessions_of_def fun_eq_iff)
  from Cons.IH [OF Cons.prems(1) one(3)] Cons.prems(3-5) one(4,5) show ?case
    by (fastforce simp: se one(1,2,7) split_beta)
qed

section \<open>Properties\<close>

text \<open>
  C1: in a healthy cell the lock service is a lock table.  When the server at \<open>a\<close> leads a cell
  that implements a table, and the network delivers, every sequence of \<open>AcquireLock\<close> and
  \<open>ReleaseLock\<close> calls on it returns; the answers are those of the abstract table, which the clients
  with a session share, and afterwards the store of every server is again that table.
\<close>
theorem lock_service_refines_table:
  assumes "lock_env E" "implements E x a s ch T"
    and "0 \<le> slot_number ch" "slot_number ch + int (length ops) < 2 ^ 31" "\<forall>op \<in> set ops. plain_path op"
  shows "\<exists>x'. serve_all E x a ops = Some (fst (table_run (sessions_of ch) ops T), x') \<and>
    (\<forall>b \<in> set (smap_keys (paxos_stubs_map s)). \<exists>t. node (paxos x') b = Some t \<and>
       store E (paxos_db t) = held (snd (table_run (sessions_of ch) ops T)))"
proof -
  obtain x' s' ch' where run: "serve_all E x a ops = Some (fst (table_run (sessions_of ch) ops T), x')"
    "implements E x' a s' ch' (snd (table_run (sessions_of ch) ops T))"
    "paxos_stubs_map s' = paxos_stubs_map s"
    using serve_all_spec [OF assms] by blast
  then have "cell_holds E x' a s' ch' (snd (table_run (sessions_of ch) ops T))"
    by (simp add: implements_def)
  with run(1,3) show ?thesis unfolding cell_holds_def by auto
qed

text \<open>As long as nobody releases it, an exclusive lock stays and everybody is refused.\<close>

definition releases :: "string \<Rightarrow> lock_op \<Rightarrow> bool" where
  "releases path op \<longleftrightarrow> (\<exists>req. op = Release req \<and> lq_path req = path)"

lemma exclusive_step:
  assumes "held T path = Some ''EXCLUSIVE''" "\<not> releases path op"
  shows "held (snd (table_step se op T)) path = Some ''EXCLUSIVE''"
    and "op = Acquire req \<Longrightarrow> lq_path req = path \<Longrightarrow> \<not> fst (fst (table_step se op T))"
  using assms
  by (cases op; auto simp: acquire_spec_def release_spec_def table_put_def releases_def Let_def
      split: option.splits)+

lemma exclusive_run:
  assumes "held T path = Some ''EXCLUSIVE''" "\<forall>op \<in> set ops. \<not> releases path op" "lq_path req = path"
  shows "\<not> fst (last (fst (table_run se (ops @ [Acquire req]) T)))"
  using assms
proof (induction ops arbitrary: T)
  case Nil
  then show ?case using exclusive_step(2) [OF Nil.prems(1), of "Acquire req" req se]
    by (auto simp: releases_def split_beta)
next
  case (Cons op ops)
  have ne: "fst (table_run se (ops @ [Acquire req]) U) \<noteq> []" for U
    by (cases ops) (simp_all add: split_beta)
  from Cons.IH [OF exclusive_step(1) [OF Cons.prems(1)]] Cons.prems ne show ?case
    by (simp add: split_beta)
qed

lemma granted_exclusive:
  "fst (fst (acquire_spec session req T)) \<Longrightarrow> lq_locking_mode req = ''EXCLUSIVE'' \<Longrightarrow>
   held (snd (acquire_spec session req T)) (lq_path req) = Some ''EXCLUSIVE''"
  by (auto simp: acquire_spec_def table_put_def Let_def split: option.splits if_splits)

text \<open>
  C3: mutual exclusion.  In a healthy cell, once a client has been told that it has the exclusive
  lock on a path, every later request for the path, by whomever and in whatever mode, is refused,
  whatever calls for this and other paths are served in between, as long as none of them releases
  the path.
\<close>
theorem exclusive_lock_excludes:
  assumes "lock_env E" "implements E x a s ch T"
    and "0 \<le> slot_number ch" "slot_number ch + int (length mid) + 2 < 2 ^ 31"
    and "\<forall>op \<in> set (Acquire req # mid @ [Acquire again]). plain_path op"
    and "lq_locking_mode req = ''EXCLUSIVE''" "\<forall>op \<in> set mid. \<not> releases (lq_path req) op"
    and "lq_path again = lq_path req"
  shows "\<exists>answers x'. serve_all E x a (Acquire req # mid @ [Acquire again]) = Some (answers, x') \<and>
    (fst (hd answers) \<longrightarrow> \<not> fst (last answers))"
proof -
  let ?ops = "Acquire req # mid @ [Acquire again]"
  obtain x' where run: "serve_all E x a ?ops = Some (fst (table_run (sessions_of ch) ?ops T), x')"
    using serve_all_spec [OF assms(1,2,3) _ assms(5)] assms(4) by auto
  let ?res = "acquire_spec (sessions_of ch (lq_client_id req)) req T"
  have "\<not> fst (last (fst (table_run (sessions_of ch) (mid @ [Acquire again]) (snd ?res))))"
    if "fst (fst ?res)"
    by (rule exclusive_run [OF granted_exclusive [OF that assms(6)] assms(7,8)])
  moreover have "fst (table_run (sessions_of ch) (mid @ [Acquire again]) (snd ?res)) \<noteq> []"
    by (cases mid) (simp_all add: split_beta)
  ultimately show ?thesis using run by (simp add: split_beta)
qed

text \<open>The sample cell of the theory \<open>Locks\<close> implements the empty table.\<close>

definition empty_table :: lock_table where
  "empty_table = \<lparr>held = Map.empty, settled = False\<rparr>"

definition first_chubby :: chubby_impl where
  "first_chubby = sample_chubby\<lparr>slot_number := 1\<rparr>"

definition first_locks :: "(string \<times> string) list cell" where
  "first_locks = put_chubby ''127.0.0.1:50051'' first_chubby sample_locks"

lemma lock_env_mem [simp]: "lock_env mem_env"
  by (simp add: lock_env_def)

lemma ready_sample_servers: "i \<in> {0, 1, 2} \<Longrightarrow> 1 \<le> q \<Longrightarrow> ready q (sample_server i)"
  using ready_sample_server [of i] by (auto simp: ready_def can_enter_def done_me_def decided_def get_slot_def)

lemma implements_first_locks:
  "implements mem_env first_locks ''127.0.0.1:50051'' (sample_server 0) first_chubby empty_table"
  using ready_sample_servers fast_leader_sample_server
  by (auto simp: implements_def cell_holds_def first_locks_def first_chubby_def empty_table_def
      server_at_Some first_free_def sample_locks_def smap_keys_def smap_ok_def store_def fun_eq_iff)

lemma lock_service_refines_table_witness:
  "\<exists>x'. serve_all mem_env first_locks ''127.0.0.1:50051''
      [Acquire (sample_lock ''7'' ''SHARED''), Acquire (sample_lock ''7'' ''EXCLUSIVE''),
       Release (sample_lock ''7'' ''''), Acquire (sample_lock ''7'' ''EXCLUSIVE'')] =
    Some ([(True, ''NO_ERROR''), (False, ''SHARED_LOCK_HELD''), (True, ''NO_ERROR''), (True, ''NO_ERROR'')], x')"
  using lock_service_refines_table [OF lock_env_mem implements_first_locks, of
      "[Acquire (sample_lock ''7'' ''SHARED''), Acquire (sample_lock ''7'' ''EXCLUSIVE''),
        Release (sample_lock ''7'' ''''), Acquire (sample_lock ''7'' ''EXCLUSIVE'')]"]
  by (auto simp: plain_path_def first_chubby_def sessions_of_def acquire_spec_def release_spec_def
      table_put_def empty_table_def Let_def)

lemma exclusive_lock_excludes_witness:
  "\<exists>answers x'. serve_all mem_env first_locks ''127.0.0.1:50051''
      [Acquire (sample_lock ''7'' ''EXCLUSIVE''), Acquire (sample_lock ''8'' ''SHARED''),
       Acquire (sample_lock ''7'' ''SHARED'')] = Some (answers, x') \<and>
    (fst (hd answers) \<longrightarrow> \<not> fst (last answers))"
  using exclusive_lock_excludes [OF lock_env_mem implements_first_locks, of
      "[Acquire (sample_lock ''8'' ''SHARED'')]" "sample_lock ''7'' ''EXCLUSIVE''" "sample_lock ''7'' ''SHARED''"]
  by (simp add: plain_path_def first_chubby_def releases_def)

end
