(* ===== verification/Client.thy ===== *)
theory Client
  imports ChubbyServer "HOL-Library.Multiset"
begin

text \<open>
  The client library \<open>ClientLib\<close> (src/client/client_interface.cpp and its header): the session
  (\<open>chubby_init\<close>, \<open>chubby_open\<close>, \<open>chubby_close\<close>, \<open>chubby_shutdown\<close>), the two lock calls and the
  loops of \<open>send_keep_alive\<close>.

  What the library takes from outside is the record \<open>world\<close>, an argument of the operations: the
  clock in seconds, the RPCs, the random choices.  Each maps the state of the outside, of type
  \<open>'w\<close>, to a value and the next state.
\<close>

section \<open>The state\<close>

text \<open>\<open>chubby_map\<close> holds for every address whether its stub has been made (\<open>False\<close>: null).\<close>

record client_lib =
  chubby_cells :: "(string, unit) smap"
  chubby_map :: "(string, bool) smap"
  current_leader :: string
  client_lease_timeout :: int
  accept_requests :: bool
  latest_epoch_number :: int
  client_id :: int

definition grace_period :: int where "grace_period = 45"

definition client_lease :: int where "client_lease = 12"

definition connection_try_limit :: nat where "connection_try_limit = 5"

definition to_uint64 :: "int \<Rightarrow> int" where
  "to_uint64 x = x mod 2 ^ 64"

definition ClientLib_new :: "int \<Rightarrow> client_lib" where
  "ClientLib_new raw_id =
     \<lparr>chubby_cells = [], chubby_map = [], current_leader = ''127.0.0.1:50051'',
      client_lease_timeout = 0, accept_requests = True, latest_epoch_number = 0,
      client_id = raw_id\<rparr>"

record 'w world =
  w_clock :: "'w \<Rightarrow> int \<times> 'w"
  w_acquire :: "string \<Rightarrow> lock_request \<Rightarrow> 'w \<Rightarrow> lock_response result \<times> 'w"
  w_release :: "string \<Rightarrow> lock_request \<Rightarrow> 'w \<Rightarrow> lock_response result \<times> 'w"
  w_keepalive :: "string \<Rightarrow> string \<Rightarrow> int \<Rightarrow> 'w \<Rightarrow> keepalive_response result \<times> 'w"
  w_sample :: "nat \<Rightarrow> string list \<Rightarrow> 'w \<Rightarrow> string list \<times> 'w"
  w_shuffle :: "string list \<Rightarrow> 'w \<Rightarrow> string list \<times> 'w"

text \<open>\<open>chubby_map[address]->...\<close>: a missing entry is made, null, and null is dereferenced.\<close>

definition has_stub :: "client_lib \<Rightarrow> string \<Rightarrow> bool" where
  "has_stub cl address \<longleftrightarrow> map_of (chubby_map cl) address = Some True"

section \<open>The session\<close>

text \<open>The lines of the configuration file, \<open>None\<close> when it cannot be opened; \<open>reachable\<close> tells
  which channels are not in a failed state.\<close>

definition add_line :: "client_lib \<Rightarrow> string \<Rightarrow> client_lib" where
  "add_line cl line =
     (if line = '''' then cl
      else cl\<lparr>chubby_cells := smap_put line () (chubby_cells cl),
              chubby_map := smap_put line False (chubby_map cl)\<rparr>)"

definition add_stub :: "client_lib \<Rightarrow> string \<Rightarrow> client_lib" where
  "add_stub cl address = cl\<lparr>chubby_map := smap_put address True (chubby_map cl)\<rparr>"

definition chubby_init ::
  "string list option \<Rightarrow> (string \<Rightarrow> bool) \<Rightarrow> int \<Rightarrow> client_lib \<Rightarrow> int \<times> client_lib" where
  "chubby_init config_file reachable current_time cl =
     (case config_file of
        None \<Rightarrow> (- 1, cl)
      | Some ls \<Rightarrow>
          (let cl1 = foldl add_line cl ls in
           if chubby_cells cl1 = [] then (- 1, cl1)
           else
             (let addresses = smap_keys (chubby_cells cl1);
                  cl2 = foldl add_stub cl1 addresses;
                  num_servers_successful = length (filter reachable addresses)
              in (if num_servers_successful = 0 then - 1 else 0,
                  cl2\<lparr>client_lease_timeout := to_uint64 (current_time * 2)\<rparr>))))"

definition chubby_shutdown :: "client_lib \<Rightarrow> int \<times> client_lib" where
  "chubby_shutdown cl =
     (0, cl\<lparr>chubby_map := foldl (\<lambda>m address. smap_put address False m) (chubby_map cl)
                            (smap_keys (chubby_cells cl)),
            chubby_cells := []\<rparr>)"

definition chubby_close :: "client_lib \<Rightarrow> int \<times> client_lib" where
  "chubby_close cl = (0, cl)"

text \<open>The first statement of the function returns.\<close>

definition chubby_cell_handling_request_finder :: "client_lib \<Rightarrow> string" where
  "chubby_cell_handling_request_finder cl = ''127.0.0.1:50051''"

text \<open>
  The rest of its body, which is never reached: the present leader if it answers \<open>ping\<close>, otherwise
  the first server of a shuffled sample that does, the empty string when none of them does.  A look-up
  of an address that is not in \<open>chubby_map\<close> makes an entry for it, null.
\<close>

definition look_up_stub :: "string \<Rightarrow> client_lib \<Rightarrow> client_lib" where
  "look_up_stub address cl =
     (if map_of (chubby_map cl) address = None
      then cl\<lparr>chubby_map := smap_put address False (chubby_map cl)\<rparr> else cl)"

fun ping_ports ::
  "(string \<Rightarrow> 'w \<Rightarrow> bool \<times> 'w) \<Rightarrow> string list \<Rightarrow> nat \<Rightarrow> client_lib \<Rightarrow> 'w \<Rightarrow> string \<times> client_lib \<times> 'w" where
  "ping_ports ping [] num_tries cl w = ('''', cl, w)"
| "ping_ports ping (address # ports) num_tries cl w =
     (if \<not> has_stub cl address then ('''', look_up_stub address cl, w)
      else
        (case ping address w of
           (True, w1) \<Rightarrow> (address, cl, w1)
         | (False, w1) \<Rightarrow>
             if num_tries + 1 = connection_try_limit then ('''', cl, w1)
             else ping_ports ping ports (num_tries + 1) cl w1))"

definition request_finder_body ::
  "'w world \<Rightarrow> (string \<Rightarrow> 'w \<Rightarrow> bool \<times> 'w) \<Rightarrow> client_lib \<Rightarrow> 'w \<Rightarrow> string result \<times> client_lib \<times> 'w" where
  "request_finder_body W ping cl w =
     (if current_leader cl \<noteq> ''UNKNOWN'' \<and> \<not> has_stub cl (current_leader cl)
      then (Raise Null_pointer, look_up_stub (current_leader cl) cl, w)
      else
        (case (if current_leader cl \<noteq> ''UNKNOWN'' then ping (current_leader cl) w else (False, w)) of
           (True, w1) \<Rightarrow> (Ok (current_leader cl), cl, w1)
         | (False, w1) \<Rightarrow>
             (case w_sample W connection_try_limit (smap_keys (chubby_cells cl)) w1 of
                (sampled, w2) \<Rightarrow>
                  (case w_shuffle W (sampled @ replicate (connection_try_limit - length sampled) '''') w2 of
                     (server_ports, w3) \<Rightarrow>
                       (case ping_ports ping server_ports 0 cl w3 of
                          (found, cl', w4) \<Rightarrow> (Ok found, cl', w4))))))"

text \<open>A server that this search finds has a stub and has answered.\<close>

definition answers :: "(string \<Rightarrow> 'w \<Rightarrow> bool \<times> 'w) \<Rightarrow> string \<Rightarrow> bool" where
  "answers ping address \<longleftrightarrow> (\<exists>w. fst (ping address w))"

lemma answersI: "ping address w = (True, w') \<Longrightarrow> answers ping address"
  unfolding answers_def by (metis fst_conv)

lemma ping_ports_found:
  "ping_ports ping ports n cl w = (address, cl', w') \<Longrightarrow> address \<noteq> [] \<Longrightarrow>
   has_stub cl address \<and> answers ping address \<and> cl' = cl"
  by (induction ping ports n cl w rule: ping_ports.induct)
    (auto split: if_splits prod.splits bool.splits dest: answersI)

lemma request_finder_body_found:
  assumes "request_finder_body W ping cl w = (Ok address, cl', w')" "address \<noteq> []"
  shows "has_stub cl address \<and> answers ping address \<and> cl' = cl"
proof -
  obtain w1 found where first: "(if current_leader cl \<noteq> ''UNKNOWN'' then ping (current_leader cl) w else (False, w)) =
      (found, w1)" by fastforce
  show ?thesis
  proof (cases found)
    case True
    with first assms show ?thesis
      by (auto simp: request_finder_body_def split: if_splits dest: answersI)
  next
    case False
    obtain ports w3 cl2 w4 where "ping_ports ping ports 0 cl w3 = (address, cl2, w4)" "cl' = cl2"
      using assms(1) first False
      by (auto simp: request_finder_body_def simp del: ping_ports.simps split: if_splits prod.splits)
    with ping_ports_found [of ping ports 0 cl w3] assms(2) show ?thesis by simp
  qed
qed

section \<open>The lock calls\<close>

text \<open>
  The end of both calls when the RPC has returned \<open>OK\<close>: the leader of the response is taken over
  whatever the response says.
\<close>

definition take_reply :: "lock_response \<Rightarrow> client_lib \<Rightarrow> int \<times> client_lib" where
  "take_reply resp cl =
     (if lr_success resp then 0 else - 1, cl\<lparr>current_leader := lr_current_leader resp\<rparr>)"

definition chubby_lock ::
  "'w world \<Rightarrow> string \<Rightarrow> string \<Rightarrow> client_lib \<Rightarrow> 'w \<Rightarrow> int result \<times> client_lib \<times> 'w" where
  "chubby_lock W path locking_mode cl w =
     (if \<not> accept_requests cl then (Ok (- 4), cl, w)
      else
        (case w_clock W w of
           (current_time, w1) \<Rightarrow>
             if current_time < client_lease_timeout cl then
               (if \<not> has_stub cl (current_leader cl) then (Raise Null_pointer, cl, w1)
                else
                  (case w_acquire W (current_leader cl)
                          \<lparr>lq_client_id = to_string (client_id cl), lq_path = path,
                           lq_locking_mode = locking_mode\<rparr> w1 of
                     (Ok resp, w2) \<Rightarrow>
                       (case take_reply resp cl of (code, cl') \<Rightarrow> (Ok code, cl', w2))
                   | (Error e, w2) \<Rightarrow> (Ok (if e = ABORTED then - 5 else - 2), cl, w2)
                   | (Raise x, w2) \<Rightarrow> (Ok (- 2), cl, w2)
                   | (Blocked, w2) \<Rightarrow> (Blocked, cl, w2)))
             else (Ok (- 3), cl, w1)))"

text \<open>\<open>chubby_unlock\<close> has no branch for the other error codes: they fall through to \<open>return 0\<close>.\<close>

definition chubby_unlock ::
  "'w world \<Rightarrow> string \<Rightarrow> client_lib \<Rightarrow> 'w \<Rightarrow> int result \<times> client_lib \<times> 'w" where
  "chubby_unlock W path cl w =
     (if \<not> accept_requests cl then (Ok (- 4), cl, w)
      else
        (case w_clock W w of
           (current_time, w1) \<Rightarrow>
             if current_time < client_lease_timeout cl then
               (if \<not> has_stub cl (current_leader cl) then (Raise Null_pointer, cl, w1)
                else
                  (case w_release W (current_leader cl)
                          \<lparr>lq_client_id = to_string (client_id cl), lq_path = path,
                           lq_locking_mode = ''''\<rparr> w1 of
                     (Ok resp, w2) \<Rightarrow>
                       (case take_reply resp cl of (code, cl') \<Rightarrow> (Ok code, cl', w2))
                   | (Error e, w2) \<Rightarrow>
                       (Ok (if e = ABORTED then - 5 else if e = DEADLINE_EXCEEDED then - 2 else 0),
                        cl, w2)
                   | (Raise x, w2) \<Rightarrow> (Ok 0, cl, w2)
                   | (Blocked, w2) \<Rightarrow> (Blocked, cl, w2)))
             else (Ok (- 3), cl, w1)))"

section \<open>send_keep_alive\<close>

text \<open>
  A reply with a newer epoch makes both loops go round again without reading the clock.  The
  comparison is between a \<open>uint32\<close> and an \<open>int\<close>, hence unsigned.
\<close>

definition newer_epoch :: "keepalive_response \<Rightarrow> client_lib \<Rightarrow> bool" where
  "newer_epoch resp cl \<longleftrightarrow> to_uint32 (latest_epoch_number cl) < kr_epoch_number resp"

definition note_epoch :: "keepalive_response \<Rightarrow> client_lib \<Rightarrow> client_lib" where
  "note_epoch resp cl = cl\<lparr>latest_epoch_number := to_int32 (kr_epoch_number resp)\<rparr>"

text \<open>
  \<open>server_ports\<close>: a vector of \<open>connection_try_limit\<close> empty strings, the first of them
  overwritten by a sample of the cells, and then all of it shuffled.
\<close>

definition pick_port :: "'w world \<Rightarrow> client_lib \<Rightarrow> 'w \<Rightarrow> string \<times> 'w" where
  "pick_port W cl w =
     (case w_sample W connection_try_limit (smap_keys (chubby_cells cl)) w of
        (sampled, w1) \<Rightarrow>
          (case w_shuffle W (sampled @ replicate (connection_try_limit - length sampled) '''') w1 of
             (server_ports, w2) \<Rightarrow> (hd server_ports, w2)))"

partial_function (option) grace_loop ::
  "'w world \<Rightarrow> client_lib \<Rightarrow> int \<Rightarrow> 'w \<Rightarrow> (int result \<times> client_lib \<times> 'w) option" where
  "grace_loop W cl current_time w =
     (if current_time < to_uint64 (client_lease_timeout cl + grace_period) then
        (let cl1 = cl\<lparr>accept_requests := False\<rparr> in
         (case pick_port W cl1 w of
            (port, w1) \<Rightarrow>
              if port = '''' then Some (Ok (- 2), cl1, w1)
              else if \<not> has_stub cl1 port then Some (Raise Null_pointer, cl1, w1)
              else
                (case w_keepalive W port (to_string (client_id cl1))
                        (to_uint32 (latest_epoch_number cl1)) w1 of
                   (r, w2) \<Rightarrow>
                     if r = Blocked then Some (Blocked, cl1, w2)
                     else
                       (case r of
                          Ok resp \<Rightarrow>
                            if kr_success resp then
                              (if newer_epoch resp cl1
                               then grace_loop W (note_epoch resp cl1) current_time w2
                               else Some (Ok 0,
                                      cl1\<lparr>client_lease_timeout := kr_lease_timeout resp,
                                          current_leader := port, accept_requests := True\<rparr>, w2))
                            else (case w_clock W w2 of (t, w3) \<Rightarrow> grace_loop W cl1 t w3)
                        | _ \<Rightarrow> (case w_clock W w2 of (t, w3) \<Rightarrow> grace_loop W cl1 t w3)))))
      else Some (Ok (- 1), cl, w))"

declare grace_loop.simps [code]

partial_function (option) lease_loop ::
  "'w world \<Rightarrow> client_lib \<Rightarrow> int \<Rightarrow> 'w \<Rightarrow> (int result \<times> client_lib \<times> 'w) option" where
  "lease_loop W cl current_time w =
     (if current_time < client_lease_timeout cl then
        (if \<not> has_stub cl (current_leader cl) then Some (Raise Null_pointer, cl, w)
         else
           (case w_keepalive W (current_leader cl) (to_string (client_id cl))
                   (to_uint32 (latest_epoch_number cl)) w of
              (r, w1) \<Rightarrow>
                if r = Blocked then Some (Blocked, cl, w1)
                else
                  (case r of
                     Ok resp \<Rightarrow>
                       if kr_success resp then
                         (if newer_epoch resp cl
                          then lease_loop W (note_epoch resp cl) current_time w1
                          else Some (Ok 0, cl\<lparr>client_lease_timeout := kr_lease_timeout resp,
                                             accept_requests := True\<rparr>, w1))
                       else (case w_clock W w1 of (t, w2) \<Rightarrow> lease_loop W cl t w2)
                   | _ \<Rightarrow> (case w_clock W w1 of (t, w2) \<Rightarrow> lease_loop W cl t w2))))
      else (case w_clock W w of (t, w1) \<Rightarrow> grace_loop W cl t w1))"

declare lease_loop.simps [code]

definition send_keep_alive ::
  "'w world \<Rightarrow> client_lib \<Rightarrow> 'w \<Rightarrow> (int result \<times> client_lib \<times> 'w) option" where
  "send_keep_alive W cl w = (case w_clock W w of (t, w1) \<Rightarrow> lease_loop W cl t w1)"

text \<open>\<open>chubby_open\<close>; the random client id is an argument.\<close>

definition chubby_open ::
  "'w world \<Rightarrow> int \<Rightarrow> client_lib \<Rightarrow> 'w \<Rightarrow> (int result \<times> client_lib \<times> 'w) option" where
  "chubby_open W random_id cl w =
     (case w_clock W w of
        (current_time, w1) \<Rightarrow>
          send_keep_alive W (cl\<lparr>client_id := random_id,
            client_lease_timeout := to_uint64 (current_time + client_lease)\<rparr>) w1)"

section \<open>What a successful KeepAlive leaves\<close>

text \<open>A lease as some server has granted it.\<close>

definition granted_lease :: "'w world \<Rightarrow> client_lib \<Rightarrow> bool" where
  "granted_lease W cl \<longleftrightarrow>
     (\<exists>address client epoch w w' resp. w_keepalive W address client epoch w = (Ok resp, w') \<and>
        kr_success resp \<and> client_lease_timeout cl = kr_lease_timeout resp)"

lemma granted_leaseI:
  assumes "fst (w_keepalive W address client epoch w) = Ok resp" "kr_success resp"
    "client_lease_timeout cl = kr_lease_timeout resp"
  shows "granted_lease W cl"
  using assms unfolding granted_lease_def by (metis prod.collapse)

lemma grace_loop_granted:
  assumes "grace_loop W cl t w = Some y"
  shows "fst y = Ok 0 \<longrightarrow> accept_requests (fst (snd y)) \<and> granted_lease W (fst (snd y))"
  apply (rule grace_loop.raw_induct [where P = "\<lambda>W cl t w y. fst y = Ok 0 \<longrightarrow>
      accept_requests (fst (snd y)) \<and> granted_lease W (fst (snd y))", OF _ assms])
  subgoal premises prems for rec W cl t w y
    using prems(2)
    by (auto simp: Let_def split_beta intro: granted_leaseI dest!: prems(1)
        split: if_splits result.splits prod.splits)
  done

lemma lease_loop_granted:
  assumes "lease_loop W cl t w = Some y"
  shows "fst y = Ok 0 \<longrightarrow> accept_requests (fst (snd y)) \<and> granted_lease W (fst (snd y))"
  apply (rule lease_loop.raw_induct [where P = "\<lambda>W cl t w y. fst y = Ok 0 \<longrightarrow>
      accept_requests (fst (snd y)) \<and> granted_lease W (fst (snd y))", OF _ assms])
  subgoal premises prems for rec W cl t w y
    using prems(2)
    by (auto simp: Let_def split_beta intro: granted_leaseI dest!: prems(1) dest: grace_loop_granted
        split: if_splits result.splits prod.splits)
  done

section \<open>An outage\<close>

text \<open>
  \<open>random_choice W\<close>: the laws of \<open>std::ranges::sample\<close>, which takes as many different elements as there
  are, at most \<open>n\<close>, and of \<open>std::ranges::shuffle\<close>, which permutes.  \<open>outage W now cl\<close>: the clock never
  goes back, every \<open>KeepAlive\<close> fails and takes at least a second, with the second of sleep after it, the
  cells of the configuration file have addresses and stubs, and so has the current leader.
\<close>

definition random_choice :: "'w world \<Rightarrow> bool" where
  "random_choice W \<longleftrightarrow>
     (\<forall>n xs w. mset (fst (w_sample W n xs w)) \<subseteq># mset xs \<and> length (fst (w_sample W n xs w)) = min n (length xs)) \<and>
     (\<forall>xs w. mset (fst (w_shuffle W xs w)) = mset xs)"

definition outage :: "'w world \<Rightarrow> ('w \<Rightarrow> int) \<Rightarrow> client_lib \<Rightarrow> bool" where
  "outage W now cl \<longleftrightarrow>
     (\<forall>w. fst (w_clock W w) = now (snd (w_clock W w)) \<and> now w \<le> now (snd (w_clock W w))) \<and>
     (\<forall>n xs w. now w \<le> now (snd (w_sample W n xs w)) \<and> now w \<le> now (snd (w_shuffle W xs w))) \<and>
     (\<forall>a i e w. (\<exists>x. fst (w_keepalive W a i e w) = Error x) \<and> now w + 1 \<le> now (snd (w_keepalive W a i e w))) \<and>
     (\<forall>a \<in> set (smap_keys (chubby_cells cl)). a \<noteq> '''' \<and> has_stub cl a) \<and>
     has_stub cl (current_leader cl)"

lemma outage_refused [simp]:
  "pick_port W (cl\<lparr>accept_requests := b\<rparr>) = pick_port W cl"
  "has_stub (cl\<lparr>accept_requests := b\<rparr>) = has_stub cl"
  "outage W now (cl\<lparr>accept_requests := b\<rparr>) = outage W now cl"
  by (simp_all add: pick_port_def fun_eq_iff has_stub_def outage_def)

lemma outage_clock:
  assumes "outage W now cl"
  obtains t w1 where "w_clock W w = (t, w1)" "t = now w1" "now w \<le> now w1"
  using assms unfolding outage_def by (metis prod.collapse)

lemma outage_call:
  assumes "outage W now cl"
  obtains x w1 where "w_keepalive W a i e w = (Error x, w1)" "now w + 1 \<le> now w1"
  using assms unfolding outage_def by (metis prod.collapse)

text \<open>What is picked is the address of a cell, or empty when there are fewer cells than places.\<close>

lemma pick_port_cases:
  assumes "random_choice W" "outage W now cl" "pick_port W cl w = (port, w')"
  shows "now w \<le> now w' \<and>
    (port \<noteq> '''' \<and> has_stub cl port \<or> port = '''' \<and> length (smap_keys (chubby_cells cl)) < connection_try_limit)"
proof -
  let ?cells = "smap_keys (chubby_cells cl)"
  obtain sampled w1 where s: "w_sample W connection_try_limit ?cells w = (sampled, w1)" by fastforce
  let ?ports = "sampled @ replicate (connection_try_limit - length sampled) ''''"
  obtain ports w2 where sh: "w_shuffle W ?ports w1 = (ports, w2)" by fastforce
  have pick: "port = hd ports" "w' = w2" using assms(3) s sh by (simp_all add: pick_port_def)
  have sampled: "mset sampled \<subseteq># mset ?cells" "length sampled = min connection_try_limit (length ?cells)"
    using assms(1) s unfolding random_choice_def by (metis fst_conv)+
  have cells: "set sampled \<subseteq> set ?cells" using set_mset_mono [OF sampled(1)] by simp
  have perm: "mset ports = mset ?ports" using assms(1) sh unfolding random_choice_def by (metis fst_conv)
  have "length ports = length ?ports" by (rule mset_eq_length [OF perm])
  then have "ports \<noteq> []" using sampled(2) by (auto simp: connection_try_limit_def)
  then have "port \<in> set ?ports" using pick(1) mset_eq_setD [OF perm] by auto
  then have "port \<in> set ?cells \<or> port = '''' \<and> length ?cells < connection_try_limit"
    using cells sampled(2) by (auto split: if_splits)
  moreover have "now w \<le> now w1" "now w1 \<le> now w2"
    using assms(2) s sh unfolding outage_def by (metis snd_conv)+
  ultimately show ?thesis using assms(2) pick(2) by (auto simp: outage_def)
qed

text \<open>
  How a round of keepalives ends in an outage: with -1 after the grace period, or with -2, at once, when an
  empty string has been picked.
\<close>

definition given_up :: "('w \<Rightarrow> int) \<Rightarrow> client_lib \<Rightarrow> int \<Rightarrow> client_lib \<Rightarrow> 'w \<Rightarrow> bool" where
  "given_up now cl r cl' w' \<longleftrightarrow> client_lease_timeout cl' = client_lease_timeout cl \<and>
     (r = - 1 \<and> to_uint64 (client_lease_timeout cl + grace_period) \<le> now w' \<or>
      r = - 2 \<and> length (smap_keys (chubby_cells cl)) < connection_try_limit)"

lemma grace_loop_outage:
  assumes "random_choice W" "outage W now cl" "current_time \<le> now w"
  shows "\<exists>r cl' w'. grace_loop W cl current_time w = Some (Ok r, cl', w') \<and> given_up now cl r cl' w' \<and> now w \<le> now w'"
  using assms
proof (induction "nat (to_uint64 (client_lease_timeout cl + grace_period) - current_time)"
    arbitrary: current_time w cl rule: less_induct)
  case less
  let ?bound = "to_uint64 (client_lease_timeout cl + grace_period)"
  show ?case
  proof (cases "current_time < ?bound")
    case False
    then have "?bound \<le> now w" using less.prems(3) by linarith
    with False show ?thesis by (simp add: grace_loop.simps given_up_def)
  next
    case True
    let ?cl = "cl\<lparr>accept_requests := False\<rparr>"
    obtain port w1 where p: "pick_port W cl w = (port, w1)" by fastforce
    note picked = pick_port_cases [OF less.prems(1,2) p]
    show ?thesis
    proof (cases "port = ''''")
      case empty: True
      then have "grace_loop W cl current_time w = Some (Ok (- 2), ?cl, w1)"
        using True p by (subst grace_loop.simps) (simp add: Let_def)
      with picked empty show ?thesis by (simp add: given_up_def)
    next
      case False
      then have port: "has_stub cl port" "now w \<le> now w1" using picked by simp_all
      obtain x w2 where c: "w_keepalive W port (to_string (client_id cl)) (to_uint32 (latest_epoch_number cl)) w1 =
          (Error x, w2)" "now w1 + 1 \<le> now w2" using outage_call [OF less.prems(2)] by blast
      obtain t w3 where k: "w_clock W w2 = (t, w3)" "t = now w3" "now w2 \<le> now w3"
        using outage_clock [OF less.prems(2)] by blast
      have step: "grace_loop W cl current_time w = grace_loop W ?cl t w3"
        using True False p port c(1) k(1) by (subst grace_loop.simps) (simp add: Let_def)
      have "nat (?bound - t) < nat (?bound - current_time)"
        using True less.prems(3) port(2) c(2) k(2,3) by linarith
      then obtain r cl' w' where "grace_loop W ?cl t w3 = Some (Ok r, cl', w')" "given_up now ?cl r cl' w'" "now w3 \<le> now w'"
        using less.hyps [of ?cl t w3] less.prems(1,2) k(2) by auto
      moreover have "now w \<le> now w3" using port(2) c(2) k(3) by linarith
      ultimately show ?thesis unfolding step by (auto simp: given_up_def)
    qed
  qed
qed

lemma lease_loop_outage:
  assumes "random_choice W" "outage W now cl" "current_time \<le> now w"
  shows "\<exists>r cl' w'. lease_loop W cl current_time w = Some (Ok r, cl', w') \<and> given_up now cl r cl' w' \<and>
    client_lease_timeout cl \<le> now w'"
  using assms
proof (induction "nat (client_lease_timeout cl - current_time)" arbitrary: current_time w rule: less_induct)
  case less
  show ?case
  proof (cases "current_time < client_lease_timeout cl")
    case False
    obtain t w1 where k: "w_clock W w = (t, w1)" "t = now w1" "now w \<le> now w1"
      using outage_clock [OF less.prems(2)] by blast
    have "lease_loop W cl current_time w = grace_loop W cl t w1"
      using False k(1) by (subst lease_loop.simps) simp
    moreover have "client_lease_timeout cl \<le> now w1" using False less.prems(3) k(3) by linarith
    ultimately show ?thesis using grace_loop_outage [OF less.prems(1,2), of t w1] k(2) by fastforce
  next
    case True
    have stub: "has_stub cl (current_leader cl)" using less.prems(2) by (simp add: outage_def)
    obtain x w1 where c: "w_keepalive W (current_leader cl) (to_string (client_id cl))
        (to_uint32 (latest_epoch_number cl)) w = (Error x, w1)" "now w + 1 \<le> now w1"
      using outage_call [OF less.prems(2)] by blast
    obtain t w2 where k: "w_clock W w1 = (t, w2)" "t = now w2" "now w1 \<le> now w2"
      using outage_clock [OF less.prems(2)] by blast
    have step: "lease_loop W cl current_time w = lease_loop W cl t w2"
      using True stub c(1) k(1) by (subst lease_loop.simps) simp
    have "nat (client_lease_timeout cl - t) < nat (client_lease_timeout cl - current_time)"
      using True less.prems(3) c(2) k(2,3) by linarith
    from less.hyps [of t w2] this less.prems(1,2) k(2) show ?thesis unfolding step by simp
  qed
qed

section \<open>Properties of the client\<close>

definition lock_message :: "client_lib \<Rightarrow> string \<Rightarrow> string \<Rightarrow> lock_request" where
  "lock_message cl path mode =
     \<lparr>lq_client_id = to_string (client_id cl), lq_path = path, lq_locking_mode = mode\<rparr>"

text \<open>
  \<open>chubby_lock\<close> reports success exactly when the client accepts requests, its lease has not
  run out by the clock, the stub of the leader exists, and the server answered the \<open>AcquireLock\<close>
  RPC with success.
\<close>
theorem lock_call_succeeds:
  "(\<exists>cl' w'. chubby_lock W path mode cl w = (Ok 0, cl', w')) \<longleftrightarrow>
   accept_requests cl \<and> fst (w_clock W w) < client_lease_timeout cl \<and>
   has_stub cl (current_leader cl) \<and>
   (\<exists>resp. fst (w_acquire W (current_leader cl) (lock_message cl path mode) (snd (w_clock W w))) =
      Ok resp \<and> lr_success resp)"
  unfolding chubby_lock_def take_reply_def lock_message_def
  by (auto simp: split_beta split: result.splits if_splits)

text \<open>
  When the \<open>ReleaseLock\<close> RPC fails with a code other than \<open>ABORTED\<close> and
  \<open>DEADLINE_EXCEEDED\<close> (a server that cannot be reached, say), \<open>chubby_unlock\<close> returns 0, the
  code of success, with the client's state unchanged.
\<close>
theorem unlock_hides_failures:
  assumes "accept_requests cl" "fst (w_clock W w) < client_lease_timeout cl"
    "has_stub cl (current_leader cl)"
    "w_release W (current_leader cl) (lock_message cl path '''') (snd (w_clock W w)) = (Error e, w')"
    "e \<noteq> ABORTED" "e \<noteq> DEADLINE_EXCEEDED"
  shows "chubby_unlock W path cl w = (Ok 0, cl, w')"
  using assms by (simp add: chubby_unlock_def lock_message_def split_beta)

text \<open>
  When \<open>send_keep_alive\<close> returns 0, through either loop and after any number of retries,
  the client accepts requests again and its lease is one that a server has granted in a
  successful \<open>KeepAlive\<close> response.
\<close>
theorem keepalive_success_is_granted:
  assumes "send_keep_alive W cl w = Some (Ok 0, cl', w')"
  shows "accept_requests cl' \<and> granted_lease W cl'"
  using lease_loop_granted [of W cl "fst (w_clock W w)" "snd (w_clock W w)"] assms
  by (auto simp: send_keep_alive_def split_beta)

text \<open>
  C28: when every \<open>KeepAlive\<close> fails, \<open>send_keep_alive\<close> still returns, after the lease has run out: with -1
  when also the 45 seconds of the grace period have gone by, or before that with -2 when the client knows
  fewer than five cells, so that the random choice can hit an empty string.  After it \<open>chubby_lock\<close>
  refuses with -3 or -4.
\<close>
theorem outage_ends_in_refusal:
  assumes "random_choice W" "outage W now cl" "0 \<le> client_lease_timeout cl"
    "client_lease_timeout cl + grace_period < 2 ^ 64"
  shows "\<exists>r cl' w'. send_keep_alive W cl w = Some (Ok r, cl', w') \<and> client_lease_timeout cl \<le> now w' \<and>
    (r = - 1 \<and> client_lease_timeout cl + grace_period \<le> now w' \<or>
     r = - 2 \<and> length (smap_keys (chubby_cells cl)) < 5) \<and>
    (\<forall>path mode. fst (chubby_lock W path mode cl' w') \<in> {Ok (- 3), Ok (- 4)})"
proof -
  obtain t w1 where k: "w_clock W w = (t, w1)" "t = now w1" using outage_clock [OF assms(2)] by blast
  obtain r cl' w' where run: "lease_loop W cl t w1 = Some (Ok r, cl', w')" "given_up now cl r cl' w'"
      "client_lease_timeout cl \<le> now w'"
    using lease_loop_outage [OF assms(1,2), of t w1] k(2) by auto
  obtain t2 w2 where k2: "w_clock W w' = (t2, w2)" "t2 = now w2" "now w' \<le> now w2"
    using outage_clock [OF assms(2)] by blast
  have "\<not> t2 < client_lease_timeout cl'" using run(2,3) k2(2,3) by (simp add: given_up_def)
  then have "fst (chubby_lock W path mode cl' w') \<in> {Ok (- 3), Ok (- 4)}" for path mode
    by (simp add: chubby_lock_def k2(1))
  moreover have "to_uint64 (client_lease_timeout cl + grace_period) = client_lease_timeout cl + grace_period"
    using assms(3,4) by (simp add: to_uint64_def grace_period_def)
  ultimately show ?thesis
    using run k(1) by (auto simp: send_keep_alive_def given_up_def connection_try_limit_def)
qed

text \<open>
  With fewer than five cells the vector of ports keeps empty strings, and a shuffle that
  brings one of them to the front ends the grace period at once: \<open>send_keep_alive\<close>'s second loop
  returns -2 without having called any server.
\<close>
theorem few_cells_end_the_grace_period:
  assumes "current_time < to_uint64 (client_lease_timeout cl + grace_period)"
    "w_sample W connection_try_limit (smap_keys (chubby_cells cl)) w = (sampled, w1)"
    "length sampled < connection_try_limit"
    "\<And>ports w. w_shuffle W ports w = (rev ports, w)"
  shows "grace_loop W cl current_time w = Some (Ok (- 2), cl\<lparr>accept_requests := False\<rparr>, w1)"
proof -
  have "hd (replicate (connection_try_limit - length sampled) ('''' :: string) @ rev sampled) = ''''"
    using assms(3) by (simp add: hd_append)
  then have "pick_port W cl w = ('''', w1)"
    using assms(2,4) by (simp add: pick_port_def)
  with assms(1) show ?thesis by (subst grace_loop.simps) (simp add: Let_def)
qed

section \<open>Witnesses of the client\<close>

text \<open>A world whose state is the clock, with one cell whose server never answers.\<close>

definition dead_world :: "int world" where
  "dead_world =
     \<lparr>w_clock = (\<lambda>t. (t, t)),
      w_acquire = (\<lambda>_ _ t. (Error UNAVAILABLE, t + 1)),
      w_release = (\<lambda>_ _ t. (Error UNAVAILABLE, t + 1)),
      w_keepalive = (\<lambda>_ _ _ t. (Error UNAVAILABLE, t + 1)),
      w_sample = (\<lambda>n xs t. (take n xs, t)),
      w_shuffle = (\<lambda>xs t. (xs, t))\<rparr>"

definition sample_client :: client_lib where
  "sample_client =
     (ClientLib_new 7)\<lparr>chubby_cells := [(''127.0.0.1:50051'', ())],
        chubby_map := [(''127.0.0.1:50051'', True)], client_lease_timeout := 100\<rparr>"

definition kind_world :: "int world" where
  "kind_world = dead_world
     \<lparr>w_keepalive := (\<lambda>_ _ _ t. (Ok \<lparr>kr_success = True, kr_lease_timeout = t + 12,
        kr_epoch_number = 0, kr_error_message = ''''\<rparr>, t))\<rparr>"

lemmas sample_client_defs =
  dead_world_def sample_client_def kind_world_def ClientLib_new_def has_stub_def
  lock_message_def smap_keys_def connection_try_limit_def

lemma unlock_hides_failures_witness:
  "chubby_unlock dead_world ''f'' sample_client 50 = (Ok 0, sample_client, 51)"
  by (rule unlock_hides_failures [where e = UNAVAILABLE]) (simp_all add: sample_client_defs)

text \<open>
  A client of three cells, in a world without servers whose shuffle rotates by the clock: the lease ends at
  100, and two of the five strings that are shuffled in the grace period are empty.
\<close>

definition rotating_world :: "int world" where
  "rotating_world = dead_world\<lparr>w_shuffle := (\<lambda>xs t. (rotate (nat t) xs, t))\<rparr>"

definition three_cells :: client_lib where
  "three_cells = sample_client
     \<lparr>chubby_cells := map (\<lambda>a. (a, ())) [''127.0.0.1:50051'', ''127.0.0.1:50052'', ''127.0.0.1:50053''],
      chubby_map := map (\<lambda>a. (a, True)) [''127.0.0.1:50051'', ''127.0.0.1:50052'', ''127.0.0.1:50053'']\<rparr>"

lemma outage_rotating_world: "random_choice rotating_world" "outage rotating_world id three_cells"
proof -
  have "mset (take n xs) \<subseteq># mset xs" for n and xs :: "string list"
    by (metis append_take_drop_id mset_append mset_subset_eq_add_left)
  moreover have "mset (rotate n xs) = mset xs" for n and xs :: "string list"
    by (simp add: rotate_drop_take) (metis append_take_drop_id mset_append union_commute)
  ultimately show "random_choice rotating_world"
    by (auto simp: random_choice_def rotating_world_def dead_world_def min_def)
  show "outage rotating_world id three_cells"
    by (simp add: outage_def rotating_world_def three_cells_def sample_client_defs)
qed

lemma keepalive_success_is_granted_witness:
  "(let cl' = fst (snd (the (send_keep_alive kind_world sample_client 50)))
    in accept_requests cl' \<and> granted_lease kind_world cl') \<and>
   send_keep_alive kind_world sample_client 50 =
     Some (Ok 0, sample_client\<lparr>client_lease_timeout := 62\<rparr>, 50)"
proof -
  have *: "send_keep_alive kind_world sample_client 50 =
      Some (Ok 0, sample_client\<lparr>client_lease_timeout := 62\<rparr>, 50)"
    by (simp add: send_keep_alive_def lease_loop.simps sample_client_defs newer_epoch_def
        to_uint32_def)
  show ?thesis using keepalive_success_is_granted [OF *] * by (simp add: Let_def)
qed

lemma outage_ends_in_refusal_witness:
  "\<exists>r cl' w'. send_keep_alive rotating_world three_cells 50 = Some (Ok r, cl', w') \<and> 100 \<le> w' \<and>
    (r = - 1 \<and> 145 \<le> w' \<or> r = - 2) \<and>
    (\<forall>path mode. fst (chubby_lock rotating_world path mode cl' w') \<in> {Ok (- 3), Ok (- 4)})"
proof -
  have lease: "client_lease_timeout three_cells = 100" by (simp add: three_cells_def sample_client_def)
  show ?thesis
    using outage_ends_in_refusal [OF outage_rotating_world, of 50] by (auto simp: lease grace_period_def)
qed

lemma few_cells_end_the_grace_period_witness:
  "grace_loop (dead_world\<lparr>w_shuffle := (\<lambda>xs t. (rev xs, t))\<rparr>) sample_client 110 110 =
     Some (Ok (- 2), sample_client\<lparr>accept_requests := False\<rparr>, 110)"
  by (rule few_cells_end_the_grace_period [where sampled = "[''127.0.0.1:50051'']"])
     (simp_all add: sample_client_defs to_uint64_def grace_period_def)

end
