(* ===== verification/ClientCell.thy ===== *)
theory ClientCell
  imports LockTable Client
begin

text \<open>
  The client library against a cell: the world of the client is a cell and the time in seconds, its
  RPCs are the handlers of the servers.  A call to \<open>chubby_lock\<close> then goes all the way down, to
  \<open>AcquireLock\<close>, the proposal, the learners and their databases, and comes back as the answer of the
  lock table.
\<close>

section \<open>The cell as a client's world\<close>

text \<open>
  An RPC that never returns is \<open>Blocked\<close>; a handler that raises gives a failed call.  \<open>KeepAlive\<close>
  waits at each server until the lease is about to end.
\<close>

definition reply_of :: "('r result \<times> 'd cell) option \<Rightarrow> 'd cell \<times> int \<Rightarrow> 'r result \<times> 'd cell \<times> int" where
  "reply_of res w =
     (case res of
        None \<Rightarrow> (Blocked, w)
      | Some (Raise e, x') \<Rightarrow> (Error UNKNOWN, x', snd w)
      | Some (r, x') \<Rightarrow> (r, x', snd w))"

definition wake_at :: "'d cell \<times> int \<Rightarrow> string \<Rightarrow> string \<Rightarrow> int" where
  "wake_at w client b =
     (case map_of (chubbies (fst w)) b of
        None \<Rightarrow> snd w * second
      | Some ch \<Rightarrow> max (snd w * second) (lease_of ch client - second div 10))"

definition cell_world :: "'d env \<Rightarrow> ('d cell \<times> int) world" where
  "cell_world E =
     \<lparr>w_clock = (\<lambda>w. (snd w, w)),
      w_acquire = (\<lambda>addr req w. reply_of (AcquireLock E (fst w) addr req) w),
      w_release = (\<lambda>addr req w. reply_of (ReleaseLock E (fst w) addr req) w),
      w_keepalive = (\<lambda>addr client epoch w.
         reply_of (KeepAlive (fst w) addr client (wake_at w client))
           (fst w, wake_at w client addr div second)),
      w_sample = (\<lambda>n xs w. (take n xs, w)),
      w_shuffle = (\<lambda>xs w. (xs, w))\<rparr>"

lemma cell_world_sel [simp]:
  "w_clock (cell_world E) w = (snd w, w)"
  "w_acquire (cell_world E) addr req w = reply_of (AcquireLock E (fst w) addr req) w"
  "w_release (cell_world E) addr req w = reply_of (ReleaseLock E (fst w) addr req) w"
  by (simp_all add: cell_world_def)

lemma reply_of_Ok [simp]: "reply_of (Some (Ok r, x')) w = (Ok r, x', snd w)"
  by (simp add: reply_of_def)

section \<open>A client with a running lease\<close>

definition may_call :: "client_lib \<Rightarrow> string \<Rightarrow> int \<Rightarrow> bool" where
  "may_call cl a t \<longleftrightarrow>
     accept_requests cl \<and> t < client_lease_timeout cl \<and> current_leader cl = a \<and> has_stub cl a"

definition code_of :: "bool \<times> string \<Rightarrow> int" where
  "code_of answer = (if fst answer then 0 else - 1)"

lemma chubby_lock_reply:
  assumes "may_call cl a t" "AcquireLock E x a (lock_message cl path mode) = Some (Ok r, x')"
  shows "chubby_lock (cell_world E) path mode cl (x, t) =
    (Ok (code_of (lr_success r, lr_error_message r)), cl\<lparr>current_leader := lr_current_leader r\<rparr>, x', t)"
  using assms by (simp add: chubby_lock_def may_call_def lock_message_def take_reply_def code_of_def)

lemma chubby_unlock_reply:
  assumes "may_call cl a t" "ReleaseLock E x a (lock_message cl path '''') = Some (Ok r, x')"
  shows "chubby_unlock (cell_world E) path cl (x, t) =
    (Ok (code_of (lr_success r, lr_error_message r)), cl\<lparr>current_leader := lr_current_leader r\<rparr>, x', t)"
  using assms by (simp add: chubby_unlock_def may_call_def lock_message_def take_reply_def code_of_def)

section \<open>Properties\<close>

text \<open>
  C11: from the client to the databases and back.  When a client with a running lease calls the
  leader of a healthy cell, \<open>chubby_lock\<close> and \<open>chubby_unlock\<close> return 0 when the lock table grants
  the request and -1 when it refuses it, and the cell they leave implements the table's next state.
\<close>
theorem client_calls_reach_the_table:
  fixes mode :: string
  assumes "lock_env E" "implements E x a s ch T" "in_int32 (slot_number ch + 1)"
    and "may_call cl a t" "CHR ''#'' \<notin> set path"
  defines "acq \<equiv> acquire_spec (sessions_of ch (to_string (client_id cl))) (lock_message cl path mode) T"
    and "rel \<equiv> release_spec (lock_message cl path '''') T"
  shows "(\<exists>cl' x' s' ch'. chubby_lock (cell_world E) path mode cl (x, t) =
        (Ok (code_of (fst acq)), cl', x', t) \<and> implements E x' a s' ch' (snd acq)) \<and>
    (\<exists>cl' x' s' ch'. chubby_unlock (cell_world E) path cl (x, t) =
        (Ok (code_of (fst rel)), cl', x', t) \<and> implements E x' a s' ch' (snd rel))"
proof (intro conjI)
  let ?req = "lock_message cl path mode" and ?rel = "lock_message cl path ''''"
  have p: "CHR ''#'' \<notin> set (lq_path ?req)" "CHR ''#'' \<notin> set (lq_path ?rel)"
    using assms(5) by (simp_all add: lock_message_def)
  have se: "acq = acquire_spec (map_of (client_lease_map ch) (lq_client_id ?req) \<noteq> None) ?req T"
    by (simp add: acq_def sessions_of_def lock_message_def)
  obtain r x' s' ch' where a: "AcquireLock E x a ?req = Some (Ok r, x')"
    "(lr_success r, lr_error_message r) = fst acq" "implements E x' a s' ch' (snd acq)"
    using AcquireLock_spec [OF assms(1-3) p(1)] unfolding se Let_def by blast
  show "\<exists>cl' x' s' ch'. chubby_lock (cell_world E) path mode cl (x, t) =
        (Ok (code_of (fst acq)), cl', x', t) \<and> implements E x' a s' ch' (snd acq)"
    using chubby_lock_reply [OF assms(4) a(1)] a(2,3) by fastforce
  obtain r x' s' ch' where b: "ReleaseLock E x a ?rel = Some (Ok r, x')"
    "(lr_success r, lr_error_message r) = fst rel" "implements E x' a s' ch' (snd rel)"
    using ReleaseLock_spec [OF assms(1,2) p(2)] unfolding rel_def by blast
  show "\<exists>cl' x' s' ch'. chubby_unlock (cell_world E) path cl (x, t) =
        (Ok (code_of (fst rel)), cl', x', t) \<and> implements E x' a s' ch' (snd rel)"
    using chubby_unlock_reply [OF assms(4) b(1)] b(2,3) by fastforce
qed

lemma client_calls_reach_the_table_witness:
  "\<exists>cl' x' s' ch'. chubby_lock (cell_world mem_env) ''a'' ''EXCLUSIVE'' sample_client (first_locks, 50) =
      (Ok 0, cl', x', 50) \<and>
    implements mem_env x' ''127.0.0.1:50051'' s' ch' (table_put ''a'' ''EXCLUSIVE'' empty_table)"
proof -
  have id: "to_string (client_id sample_client) = ''7''" by code_simp
  have "may_call sample_client ''127.0.0.1:50051'' 50"
    by (simp add: may_call_def sample_client_defs)
  from client_calls_reach_the_table [OF lock_env_mem implements_first_locks _ this, of "''a''" "''EXCLUSIVE''"]
  show ?thesis
    by (simp add: id first_chubby_def sessions_of_def acquire_spec_def empty_table_def
        lock_message_def code_of_def in_int32_def)
qed


section \<open>Opening a session\<close>

lemma implements_put:
  "implements E x a s ch T \<Longrightarrow> slot_number ch' = slot_number ch \<Longrightarrow> lock_map ch' = lock_map ch \<Longrightarrow>
   implements E (put_chubby a ch' x) a s ch' T"
  by (auto simp: implements_def intro: cell_holds_put)

text \<open>The state of the server after a \<open>KeepAlive\<close> that has waited until \<open>wake\<close>.\<close>

definition with_lease :: "string \<Rightarrow> int \<Rightarrow> chubby_impl \<Rightarrow> chubby_impl" where
  "with_lease client wake ch =
     ch\<lparr>client_lease_map := smap_put client (wake + lease_timeout) (client_lease_map ch)\<rparr>"

lemma KeepAlive_cell:
  assumes x: "implements E x a s ch T" and t: "0 \<le> t" "t < 2 ^ 32"
    and new: "map_of (client_lease_map ch) client = None"
  shows "w_keepalive (cell_world E) a client epoch (x, t) =
    (Ok \<lparr>kr_success = True, kr_lease_timeout = t + 12, kr_epoch_number = to_uint32 (view s),
         kr_error_message = ''''\<rparr>,
     put_chubby a (with_lease client (t * second) ch) x, t)"
proof -
  have srv: "server_at x a = Some (s, ch)" "\<not> leader_dead s"
    using x by (auto simp: implements_def cell_holds_def fast_leader_def)
  then have "map_of (chubbies x) a = Some ch" by (simp add: server_at_Some)
  with new t(1) have wake: "wake_at (x, t) client a = t * second"
    by (simp add: wake_at_def lease_of_def second_def max_def)
  have "(t * second + lease_timeout) div second mod 2 ^ 64 = t + 12"
    using t by (simp add: second_def lease_timeout_def)
  then show ?thesis
    using srv wake by (simp add: cell_world_def KeepAlive.simps KeepAlive_local_def with_lease_def second_def)
qed

lemma chubby_open_cell:
  assumes x: "implements E x a s ch T" and t: "0 \<le> t" "t < 2 ^ 32"
    and new: "map_of (client_lease_map ch) (to_string i) = None"
    and cl: "current_leader cl = a" "has_stub cl a" "to_uint32 (view s) \<le> to_uint32 (latest_epoch_number cl)"
  defines "ch' \<equiv> with_lease (to_string i) (t * second) ch"
  shows "chubby_open (cell_world E) i cl (x, t) =
      Some (Ok 0, cl\<lparr>client_id := i, client_lease_timeout := t + 12, accept_requests := True\<rparr>,
            put_chubby a ch' x, t)"
    and "implements E (put_chubby a ch' x) a s ch' T" "sessions_of ch' (to_string i)"
    "slot_number ch' = slot_number ch"
proof -
  have "to_uint64 (t + client_lease) = t + 12"
    using t by (simp add: to_uint64_def client_lease_def)
  then show "chubby_open (cell_world E) i cl (x, t) =
      Some (Ok 0, cl\<lparr>client_id := i, client_lease_timeout := t + 12, accept_requests := True\<rparr>,
            put_chubby a ch' x, t)"
    using cl KeepAlive_cell [OF x t new, of "to_uint32 (latest_epoch_number cl)"]
    by (simp add: chubby_open_def send_keep_alive_def lease_loop.simps has_stub_def newer_epoch_def ch'_def)
  show "implements E (put_chubby a ch' x) a s ch' T"
    using x by (rule implements_put) (simp_all add: ch'_def with_lease_def)
  show "sessions_of ch' (to_string i)" "slot_number ch' = slot_number ch"
    by (simp_all add: ch'_def with_lease_def sessions_of_def)
qed

text \<open>
  A session from its start.  A client without a session opens one on the leader of a healthy
  cell and then locks a path that nobody holds: \<open>chubby_open\<close> and \<open>chubby_lock\<close> both return 0, the
  lease ends twelve seconds after the opening, and the store of every server of the cell has the
  mode under the path.
\<close>
theorem open_then_lock:
  assumes "lock_env E" "implements E x a s ch T" "in_int32 (slot_number ch + 1)"
    and "0 \<le> t" "t < 2 ^ 32" "map_of (client_lease_map ch) (to_string i) = None"
    and "current_leader cl = a" "has_stub cl a"
    and "to_uint32 (view s) \<le> to_uint32 (latest_epoch_number cl)"
    and "CHR ''#'' \<notin> set path" "held T path = None"
  shows "\<exists>cl1 x1 cl2 x2. chubby_open (cell_world E) i cl (x, t) = Some (Ok 0, cl1, x1, t) \<and>
    client_lease_timeout cl1 = t + 12 \<and>
    chubby_lock (cell_world E) path mode cl1 (x1, t) = (Ok 0, cl2, x2, t) \<and>
    (\<forall>b \<in> set (smap_keys (paxos_stubs_map s)). \<exists>u. node (paxos x2) b = Some u \<and>
       store E (paxos_db u) = (held T)(path \<mapsto> mode))"
proof -
  let ?cl = "cl\<lparr>client_id := i, client_lease_timeout := t + 12, accept_requests := True\<rparr>"
  let ?req = "lock_message ?cl path mode"
  note op = chubby_open_cell [OF assms(2,4-9)]
  define ch1 where "ch1 = with_lease (to_string i) (t * second) ch"
  define x1 where "x1 = put_chubby a ch1 x"
  have n: "in_int32 (slot_number ch1 + 1)" using op(4) assms(3) by (simp add: ch1_def)
  have impl: "implements E x1 a s ch1 T" using op(2) by (simp add: ch1_def x1_def)
  have req: "CHR ''#'' \<notin> set (lq_path ?req)" "lq_path ?req = path" "lq_locking_mode ?req = mode"
    "map_of (client_lease_map ch1) (lq_client_id ?req) \<noteq> None"
    using assms(10) op(3) by (simp_all add: lock_message_def ch1_def sessions_of_def)
  obtain r x2 s2 ch2 where acq: "AcquireLock E x1 a ?req = Some (Ok r, x2)" "lr_success r"
    "implements E x2 a s2 ch2 (table_put path mode T)" "paxos_stubs_map s2 = paxos_stubs_map s"
    using AcquireLock_spec [OF assms(1) impl n req(1)] req(2-4) assms(11)
    by (auto simp: acquire_spec_def Let_def)
  have call: "may_call ?cl a t" using assms(7,8) by (simp add: may_call_def has_stub_def)
  have "chubby_lock (cell_world E) path mode ?cl (x1, t) =
      (Ok 0, ?cl\<lparr>current_leader := lr_current_leader r\<rparr>, x2, t)"
    using chubby_lock_reply [OF call acq(1)] acq(2) by (simp add: code_of_def)
  moreover have "chubby_open (cell_world E) i cl (x, t) = Some (Ok 0, ?cl, x1, t)"
    using op(1) by (simp add: x1_def ch1_def)
  moreover have "\<forall>b \<in> set (smap_keys (paxos_stubs_map s)). \<exists>u. node (paxos x2) b = Some u \<and>
       store E (paxos_db u) = (held T)(path \<mapsto> mode)"
    using acq(3,4) by (auto simp: implements_def cell_holds_def table_put_def)
  ultimately show ?thesis by fastforce
qed

lemma open_then_lock_witness:
  "\<exists>cl1 x1 cl2 x2. chubby_open (cell_world mem_env) 5 sample_client (first_locks, 50) = Some (Ok 0, cl1, x1, 50) \<and>
    chubby_lock (cell_world mem_env) ''a'' ''SHARED'' cl1 (x1, 50) = (Ok 0, cl2, x2, 50)"
proof -
  have id: "to_string 5 = ''5''" by code_simp
  have "\<exists>cl1 x1 cl2 x2. chubby_open (cell_world mem_env) 5 sample_client (first_locks, 50) =
      Some (Ok 0, cl1, x1, 50) \<and> client_lease_timeout cl1 = 50 + 12 \<and>
    chubby_lock (cell_world mem_env) ''a'' ''SHARED'' cl1 (x1, 50) = (Ok 0, cl2, x2, 50) \<and>
    (\<forall>b \<in> set (smap_keys (paxos_stubs_map (sample_server 0))). \<exists>u. node (paxos x2) b = Some u \<and>
       store mem_env (paxos_db u) = (held empty_table)(''a'' \<mapsto> ''SHARED''))"
    by (rule open_then_lock [OF lock_env_mem implements_first_locks])
      (simp_all add: id first_chubby_def sample_client_defs empty_table_def in_int32_def to_uint32_def)
  then show ?thesis by blast
qed

end
