(* ===== verification/Startup.thy ===== *)
theory Startup
  imports ServerSteps ChubbyServer
begin

text \<open>
  What \<open>RunServer\<close> makes: a Paxos server and a lock service that satisfy the invariants the other
  theories start from, provided the storage holds sensible values in the fields that no
  constructor assigns.
\<close>

text \<open>Storage that holds zeros.\<close>

definition zero_storage :: "'d paxos_impl" where
  "zero_storage =
     \<lparr>highest_slot = 0, lowest_slot = 0, done_vec = [], slots = [], view = 0, mu_locked = False,
      me = 0, leader_dead = False, group_size = 0, first_port = 0, last_port = 0, self_port = 0,
      missed_heartbeats = 0, highest_accepted_seq = 0, num_servers = 0, is_dead = 0,
      leader_election_happened = False, server_address = [], paxos_db = \<lparr>db_handle = None\<rparr>,
      paxos_stubs_map = []\<rparr>"

definition zero_chubby :: chubby_impl where
  "zero_chubby =
     \<lparr>client_lock_map = [], client_lease_map = [], slot_number = 0, lock_map = [],
      chubby_stubs_map = [], stop_lease_checker = False\<rparr>"

lemma PaxosImpl_new_ok:
  assumes "1 \<le> gs" "gs \<le> 15485" "0 \<le> i" "i < gs"
  shows "PaxosImpl_new E raw gs path (server_addr (50051 + i)) =
    Inr (raw\<lparr>leader_dead := False, leader_election_happened := False, mu_locked := False,
             slots := [], paxos_db := RocksDBWrapper_new E path, group_size := gs,
             first_port := 50051, last_port := 50050 + gs, server_address := server_addr (50051 + i),
             self_port := 50051 + i, me := i, num_servers := gs,
             done_vec := replicate (nat gs) (- 1),
             paxos_stubs_map := InitializeServerStubs 50051 (50050 + gs)\<rparr>)"
proof -
  have "getPortNumber (server_addr (50051 + i)) = Inr (50051 + i)"
    using assms by (intro getPortNumber_server_addr) (auto simp: in_int32_def)
  moreover have "to_int32 (50051 + gs - 1) = 50050 + gs"
    using assms by (subst to_int32_id) (auto simp: in_int32_def)
  moreover have "(50051 + i) smod 50051 = i" using assms by (simp add: smod_nonneg)
  ultimately show ?thesis by (simp add: PaxosImpl_new_def Let_def)
qed

lemma stub_table_dom:
  assumes "gs \<le> 15485"
  shows "map_of (InitializeServerStubs 50051 (50050 + gs)) (server_addr p) \<noteq> None \<longleftrightarrow>
     server_addr p \<in> server_addr ` {50051..50050 + gs}"
proof -
  have "smap_keys (InitializeServerStubs 50051 (50050 + gs)) = map server_addr [50051..50050 + gs]"
    using assms by (intro keys_InitializeServerStubs) auto
  then have "fst ` set (InitializeServerStubs 50051 (50050 + gs)) = server_addr ` {50051..50050 + gs}"
    unfolding smap_keys_def by (metis list.set_map set_upto)
  then show ?thesis by (simp add: map_of_eq_None_iff)
qed

lemma leader_in_table:
  assumes "1 \<le> gs" "gs \<le> 15485" "0 \<le> v"
  shows "map_of (InitializeServerStubs 50051 (50050 + gs)) (server_addr (50051 + v smod gs)) \<noteq> None"
proof -
  have "0 \<le> v mod gs" "v mod gs < gs" using assms by simp_all
  then have "50051 + v mod gs \<in> {50051..50050 + gs}" unfolding atLeastAtMost_iff by linarith
  moreover have "v smod gs = v mod gs" using assms by (simp add: smod_nonneg)
  ultimately have "50051 + v smod gs \<in> {50051..50050 + gs}" by simp
  then show ?thesis unfolding stub_table_dom [OF assms(2)] by blast
qed

text \<open>The two objects of the server at place \<open>i\<close>.\<close>

definition started_paxos :: "'d env \<Rightarrow> 'd paxos_impl \<Rightarrow> int \<Rightarrow> int \<Rightarrow> 'd paxos_impl" where
  "started_paxos E raw gs i =
     raw\<lparr>leader_dead := False, leader_election_happened := False, mu_locked := False,
         slots := [], paxos_db := RocksDBWrapper_new E (''db_'' @ to_string (50051 + i)),
         group_size := gs, first_port := 50051, last_port := 50050 + gs,
         server_address := server_addr (50051 + i), self_port := 50051 + i, me := i,
         num_servers := gs, done_vec := replicate (nat gs) (- 1),
         paxos_stubs_map := InitializeServerStubs 50051 (50050 + gs)\<rparr>"

lemma RunServer_ok:
  assumes "1 \<le> gs" "gs \<le> 15485" "0 \<le> i" "i < gs"
  shows "RunServer E raw rawc gs (server_addr (50051 + i)) =
    Inr (started_paxos E raw gs i, ChubbyImpl_new rawc (started_paxos E raw gs i))"
proof -
  have "getPortNumber (server_addr (50051 + i)) = Inr (50051 + i)"
    using assms by (intro getPortNumber_server_addr) (auto simp: in_int32_def)
  then have "stoi (drop 10 (server_addr (50051 + i))) = Inr (50051 + i)"
    by (simp add: getPortNumber_def find_colon_server_addr)
  then show ?thesis
    using PaxosImpl_new_ok [OF assms, of E raw]
    by (simp add: RunServer_def find_colon_server_addr started_paxos_def)
qed

lemma server_main_RunServer:
  assumes "0 \<le> gs" "gs < 2 ^ 31"
  shows "server_main E raw rawc [prog, addr, to_string gs] = RunServer E raw rawc gs addr"
  using assms by (simp add: server_main_def main_arguments_def atoi_to_string)

text \<open>Without the size of the group the program reads a null pointer; without arguments it is the first of three.\<close>

lemma server_main_short:
  "server_main E raw rawc [prog, addr] = Inl Null_pointer"
  "server_main E raw rawc [prog] = RunServer E raw rawc 3 ''127.0.0.1:50051''"
  by (simp_all add: server_main_def main_arguments_def)

section \<open>Properties\<close>

text \<open>
  C30: a server started with the address of its place in the group and the size of the group as the
  arguments of \<open>main\<close> is a well-formed member of it: it
  has the place as its number, an empty slot table and no session, and in every view that is not
  negative the address of the leader is in both address tables.  Its view, its lowest slot and the
  lock service's \<open>slot_number\<close> are whatever the storage held, since nothing assigns them.
\<close>
theorem started_server_well_formed:
  assumes "1 \<le> gs" "gs \<le> 15485" "0 \<le> i" "i < gs"
    and "in_int32 (view raw)" "0 \<le> lowest_slot raw" "in_int32 (lowest_slot raw)"
  shows "\<exists>s ch. server_main E raw rawc [prog, server_addr (50051 + i), to_string gs] = Inr (s, ch) \<and>
    wf_server (nat gs) s \<and> me s = i \<and> slots s = [] \<and> client_lease_map ch = [] \<and>
    (\<forall>v \<ge> 0. map_of (paxos_stubs_map s) (leader_address (s\<lparr>view := v\<rparr>)) \<noteq> None \<and>
             map_of (chubby_stubs_map ch) (leader_address (s\<lparr>view := v\<rparr>)) \<noteq> None) \<and>
    view s = view raw \<and> lowest_slot s = lowest_slot raw \<and> slot_number ch = slot_number rawc"
proof -
  have "nat gs > nat i" using assms by simp
  then show ?thesis
    using assms RunServer_ok [OF assms(1-4), of E raw rawc] leader_in_table [OF assms(1,2)]
      server_main_RunServer [of gs E raw rawc prog]
    by (auto simp: started_paxos_def ChubbyImpl_new_def wf_server_def done_ok_def leader_address_def)
qed

lemma started_server_well_formed_witness:
  "\<exists>s ch. server_main mem_env zero_storage zero_chubby [''server'', server_addr 50052, to_string 3] = Inr (s, ch) \<and>
     wf_server 3 s \<and> me s = 1"
  using started_server_well_formed [of 3 1 zero_storage mem_env zero_chubby "''server''"]
  by (auto simp: zero_storage_def)
end
