(* ===== verification/CellStart.thy ===== *)
theory CellStart
  imports ClientCell Startup
begin

text \<open>
  From the processes to the first lock: a cell whose servers \<open>RunServer\<close> has started implements the
  lock table that its databases hold, so that a client that has read its configuration file can open
  a session on the first leader and lock a path.
\<close>

section \<open>The cell\<close>

definition places :: "int \<Rightarrow> int list" where
  "places gs = [0..gs - 1]"

definition addr_of :: "int \<Rightarrow> string" where
  "addr_of i = server_addr (50051 + i)"

text \<open>The servers at the places of a group, each with what its storage held at its start.\<close>

definition started_cell ::
  "'d env \<Rightarrow> (int \<Rightarrow> 'd paxos_impl) \<Rightarrow> (int \<Rightarrow> chubby_impl) \<Rightarrow> int \<Rightarrow> 'd cell" where
  "started_cell E raw rawc gs =
     \<lparr>paxos = \<lparr>nodes = map (\<lambda>i. (addr_of i, started_paxos E (raw i) gs i)) (places gs), net = []\<rparr>,
      chubbies = map (\<lambda>i. (addr_of i, ChubbyImpl_new (rawc i) (started_paxos E (raw i) gs i))) (places gs)\<rparr>"

lemma map_of_places:
  assumes "0 \<le> i" "i < gs"
  shows "map_of (map (\<lambda>i. (addr_of i, f i)) (places gs)) (addr_of i) = Some (f i)"
proof -
  have "inj_on addr_of (set (places gs))"
  proof (rule inj_onI)
    fix x y assume "x \<in> set (places gs)" "y \<in> set (places gs)" "addr_of x = addr_of y"
    then show "x = y" using inj_server_addr [of "50051 + x" "50051 + y"] by (simp add: addr_of_def places_def)
  qed
  then have "map_of (map (\<lambda>i. (addr_of i, f i)) xs) (addr_of i) = Some (f i)"
    if "i \<in> set xs" "set xs \<subseteq> set (places gs)" for xs
    using that
  proof (induction xs)
    case (Cons j xs)
    have "addr_of i = addr_of j \<longleftrightarrow> i = j"
      using Cons.prems \<open>inj_on addr_of _\<close> by (auto simp: inj_on_def)
    with Cons show ?case by auto
  qed simp
  then show ?thesis using assms by (simp add: places_def)
qed

lemma server_at_started:
  "0 \<le> i \<Longrightarrow> i < gs \<Longrightarrow> server_at (started_cell E raw rawc gs) (addr_of i) =
     Some (started_paxos E (raw i) gs i, ChubbyImpl_new (rawc i) (started_paxos E (raw i) gs i))"
  using map_of_places [of i gs "\<lambda>i. started_paxos E (raw i) gs i"]
    map_of_places [of i gs "\<lambda>i. ChubbyImpl_new (rawc i) (started_paxos E (raw i) gs i)"]
  by (simp add: server_at_Some node_def started_cell_def)

lemma keys_started:
  "gs \<le> 15485 \<Longrightarrow> smap_keys (paxos_stubs_map (started_paxos E r gs i)) = map addr_of (places gs)"
proof -
  assume "gs \<le> 15485"
  then have "smap_keys (InitializeServerStubs 50051 (50050 + gs)) = map server_addr [50051..50050 + gs]"
    by (intro keys_InitializeServerStubs) auto
  moreover have "[50051..50050 + gs] = map ((+) 50051) (places gs)"
    unfolding places_def by (rule nth_equalityI) auto
  ultimately show ?thesis by (simp add: started_paxos_def addr_of_def)
qed

lemma smap_ok_foldl_keys: "smap_ok m \<Longrightarrow> smap_ok (foldl (\<lambda>m k. smap_put (f k) () m) m ks)"
  by (induction ks arbitrary: m) auto

lemma smap_ok_stubs [simp]: "smap_ok (InitializeServerStubs lo hi)"
  by (simp add: InitializeServerStubs_def smap_ok_foldl_keys)

text \<open>What the fields that no constructor assigns must hold; \<open>q\<close> is \<open>slot_number\<close> of the leader.\<close>

definition sane_storage :: "int \<Rightarrow> 'd paxos_impl \<Rightarrow> bool" where
  "sane_storage q raw \<longleftrightarrow>
     view raw = 0 \<and> lowest_slot raw \<le> q \<and> highest_accepted_seq raw < q \<and> is_dead raw = 0"

lemma started_sel [simp]:
  "\<not> leader_dead (started_paxos E r gs i)" "\<not> leader_election_happened (started_paxos E r gs i)"
  "\<not> mu_locked (started_paxos E r gs i)" "slots (started_paxos E r gs i) = []"
  "paxos_db (started_paxos E r gs i) = RocksDBWrapper_new E (''db_'' @ to_string (50051 + i))"
  "me (started_paxos E r gs i) = i" "num_servers (started_paxos E r gs i) = gs"
  "done_vec (started_paxos E r gs i) = replicate (nat gs) (- 1)"
  "paxos_stubs_map (started_paxos E r gs i) = InitializeServerStubs 50051 (50050 + gs)"
  "view (started_paxos E r gs i) = view r" "lowest_slot (started_paxos E r gs i) = lowest_slot r"
  "highest_accepted_seq (started_paxos E r gs i) = highest_accepted_seq r"
  "is_dead (started_paxos E r gs i) = is_dead r"
  "get_slot (started_paxos E r gs i) q = None" "decided (started_paxos E r gs i) q = None"
  by (simp_all add: started_paxos_def get_slot_def decided_def)

lemma ready_started:
  assumes "0 \<le> i" "i < gs" "sane_storage q0 r" "0 \<le> q0" "q0 \<le> q"
    and "db_Open E (''db_'' @ to_string (50051 + i)) \<noteq> None"
  shows "ready q (started_paxos E r gs i)"
  using assms by (simp add: ready_def can_enter_def done_me_def sane_storage_def RocksDBWrapper_new_def)

lemma implements_started:
  assumes gs: "1 \<le> gs" "gs \<le> 15485"
    and raw: "\<forall>i. sane_storage (slot_number (rawc 0)) (raw i)" "0 \<le> slot_number (rawc 0)"
    and db: "\<forall>path. \<exists>d. db_Open E path = Some d \<and> db_Get E d = H"
  shows "implements E (started_cell E raw rawc gs) (addr_of 0) (started_paxos E (raw 0) gs 0)
    (ChubbyImpl_new (rawc 0) (started_paxos E (raw 0) gs 0)) \<lparr>held = H, settled = False\<rparr>"
proof -
  let ?S = "\<lambda>i. started_paxos E (raw i) gs i" and ?q = "slot_number (rawc 0)"
  let ?x = "started_cell E raw rawc gs" and ?C = "ChubbyImpl_new (rawc 0) (started_paxos E (raw 0) gs 0)"
  have store: "store E (RocksDBWrapper_new E p) = H" and op: "db_Open E p \<noteq> None" for p
    using spec [OF db, of p] by (auto simp: RocksDBWrapper_new_def store_def)
  have lead: "fast_leader ?q (?S 0)"
    using spec [OF raw(1), of 0] by (simp add: fast_leader_def sane_storage_def signed_modulo_int_def)
  have nd: "node (paxos ?x) (addr_of i) = Some (?S i)" if "0 \<le> i" "i < gs" for i
    using server_at_started [OF that, of E raw rawc] by (simp add: server_at_Some)
  have all: "\<exists>t. node (paxos ?x) b = Some t \<and> store E (paxos_db t) = H \<and> (\<forall>q \<ge> ?q. ready q t)"
    if "b \<in> set (map addr_of (places gs))" for b
  proof -
    obtain i where i: "b = addr_of i" "0 \<le> i" "i < gs" using \<open>b \<in> _\<close> by (auto simp: places_def)
    have "ready q (?S i)" if "?q \<le> q" for q
      by (rule ready_started [OF i(2,3) spec [OF raw(1)] raw(2) that op])
    with nd [OF i(2,3)] store i(1) show ?thesis by simp
  qed
  have keys: "smap_keys (InitializeServerStubs 50051 (50050 + gs)) = map addr_of (places gs)"
    using keys_started [OF gs(2), of E "raw 0" 0] by simp
  have "0 \<in> set (places gs)" using gs by (simp add: places_def)
  then have "addr_of 0 \<in> set (map addr_of (places gs))" by simp
  moreover have "server_at ?x (addr_of 0) = Some (?S 0, ?C)" by (rule server_at_started) (use gs in auto)
  moreover have "slot_number ?C = ?q" "lock_map ?C = []" by (simp_all add: ChubbyImpl_new_def)
  moreover have "net (paxos ?x) = []" by (simp add: started_cell_def)
  ultimately show ?thesis
    using lead all by (simp add: implements_def cell_holds_def first_free_def keys)
qed

section \<open>The client's configuration\<close>

lemma smap_keys_put: "k \<in> set (smap_keys (smap_put j v m)) \<longleftrightarrow> k = j \<or> k \<in> set (smap_keys m)"
  by (induction j v m rule: smap_put.induct) (auto simp: smap_keys_def)

lemma add_line_cells:
  "k \<in> set (smap_keys (chubby_cells (foldl add_line cl ls))) \<longleftrightarrow>
     k \<in> set (smap_keys (chubby_cells cl)) \<or> k \<in> set ls - {''''}"
proof (induction ls arbitrary: cl)
  case (Cons l ls)
  show ?case unfolding foldl_Cons Cons.IH by (auto simp: add_line_def smap_keys_put)
qed simp

lemma add_stub_has: "has_stub cl k \<or> k \<in> set ks \<Longrightarrow> has_stub (foldl add_stub cl ks) k"
proof (induction ks arbitrary: cl)
  case (Cons j ks)
  have "has_stub (add_stub cl j) k \<or> k \<in> set ks"
    using Cons.prems by (auto simp: has_stub_def add_stub_def)
  then show ?case using Cons.IH by simp
qed simp

lemma init_frame [simp]:
  "current_leader (foldl add_line cl ls) = current_leader cl"
  "latest_epoch_number (foldl add_line cl ls) = latest_epoch_number cl"
  "current_leader (foldl add_stub cl ls) = current_leader cl"
  "latest_epoch_number (foldl add_stub cl ls) = latest_epoch_number cl"
proof -
  show "current_leader (foldl add_line cl ls) = current_leader cl"
    "latest_epoch_number (foldl add_line cl ls) = latest_epoch_number cl"
    by (induction ls arbitrary: cl) (simp_all add: add_line_def)
  show "current_leader (foldl add_stub cl ls) = current_leader cl"
    "latest_epoch_number (foldl add_stub cl ls) = latest_epoch_number cl"
    by (induction ls arbitrary: cl) (simp_all add: add_stub_def)
qed

text \<open>A client that has read a file with the address of a server has a stub for it.\<close>

lemma chubby_init_stub:
  assumes "a \<in> set ls" "a \<noteq> ''''"
  shows "has_stub (snd (chubby_init (Some ls) reachable t cl)) a"
    and "current_leader (snd (chubby_init (Some ls) reachable t cl)) = current_leader cl"
    and "latest_epoch_number (snd (chubby_init (Some ls) reachable t cl)) = latest_epoch_number cl"
proof -
  let ?cl = "foldl add_line cl ls"
  have mem: "a \<in> set (smap_keys (chubby_cells ?cl))" using assms by (simp add: add_line_cells)
  then have ne: "chubby_cells ?cl \<noteq> []" by (auto simp: smap_keys_def)
  have "has_stub (foldl add_stub ?cl (smap_keys (chubby_cells ?cl))) a"
    by (rule add_stub_has) (use mem in simp)
  with ne show "has_stub (snd (chubby_init (Some ls) reachable t cl)) a"
    by (simp add: chubby_init_def Let_def has_stub_def)
  show "current_leader (snd (chubby_init (Some ls) reachable t cl)) = current_leader cl"
    "latest_epoch_number (snd (chubby_init (Some ls) reachable t cl)) = latest_epoch_number cl"
    using ne by (simp_all add: chubby_init_def Let_def)
qed

section \<open>Properties\<close>

text \<open>
  C2: from the first process to the first lock.  Every server of a group is started by
  \<open>RunServer\<close> on storage that holds view 0 and slots below the first slot number, with databases of
  the same contents; a client that has read a configuration file with the first server's address
  opens a session there and locks a path that is not in the databases.  On a network that delivers,
  \<open>chubby_open\<close> and \<open>chubby_lock\<close> return 0, and the database of every server of the group has the
  mode under the path.
\<close>
theorem first_lock_of_a_new_cell:
  fixes reachable :: "string \<Rightarrow> bool"
  assumes "lock_env E" "1 \<le> gs" "gs \<le> 15485"
    and "\<forall>i. sane_storage (slot_number (rawc 0)) (raw i)" "0 \<le> slot_number (rawc 0)"
    and "slot_number (rawc 0) + 1 < 2 ^ 31"
    and "\<forall>p. \<exists>d. db_Open E p = Some d \<and> db_Get E d = H"
    and "\<forall>i. 0 \<le> i \<longrightarrow> i < gs \<longrightarrow> RunServer E (raw i) (rawc i) gs (addr_of i) = Inr (S i, C i)"
    and "addr_of 0 \<in> set config" "0 \<le> t" "t < 2 ^ 32" "CHR ''#'' \<notin> set path" "H path = None"
  defines "x \<equiv> \<lparr>paxos = \<lparr>nodes = map (\<lambda>i. (addr_of i, S i)) (places gs), net = []\<rparr>,
                chubbies = map (\<lambda>i. (addr_of i, C i)) (places gs)\<rparr>"
    and "cl \<equiv> snd (chubby_init (Some config) reachable t (ClientLib_new 0))"
  shows "\<exists>cl1 x1 cl2 x2. chubby_open (cell_world E) client cl (x, t) = Some (Ok 0, cl1, x1, t) \<and>
    chubby_lock (cell_world E) path mode cl1 (x1, t) = (Ok 0, cl2, x2, t) \<and>
    (\<forall>i. 0 \<le> i \<longrightarrow> i < gs \<longrightarrow> (\<exists>u. node (paxos x2) (addr_of i) = Some u \<and>
       store E (paxos_db u) = H(path \<mapsto> mode)))"
proof -
  let ?S = "started_paxos E (raw 0) gs 0" and ?C = "ChubbyImpl_new (rawc 0) (started_paxos E (raw 0) gs 0)"
  have run: "S i = started_paxos E (raw i) gs i \<and> C i = ChubbyImpl_new (rawc i) (S i)" if "0 \<le> i" "i < gs" for i
    using RunServer_ok [OF assms(2,3) that, of E "raw i" "rawc i"] assms(8) that by (auto simp: addr_of_def)
  have "map (\<lambda>i. (addr_of i, S i)) (places gs) = map (\<lambda>i. (addr_of i, started_paxos E (raw i) gs i)) (places gs)"
    "map (\<lambda>i. (addr_of i, C i)) (places gs) =
       map (\<lambda>i. (addr_of i, ChubbyImpl_new (rawc i) (started_paxos E (raw i) gs i))) (places gs)"
    using run by (auto simp: places_def)
  then have "x = started_cell E raw rawc gs" by (simp add: x_def started_cell_def)
  then have impl: "implements E x (addr_of 0) ?S ?C \<lparr>held = H, settled = False\<rparr>"
    using implements_started [where raw = raw and rawc = rawc, OF assms(2-5,7)] by simp
  have first: "addr_of 0 = ''127.0.0.1:50051''" by (simp add: addr_of_def server_addr_literals)
  have cl: "current_leader cl = addr_of 0" "has_stub cl (addr_of 0)" "latest_epoch_number cl = 0"
    using chubby_init_stub [OF assms(9)] by (simp_all add: cl_def first ClientLib_new_def)
  have "view ?S = 0" using spec [OF assms(4), of 0] by (simp add: sane_storage_def)
  then have view: "to_uint32 (view ?S) \<le> to_uint32 (latest_epoch_number cl)" using cl(3) by simp
  have n: "in_int32 (slot_number ?C + 1)" using assms(5,6) by (simp add: ChubbyImpl_new_def in_int32_def)
  have new: "map_of (client_lease_map ?C) (to_string client) = None" by (simp add: ChubbyImpl_new_def)
  have free: "held \<lparr>held = H, settled = False\<rparr> path = None" using assms(13) by simp
  obtain cl1 x1 cl2 x2 where ot: "chubby_open (cell_world E) client cl (x, t) = Some (Ok 0, cl1, x1, t)"
    "chubby_lock (cell_world E) path mode cl1 (x1, t) = (Ok 0, cl2, x2, t)"
    "\<forall>b \<in> set (smap_keys (paxos_stubs_map ?S)). \<exists>u. node (paxos x2) b = Some u \<and>
       store E (paxos_db u) = H(path \<mapsto> mode)"
    using open_then_lock [OF assms(1) impl n assms(10,11) new cl(1,2) view assms(12) free, of mode]
    by auto
  have "set (smap_keys (paxos_stubs_map ?S)) = addr_of ` {0..gs - 1}"
    using keys_started [OF assms(3), of E "raw 0" 0] by (simp add: places_def)
  with ot(3) have "\<exists>u. node (paxos x2) (addr_of i) = Some u \<and> store E (paxos_db u) = H(path \<mapsto> mode)"
    if "0 \<le> i" "i < gs" for i using that by auto
  with ot(1,2) show ?thesis by blast
qed


definition fresh_storage :: "(string \<times> string) list paxos_impl" where
  "fresh_storage = zero_storage\<lparr>highest_accepted_seq := - 1\<rparr>"

lemma first_lock_of_a_new_cell_witness:
  "\<exists>cl1 x1 cl2 x2.
     chubby_open (cell_world mem_env) 9
       (snd (chubby_init (Some [addr_of 0]) (\<lambda>_. True) 0 (ClientLib_new 0)))
       (started_cell mem_env (\<lambda>_. fresh_storage) (\<lambda>_. zero_chubby) 3, 0) = Some (Ok 0, cl1, x1, 0) \<and>
     chubby_lock (cell_world mem_env) ''a'' ''SHARED'' cl1 (x1, 0) = (Ok 0, cl2, x2, 0) \<and>
     (\<exists>u. node (paxos x2) (addr_of 2) = Some u \<and> store mem_env (paxos_db u) ''a'' = Some ''SHARED'')"
proof -
  let ?S = "\<lambda>i. started_paxos mem_env fresh_storage 3 i"
  let ?C = "\<lambda>i. ChubbyImpl_new zero_chubby (?S i)"
  have run: "\<forall>i. 0 \<le> i \<longrightarrow> i < 3 \<longrightarrow> RunServer mem_env fresh_storage zero_chubby 3 (addr_of i) = Inr (?S i, ?C i)"
    by (simp add: RunServer_ok addr_of_def)
  have raw: "\<forall>i :: int. sane_storage (slot_number zero_chubby) fresh_storage"
    by (simp add: sane_storage_def fresh_storage_def zero_storage_def zero_chubby_def)
  have db: "\<forall>p. \<exists>d. db_Open mem_env p = Some d \<and> db_Get mem_env d = Map.empty"
    by (simp add: mem_env_def)
  note first = first_lock_of_a_new_cell [where raw = "\<lambda>_. fresh_storage" and rawc = "\<lambda>_. zero_chubby"
      and S = ?S and C = ?C and H = Map.empty and config = "[addr_of 0]" and gs = 3 and t = 0
      and path = "''a''" and mode = "''SHARED''" and client = 9 and reachable = "\<lambda>_. True",
      OF lock_env_mem _ _ raw _ _ db run]
  have x: "started_cell mem_env (\<lambda>_. fresh_storage) (\<lambda>_. zero_chubby) 3 =
      \<lparr>paxos = \<lparr>nodes = map (\<lambda>i. (addr_of i, ?S i)) (places 3), net = []\<rparr>,
       chubbies = map (\<lambda>i. (addr_of i, ?C i)) (places 3)\<rparr>"
    by (simp only: started_cell_def)
  have q: "slot_number zero_chubby = 0" by (simp add: zero_chubby_def)
  have last: "(0 :: int) \<le> 2" "(2 :: int) < 3" by simp_all
  have "1 \<le> (3 :: int)" "(3 :: int) \<le> 15485" "addr_of 0 \<in> set [addr_of 0]" "(0 :: int) < 2 ^ 32"
    "CHR ''#'' \<notin> set ''a''" "(0 :: int) \<le> slot_number zero_chubby" "slot_number zero_chubby + 1 < 2 ^ 31"
    "Map.empty ''a'' = None"
    by (simp_all add: q)
  note first [OF this(1,2,6,7,3) order_refl this(4,5,8), folded x]
  then obtain cl1 x1 cl2 x2 where f:
    "chubby_open (cell_world mem_env) 9
       (snd (chubby_init (Some [addr_of 0]) (\<lambda>_. True) 0 (ClientLib_new 0)))
       (started_cell mem_env (\<lambda>_. fresh_storage) (\<lambda>_. zero_chubby) 3, 0) = Some (Ok 0, cl1, x1, 0)"
    "chubby_lock (cell_world mem_env) ''a'' ''SHARED'' cl1 (x1, 0) = (Ok 0, cl2, x2, 0)"
    "\<forall>i. 0 \<le> i \<longrightarrow> i < 3 \<longrightarrow> (\<exists>u. node (paxos x2) (addr_of i) = Some u \<and>
        store mem_env (paxos_db u) = Map.empty(''a'' \<mapsto> ''SHARED''))"
    by blast
  from f(3) last have "\<exists>u. node (paxos x2) (addr_of 2) = Some u \<and>
      store mem_env (paxos_db u) = Map.empty(''a'' \<mapsto> ''SHARED'')" by blast
  then have "\<exists>u. node (paxos x2) (addr_of 2) = Some u \<and> store mem_env (paxos_db u) ''a'' = Some ''SHARED''"
    by force
  with f(1,2) show ?thesis by blast
qed

end
