(* ===== verification/LockRace.thy ===== *)
theory LockRace
  imports LockTable
begin

text \<open>
  Two calls of \<open>AcquireLock\<close> at the same time.  The mutex of a path keeps calls for one path
  apart, but calls for different paths share \<open>slot_number\<close>: each raises it and reads it again when
  it proposes, so that two calls that have both raised it propose in the same slot.
\<close>

section \<open>AcquireLock in two steps\<close>

text \<open>Up to \<open>slot_number++\<close>, with \<open>None\<close> when the path is locked; and from there on.\<close>

definition AcquireLock_enter :: "string \<Rightarrow> lock_request \<Rightarrow> 'd cell \<Rightarrow> 'd cell option" where
  "AcquireLock_enter a req x =
     map_option (upd_chubby a (\<lambda>ch. ch\<lparr>slot_number := to_int32 (slot_number ch + 1)\<rparr>))
       (lock_key a (lq_path req) x)"

definition AcquireLock_rest ::
  "'d env \<Rightarrow> string \<Rightarrow> lock_request \<Rightarrow> 'd cell \<Rightarrow> lock_response result \<times> 'd cell" where
  "AcquireLock_rest E a req x =
     (case server_at x a of
        None \<Rightarrow> (Error UNAVAILABLE, x)
      | Some (s, ch) \<Rightarrow>
          finish_lock a (lq_path req) x (AcquireLock_decide E x a s ch req no_response))"

lemma AcquireLock_two_steps:
  "AcquireLock_local E x a req no_response =
     (case AcquireLock_enter a req x of
        None \<Rightarrow> (Blocked, x)
      | Some x1 \<Rightarrow> AcquireLock_rest E a req x1)"
  by (auto simp: AcquireLock_local_def AcquireLock_enter_def AcquireLock_rest_def Let_def
      split: option.split)

section \<open>The steps in a healthy cell\<close>

lemma enter_holds:
  assumes "cell_holds E x a s ch T" "map_of (lock_map ch) (lq_path req) \<noteq> Some True"
    "in_int32 (slot_number ch + 1)"
  defines "ch' \<equiv> next_slot (locked (lq_path req) ch)"
  shows "AcquireLock_enter a req x = Some (put_chubby a ch' x)"
    and "cell_holds E (put_chubby a ch' x) a s ch' (T\<lparr>settled := False\<rparr>)"
proof -
  have srv: "serves x a s ch (lq_path req)"
    using assms(1,2) by (simp add: cell_holds_def serves_def fast_leader_def)
  then have "map_of (chubbies x) a = Some ch" by (simp add: serves_def server_at_Some)
  with lock_key_serves [OF srv] show "AcquireLock_enter a req x = Some (put_chubby a ch' x)"
    by (simp add: AcquireLock_enter_def ch'_def upd_chubby_Some next_slot_def)
  show "cell_holds E (put_chubby a ch' x) a s ch' (T\<lparr>settled := False\<rparr>)"
    using assms(1,3) by (intro cell_holds_next) (simp_all add: ch'_def)
qed

lemma finish_lock_holds:
  assumes "decided_as E a M ch res out"
  shows "\<exists>r x' s' ch'. finish_lock a path x out = (Ok r, x') \<and>
    (lr_success r, lr_error_message r) = fst res \<and> cell_holds E x' a s' ch' (snd res) \<and>
    client_lease_map ch' = client_lease_map ch \<and> paxos_stubs_map s' = M"
proof -
  obtain r x1 s1 ch1 where d: "out = Done (r, x1)" "(lr_success r, lr_error_message r) = fst res"
    "cell_holds E x1 a s1 ch1 (snd res)" "client_lease_map ch1 = client_lease_map ch"
    "paxos_stubs_map s1 = M"
    using assms unfolding decided_as_def by blast
  have "node (paxos x1) a = Some s1" "map_of (chubbies x1) a = Some ch1"
    using d(3) by (auto simp: cell_holds_def server_at_Some)
  from finish_lock_Done [OF this, of path x r] cell_holds_put [OF d(3), of "unlocked path ch1"] d
  show ?thesis by fastforce
qed

text \<open>A grant in a slot that has been decided: success is reported and nothing is stored.\<close>

lemma grant_settled:
  assumes "cell_holds E x a s ch T" "settled T"
  shows "decided_as E a (paxos_stubs_map s) ch ((True, ''NO_ERROR''), T) (grant E True x a req resp)"
proof -
  obtain c' s' where put: "Put E x a (lq_path req) (lq_locking_mode req) = Done (with_paxos x c')"
    "cell_holds E (with_paxos x c') a s' ch T" "paxos_stubs_map s' = paxos_stubs_map s"
    using Put_settled [OF assms] by blast
  show ?thesis unfolding grant_def using decided_as_success [OF put(2)] put(1,3) by simp
qed

lemma rest_fresh:
  assumes "lock_env E" "cell_holds E x a s ch (T\<lparr>settled := False\<rparr>)" "CHR ''#'' \<notin> set (lq_path req)"
    and "map_of (client_lease_map ch) (lq_client_id req) \<noteq> None" "held T (lq_path req) = None"
  shows "\<exists>r x' s' ch'. AcquireLock_rest E a req x = (Ok r, x') \<and> lr_success r \<and>
    lr_error_message r = ''NO_ERROR'' \<and> client_lease_map ch' = client_lease_map ch \<and>
    paxos_stubs_map s' = paxos_stubs_map s \<and>
    cell_holds E x' a s' ch' (table_put (lq_path req) (lq_locking_mode req) T)"
proof -
  have "server_at x a = Some (s, ch)" using assms(2) by (simp add: cell_holds_def)
  with finish_lock_holds [OF AcquireLock_decide_spec [OF assms(1-3)], of "lq_path req" x] assms(4,5)
  show ?thesis by (fastforce simp: AcquireLock_rest_def acquire_spec_def Let_def)
qed

lemma rest_settled:
  assumes "cell_holds E x a s ch T" "settled T" "held T (lq_path req) = None"
    and "map_of (client_lease_map ch) (lq_client_id req) \<noteq> None"
  shows "\<exists>r x' s' ch'. AcquireLock_rest E a req x = (Ok r, x') \<and> lr_success r \<and>
    lr_error_message r = ''NO_ERROR'' \<and> cell_holds E x' a s' ch' T \<and>
    paxos_stubs_map s' = paxos_stubs_map s"
proof -
  have srv: "server_at x a = Some (s, ch)" using assms(1) by (simp add: cell_holds_def)
  have "AcquireLock_decide E x a s ch req no_response = grant E True x a req no_response"
    using assms(3,4) cell_holds_store [OF assms(1)] by (auto simp: AcquireLock_decide_def Get_store)
  with finish_lock_holds [OF grant_settled [OF assms(1,2)], of "lq_path req" x req no_response] srv
  show ?thesis by (fastforce simp: AcquireLock_rest_def)
qed

section \<open>Properties\<close>

text \<open>
  C34: a lock can be granted to nobody's knowledge.  In a healthy cell two clients with sessions ask
  at the same time for two different paths that nobody holds.  When both calls have raised
  \<open>slot_number\<close> before the first of them proposes, both are told that they have their lock, but the
  second proposal is made in the slot that the first has decided: no server stores the second lock.
\<close>
theorem concurrent_grant_lost:
  assumes "lock_env E" "implements E x a s ch T"
    and "0 \<le> slot_number ch" "slot_number ch + 2 < 2 ^ 31"
    and "lq_path one \<noteq> lq_path two" "CHR ''#'' \<notin> set (lq_path one)"
    and "held T (lq_path one) = None" "held T (lq_path two) = None"
    and "sessions_of ch (lq_client_id one)" "sessions_of ch (lq_client_id two)"
  shows "\<exists>x1 x2 r1 x3 r2 x4.
    AcquireLock_enter a one x = Some x1 \<and> AcquireLock_enter a two x1 = Some x2 \<and>
    AcquireLock_rest E a one x2 = (Ok r1, x3) \<and> lr_success r1 \<and>
    AcquireLock_rest E a two x3 = (Ok r2, x4) \<and> lr_success r2 \<and> lr_error_message r2 = ''NO_ERROR'' \<and>
    (\<forall>b \<in> set (smap_keys (paxos_stubs_map s)). \<exists>t. node (paxos x4) b = Some t \<and>
       store E (paxos_db t) (lq_path one) = Some (lq_locking_mode one) \<and>
       store E (paxos_db t) (lq_path two) = None)"
proof -
  have x: "cell_holds E x a s ch T" "\<And>p. map_of (lock_map ch) p \<noteq> Some True"
    using assms(2) by (auto simp: implements_def)
  let ?ch1 = "next_slot (locked (lq_path one) ch)"
  let ?x1 = "put_chubby a ?ch1 x"
  have n1: "in_int32 (slot_number ch + 1)" "in_int32 (slot_number ?ch1 + 1)"
    using assms(3,4) by (simp_all add: in_int32_def)
  note e1 = enter_holds [OF x(1) x(2) n1(1)]
  let ?ch2 = "next_slot (locked (lq_path two) ?ch1)"
  let ?x2 = "put_chubby a ?ch2 ?x1"
  have free2: "map_of (lock_map ?ch1) (lq_path two) \<noteq> Some True"
    using x(2) assms(5) by simp
  note e2 = enter_holds [OF e1(2) [of one] free2 n1(2)]
  have x2: "cell_holds E ?x2 a s ?ch2 (T\<lparr>settled := False\<rparr>)" using e2(2) by simp
  obtain r1 x3 s3 ch3 where one: "AcquireLock_rest E a one ?x2 = (Ok r1, x3)" "lr_success r1"
    "client_lease_map ch3 = client_lease_map ch" "paxos_stubs_map s3 = paxos_stubs_map s"
    "cell_holds E x3 a s3 ch3 (table_put (lq_path one) (lq_locking_mode one) T)"
    using rest_fresh [OF assms(1) x2 assms(6) _ assms(7)] assms(9) by (auto simp: sessions_of_def)
  obtain r2 x4 s4 ch4 where two: "AcquireLock_rest E a two x3 = (Ok r2, x4)" "lr_success r2"
    "lr_error_message r2 = ''NO_ERROR''" "paxos_stubs_map s4 = paxos_stubs_map s3"
    "cell_holds E x4 a s4 ch4 (table_put (lq_path one) (lq_locking_mode one) T)"
    using rest_settled [OF one(5), of two] assms(5,8,10) one(3)
    by (auto simp: table_put_def sessions_of_def)
  have "\<forall>b \<in> set (smap_keys (paxos_stubs_map s)). \<exists>t. node (paxos x4) b = Some t \<and>
       store E (paxos_db t) (lq_path one) = Some (lq_locking_mode one) \<and>
       store E (paxos_db t) (lq_path two) = None"
    using two(4,5) one(4) assms(5,8) by (fastforce simp: cell_holds_def table_put_def)
  then show ?thesis using e1(1) e2(1) one(1,2) two(1-3) by blast
qed

definition other_lock :: "string \<Rightarrow> string \<Rightarrow> lock_request" where
  "other_lock client mode = \<lparr>lq_client_id = client, lq_path = ''b'', lq_locking_mode = mode\<rparr>"

lemma concurrent_grant_lost_witness:
  "\<exists>x1 x2 r1 x3 r2 x4.
    AcquireLock_enter ''127.0.0.1:50051'' (sample_lock ''7'' ''EXCLUSIVE'') first_locks = Some x1 \<and>
    AcquireLock_enter ''127.0.0.1:50051'' (other_lock ''7'' ''EXCLUSIVE'') x1 = Some x2 \<and>
    AcquireLock_rest mem_env ''127.0.0.1:50051'' (sample_lock ''7'' ''EXCLUSIVE'') x2 = (Ok r1, x3) \<and> lr_success r1 \<and>
    AcquireLock_rest mem_env ''127.0.0.1:50051'' (other_lock ''7'' ''EXCLUSIVE'') x3 = (Ok r2, x4) \<and> lr_success r2"
  using concurrent_grant_lost [OF lock_env_mem implements_first_locks,
      of "sample_lock ''7'' ''EXCLUSIVE''" "other_lock ''7'' ''EXCLUSIVE''"]
  by (force simp: first_chubby_def empty_table_def sessions_of_def other_lock_def)

end
