(* ===== verification/Election.thy ===== *)
theory Election
  imports ProposerOrder
begin

text \<open>
  Failure detection and leader election: \<open>PaxosImpl::DetectLeaderFailure\<close> and
  \<open>PaxosImpl::Election\<close>.  View \<open>v\<close> is led by server \<open>v % group_size\<close>; a server that has missed
  its leader for four ticks asks all others to move to the next view that it leads itself.

  \<open>Election\<close> loops until it has been refused or has a majority; the bound on the number of
  rounds is an argument and \<open>Out_of_fuel\<close> the result when it is reached.
\<close>

section \<open>Failure detection\<close>

text \<open>
  The result says which election the call starts in a detached thread, as its arguments
  \<open>my_view\<close> and \<open>offset\<close>; \<open>True\<close> in the second place that the 40 second timer is started.
\<close>

definition DetectLeaderFailure ::
  "'d paxos_impl \<Rightarrow> ((int \<times> int) option \<times> bool) result \<times> 'd paxos_impl" where
  "DetectLeaderFailure s =
     with_mu s
       (let s1 = s\<lparr>missed_heartbeats := to_int32 (missed_heartbeats s + 1)\<rparr> in
        if 3 < missed_heartbeats s1 then
          (let md = view s1 smod group_size s1;
               el = (if md < me s1 then Some (view s1, me s1 - md)
                     else if me s1 < md then Some (view s1, to_int32 (me s1 + group_size s1) - md)
                     else None)
           in (Ok (el, True),
               s1\<lparr>missed_heartbeats := 0, leader_dead := True, leader_election_happened := True\<rparr>))
        else (Ok (None, False), s1))"

text \<open>What the detached timer does when it fires.\<close>

definition election_timer :: "'d paxos_impl \<Rightarrow> unit result \<times> 'd paxos_impl" where
  "election_timer s = with_mu s (Ok (), s\<lparr>leader_election_happened := False\<rparr>)"

section \<open>One round of an election\<close>

record ballot =
  e_majority :: int
  e_reject :: int
  e_highest_view :: int
  e_max_seq :: int

definition ballot_init :: ballot where
  "ballot_init = \<lparr>e_majority = 0, e_reject = 0, e_highest_view = - 1, e_max_seq = - 1\<rparr>"

definition ballot_reply :: "elect_response \<Rightarrow> ballot \<Rightarrow> ballot" where
  "ballot_reply r e =
     (if el_status r = ''Reject'' then
        e\<lparr>e_reject := e_reject e + 1,
          e_highest_view := (if e_highest_view e < el_view r then el_view r else e_highest_view e)\<rparr>
      else if el_status r = ''OK'' then
        e\<lparr>e_majority := e_majority e + 1,
          e_max_seq := (if e_max_seq e < el_highest_seq r then el_highest_seq r else e_max_seq e)\<rparr>
      else e)"

fun elect_loop ::
  "string \<Rightarrow> int \<Rightarrow> string list \<Rightarrow> ballot \<Rightarrow> 'd cluster \<Rightarrow> 'd cluster outcome + ballot \<times> 'd cluster" where
  "elect_loop own target [] e c = Inr (e, c)"
| "elect_loop own target (b # bs) e c =
     (if b = own then elect_loop own target bs e c
      else
        (case rpc b (\<lambda>t. Elect t \<lparr>er_view = target\<rparr>) c of
           (Blocked, c1) \<Rightarrow> Inl Stuck
         | (Ok r, c1) \<Rightarrow> elect_loop own target bs (ballot_reply r e) c1
         | (_, c1) \<Rightarrow> elect_loop own target bs e c1))"

text \<open>The section under \<open>mu\<close> after the round: \<open>None\<close> when the loop goes on.\<close>

definition follow_view :: "int \<Rightarrow> 'd paxos_impl \<Rightarrow> 'd paxos_impl" where
  "follow_view vw s =
     s\<lparr>view := to_int32 vw, leader_dead := False, missed_heartbeats := 0\<rparr>"

definition elect_finish :: "int \<Rightarrow> nat \<Rightarrow> ballot \<Rightarrow> 'd paxos_impl \<Rightarrow> 'd paxos_impl option" where
  "elect_finish target nsrv e s =
     (if 0 < e_reject e then
        Some (if view s < e_highest_view e \<and> target < e_highest_view e
              then follow_view (e_highest_view e) s else s)
      else if int (nsrv div 2) < e_majority e + 1 then
        (if e_highest_view e \<le> target \<and> view s < target then
           Some ((follow_view target s)
             \<lparr>highest_accepted_seq := (if highest_accepted_seq s < e_max_seq e then e_max_seq e
                                      else highest_accepted_seq s)\<rparr>)
         else Some (if view s < e_highest_view e then follow_view (e_highest_view e) s else s))
      else None)"

primrec Election :: "nat \<Rightarrow> 'd cluster \<Rightarrow> string \<Rightarrow> int \<Rightarrow> int \<Rightarrow> 'd cluster outcome" where
  "Election 0 c a my_view offset = Out_of_fuel"
| "Election (Suc rounds) c a my_view offset =
     (case node c a of
        None \<Rightarrow> Done c
      | Some s \<Rightarrow>
          (case elect_loop (server_address s) (to_int32 (my_view + offset))
                  (smap_keys (paxos_stubs_map s)) ballot_init c of
             Inl out \<Rightarrow> out
           | Inr (e, c1) \<Rightarrow>
               (case node c1 a of
                  None \<Rightarrow> Done c1
                | Some s1 \<Rightarrow>
                    if mu_locked s1 then Stuck
                    else
                      (case elect_finish (to_int32 (my_view + offset))
                              (length (smap_keys (paxos_stubs_map s1))) e s1 of
                         Some s2 \<Rightarrow> Done (put_node a s2 c1)
                       | None \<Rightarrow> Election rounds c1 a my_view offset))))"

section \<open>The next view of a server\<close>

text \<open>
  The offset leads to the least view above the present one that belongs to the caller.
\<close>

lemma next_own_view:
  fixes v m n :: int
  assumes n: "0 < n" and m: "0 \<le> m" "m < n" and v: "0 \<le> v" and other: "v mod n \<noteq> m"
  defines "off \<equiv> (if v mod n < m then m - v mod n else m + n - v mod n)"
  shows "(v + off) mod n = m" "0 < off" "off < n"
    and "\<And>w. v < w \<Longrightarrow> w mod n = m \<Longrightarrow> v + off \<le> w"
proof -
  have b: "0 \<le> v mod n" "v mod n < n" using n by simp_all
  have eq: "v + off = (v div n) * n + (if v mod n < m then m else m + n)"
    using minus_mod_eq_div_mult [of v n] by (auto simp: off_def)
  show md: "(v + off) mod n = m"
    using m by (simp add: eq)
  show off: "0 < off" "off < n"
    unfolding off_def using b m other
    by (cases "v mod n < m"; simp only: if_True if_False; linarith)+
  fix w assume w: "v < w" "w mod n = m"
  show "v + off \<le> w"
  proof (rule ccontr)
    assume "\<not> v + off \<le> w"
    then have d: "0 < v + off - w" "v + off - w < n" using w off by auto
    have "n dvd (v + off - w)" using mod_eq_dvd_iff [of "v + off" n w] md w(2) by simp
    with d show False using zdvd_imp_le by fastforce
  qed
qed

text \<open>The tick at which the detector of a server that does not lead the present view fires.\<close>

lemma DetectLeaderFailure_fires:
  assumes "\<not> mu_locked s" "in_int32 (missed_heartbeats s + 1)" "in_int32 (me s + group_size s)"
    and "0 \<le> view s" "0 \<le> me s" "me s < group_size s"
    and fires: "\<not> missed_heartbeats s < 3" and other: "view s mod group_size s \<noteq> me s"
  shows "\<exists>offset. DetectLeaderFailure s =
      (Ok (Some (view s, offset), True),
       s\<lparr>missed_heartbeats := 0, leader_dead := True, leader_election_happened := True\<rparr>) \<and>
    0 < offset \<and> offset < group_size s \<and> (view s + offset) mod group_size s = me s \<and>
    (\<forall>w. view s < w \<longrightarrow> w mod group_size s = me s \<longrightarrow> view s + offset \<le> w)"
proof -
  have g: "0 < group_size s" using assms(5,6) by simp
  have md: "view s smod group_size s = view s mod group_size s"
    using assms(4) g by (simp add: smod_nonneg)
  show ?thesis
    using next_own_view [OF g assms(5,6,4) other] assms(1-3) fires other
    by (auto simp: DetectLeaderFailure_def Let_def md)
qed

section \<open>Elections on the cluster\<close>

lemma Elect_frame [simp]:
  "slots (snd (Elect s req)) = slots s" "mu_locked (snd (Elect s req)) = mu_locked s"
  "paxos_stubs_map (snd (Elect s req)) = paxos_stubs_map s"
  "server_address (snd (Elect s req)) = server_address s" "me (snd (Elect s req)) = me s"
  "highest_accepted_seq (snd (Elect s req)) = highest_accepted_seq s"
  "paxos_db (snd (Elect s req)) = paxos_db s" "num_servers (snd (Elect s req)) = num_servers s"
  by (simp_all add: Elect_def with_mu_def Let_def)

text \<open>A peer that can be won: running, mutex free, in a view below the target.\<close>

lemma Elect_won:
  assumes "\<not> mu_locked s" "view s < er_view req" "in_int32 (er_view req)"
  shows "Elect s req =
     (Ok \<lparr>el_view = er_view req, el_status = ''OK'', el_highest_seq = highest_accepted_seq s\<rparr>,
      s\<lparr>view := er_view req, leader_dead := False, missed_heartbeats := 0\<rparr>)"
  using assms by (simp add: Elect_def Let_def)

text \<open>
  On a network that delivers, against peers that can all be won or are down, the round collects the
  vote of every peer that runs and leaves it in the target view.  The highest accepted slot that it
  hears of is one that some voter has reported.
\<close>

definition won :: "int \<Rightarrow> 'd paxos_impl \<Rightarrow> 'd paxos_impl" where
  "won target s = s\<lparr>view := target, leader_dead := False, missed_heartbeats := 0\<rparr>"

definition winnable :: "int \<Rightarrow> 'd paxos_impl \<Rightarrow> bool" where
  "winnable target s \<longleftrightarrow> \<not> mu_locked s \<and> view s < target"

lemma elect_loop_vote:
  assumes "net c = []" "in_int32 target" "b \<noteq> own" "node c b = Some s" "winnable target s"
  shows "elect_loop own target (b # bs) e c =
     elect_loop own target bs
       (e\<lparr>e_majority := e_majority e + 1, e_max_seq := max (e_max_seq e) (highest_accepted_seq s)\<rparr>)
       (put_node b (won target s) c)"
proof -
  let ?r = "\<lparr>el_view = target, el_status = ''OK'', el_highest_seq = highest_accepted_seq s\<rparr>"
  have "rpc b (\<lambda>t. Elect t \<lparr>er_view = target\<rparr>) c = (Ok ?r, put_node b (won target s) c)"
    using assms Elect_won [of s "\<lparr>er_view = target\<rparr>"]
    by (intro rpc_delivered) (simp_all add: winnable_def won_def)
  then show ?thesis using assms(3) by (simp add: ballot_reply_def max_def)
qed

lemma elect_loop_won:
  assumes "net c = []" "in_int32 target" "distinct bs"
    and "\<forall>b \<in> set bs - {own}. \<forall>s. node c b = Some s \<longrightarrow> winnable target s \<and> highest_accepted_seq s \<le> m"
    and "e_max_seq e \<le> m"
  shows "\<exists>e' c'. elect_loop own target bs e c = Inr (e', c') \<and> net c' = [] \<and>
     e_majority e' = e_majority e + int (length (filter (\<lambda>b. b \<noteq> own \<and> node c b \<noteq> None) bs)) \<and>
     e_reject e' = e_reject e \<and> e_highest_view e' = e_highest_view e \<and> e_max_seq e' \<le> m \<and>
     (\<forall>b. node c' b = (if b \<in> set bs - {own} then map_option (won target) (node c b) else node c b))"
  using assms(1,3-5)
proof (induction bs arbitrary: e c)
  case Nil
  then show ?case by simp
next
  case (Cons b bs)
  show ?case
  proof (cases "b = own \<or> node c b = None")
    case True
    have "elect_loop own target (b # bs) e c = elect_loop own target bs e c"
      using True Cons.prems(1) by (auto simp: rpc_down)
    moreover obtain e' c' where "elect_loop own target bs e c = Inr (e', c')" "net c' = []"
      "e_majority e' = e_majority e + int (length (filter (\<lambda>b. b \<noteq> own \<and> node c b \<noteq> None) bs))"
      "e_reject e' = e_reject e" "e_highest_view e' = e_highest_view e" "e_max_seq e' \<le> m"
      "\<forall>b. node c' b = (if b \<in> set bs - {own} then map_option (won target) (node c b) else node c b)"
      using Cons.IH [of c e] Cons.prems by auto
    ultimately show ?thesis using True by auto
  next
    case False
    then obtain s where s: "node c b = Some s" "b \<noteq> own" by auto
    have w: "winnable target s" "highest_accepted_seq s \<le> m" using s Cons.prems(3) by auto
    let ?e = "e\<lparr>e_majority := e_majority e + 1, e_max_seq := max (e_max_seq e) (highest_accepted_seq s)\<rparr>"
    let ?c = "put_node b (won target s) c"
    have peers: "\<forall>x \<in> set bs - {own}. \<forall>s. node ?c x = Some s \<longrightarrow> winnable target s \<and> highest_accepted_seq s \<le> m"
      using Cons.prems(2,3) by auto
    have votes: "filter (\<lambda>x. x \<noteq> own \<and> node ?c x \<noteq> None) bs = filter (\<lambda>x. x \<noteq> own \<and> node c x \<noteq> None) bs"
      using s(1) by (intro filter_cong) auto
    from Cons.IH [OF _ _ peers, of ?e] Cons.prems(1,2,4) w(2)
    obtain e' c' where ih: "elect_loop own target bs ?e ?c = Inr (e', c')" "net c' = []"
      "e_majority e' = e_majority e + 1 + int (length (filter (\<lambda>b. b \<noteq> own \<and> node c b \<noteq> None) bs))"
      "e_reject e' = e_reject e" "e_highest_view e' = e_highest_view e" "e_max_seq e' \<le> m"
      "\<forall>x. node c' x = (if x \<in> set bs - {own} then map_option (won target) (node ?c x) else node ?c x)"
      unfolding votes by auto
    have "node c' x = (if x \<in> set (b # bs) - {own} then map_option (won target) (node c x) else node c x)" for x
      using ih(7) s Cons.prems(2) by auto
    then show ?thesis
      using ih(1-6) s elect_loop_vote [OF Cons.prems(1) assms(2) s(2,1) w(1), of bs e] by auto
  qed
qed

text \<open>
  An election in which the caller and the peers that vote for it are more than half of the table is
  won in one round.
\<close>

lemma Election_wins:
  assumes "net c = []" "node c a = Some s" "winnable T s" "server_address s = a"
    and T: "in_int32 T" "0 \<le> T" "T = my_view + offset"
    and keys: "distinct (smap_keys (paxos_stubs_map s))" "a \<in> set (smap_keys (paxos_stubs_map s))"
    and peers: "\<forall>b \<in> set (smap_keys (paxos_stubs_map s)) - {a}. \<forall>t. node c b = Some t \<longrightarrow>
           winnable T t \<and> highest_accepted_seq t \<le> m"
    and m: "- 1 \<le> m" "highest_accepted_seq s \<le> m"
    and maj: "length (smap_keys (paxos_stubs_map s)) <
           2 * card {b \<in> set (smap_keys (paxos_stubs_map s)). node c b \<noteq> None}"
  shows "\<exists>c' h. Election (Suc rounds) c a my_view offset = Done c' \<and> net c' = [] \<and> h \<le> m \<and>
    (\<forall>b. node c' b = (if b = a then Some ((won T s)\<lparr>highest_accepted_seq := h\<rparr>)
       else if b \<in> set (smap_keys (paxos_stubs_map s)) then map_option (won T) (node c b) else node c b))"
proof -
  let ?keys = "smap_keys (paxos_stubs_map s)"
  let ?votes = "filter (\<lambda>b. b \<noteq> a \<and> node c b \<noteq> None) ?keys"
  have "e_max_seq ballot_init \<le> m" using m(1) by (simp add: ballot_init_def)
  from elect_loop_won [OF assms(1) T(1) keys(1) peers this] obtain e c1 where
    r: "elect_loop a T ?keys ballot_init c = Inr (e, c1)" "net c1 = []"
    "e_majority e = e_majority ballot_init + int (length ?votes)"
    "e_reject e = e_reject ballot_init" "e_highest_view e = e_highest_view ballot_init" "e_max_seq e \<le> m"
    "\<forall>b. node c1 b = (if b \<in> set ?keys - {a} then map_option (won T) (node c b) else node c b)" by blast
  have n1: "node c1 a = Some s" using r(7) assms(2) by simp
  have "insert a (set ?votes) = {b \<in> set ?keys. node c b \<noteq> None}" using assms(2) keys(2) by auto
  moreover have "card (insert a (set ?votes)) = Suc (length ?votes)"
    using distinct_card [OF distinct_filter [OF keys(1)]] by (subst card_insert_disjoint) simp_all
  ultimately have "length ?keys < 2 * Suc (length ?votes)" using maj by simp
  then have majority: "int (length ?keys div 2) < e_majority e + 1"
    using r(3) by (simp add: ballot_init_def)
  define h where "h = (if highest_accepted_seq s < e_max_seq e then e_max_seq e else highest_accepted_seq s)"
  have fin: "elect_finish T (length ?keys) e s = Some ((won T s)\<lparr>highest_accepted_seq := h\<rparr>)"
    using majority r(4,5) assms(3) T by (simp add: elect_finish_def ballot_init_def h_def follow_view_def won_def winnable_def)
  have "Election (Suc rounds) c a my_view offset = Done (put_node a ((won T s)\<lparr>highest_accepted_seq := h\<rparr>) c1)"
    using assms(2-4) T r(1) n1 fin by (simp add: winnable_def)
  moreover have "h \<le> m" using r(6) m(2) by (simp add: h_def)
  ultimately show ?thesis using r(2,7) by auto
qed

text \<open>A server that no peer answers collects nothing.\<close>

lemma elect_loop_alone:
  assumes "net c = []" "\<forall>b \<in> set bs - {own}. node c b = None"
  shows "elect_loop own target bs e c = Inr (e, c)"
  using assms
  by (induction bs) (auto simp: rpc_def next_fate_def)

section \<open>Properties\<close>

text \<open>
  Failure detection.  The fourth tick without a heartbeat, and no earlier one, marks the leader
  dead, starts the 40 second window in which lock requests are refused, and, on every server but the
  leader of the present view, starts an election for a view above it that this server leads, the
  lowest there is.
\<close>
theorem failure_detected:
  assumes "\<not> mu_locked s" "in_int32 (missed_heartbeats s + 1)" "in_int32 (me s + group_size s)"
    and "0 \<le> view s" "0 \<le> me s" "me s < group_size s"
  shows "if missed_heartbeats s < 3 then
      DetectLeaderFailure s = (Ok (None, False), s\<lparr>missed_heartbeats := missed_heartbeats s + 1\<rparr>)
    else
      \<exists>el. DetectLeaderFailure s =
          (Ok (el, True), s\<lparr>missed_heartbeats := 0, leader_dead := True, leader_election_happened := True\<rparr>) \<and>
        (el = None \<longleftrightarrow> view s mod group_size s = me s) \<and>
        (\<forall>my_view offset. el = Some (my_view, offset) \<longrightarrow>
           my_view = view s \<and> 0 < offset \<and> (my_view + offset) mod group_size s = me s \<and>
           (\<forall>w. view s < w \<longrightarrow> w mod group_size s = me s \<longrightarrow> my_view + offset \<le> w))"
proof (cases "missed_heartbeats s < 3")
  case True
  then show ?thesis using assms(1,2) by (simp add: DetectLeaderFailure_def Let_def)
next
  case False
  show ?thesis
  proof (cases "view s mod group_size s = me s")
    case True
    moreover have "view s smod group_size s = view s mod group_size s"
      using assms(4-6) by (simp add: smod_nonneg)
    ultimately show ?thesis using assms(1-3) False by (simp add: DetectLeaderFailure_def Let_def)
  next
    case other: False
    from DetectLeaderFailure_fires [OF assms False other] False other show ?thesis by auto
  qed
qed

lemma failure_detected_witness:
  "\<exists>s'. DetectLeaderFailure ((sample_server 2)\<lparr>missed_heartbeats := 3\<rparr>) = (Ok (Some (0, 2), True), s')"
proof -
  let ?s = "(sample_server 2)\<lparr>missed_heartbeats := 3\<rparr>"
  obtain el where el: "DetectLeaderFailure ?s =
        (Ok (el, True), ?s\<lparr>missed_heartbeats := 0, leader_dead := True, leader_election_happened := True\<rparr>)"
      "el \<noteq> None" "\<forall>my_view offset. el = Some (my_view, offset) \<longrightarrow> my_view = 0 \<and> 0 < offset \<and>
         (my_view + offset) mod 3 = 2 \<and> (\<forall>w. 0 < w \<longrightarrow> w mod 3 = 2 \<longrightarrow> my_view + offset \<le> w)"
    using failure_detected [of ?s] by (auto simp: in_int32_def)
  then obtain off where off: "el = Some (0, off)" by auto
  with el(3) have "0 < off" "off mod 3 = 2" "\<forall>w. 0 < w \<longrightarrow> w mod 3 = 2 \<longrightarrow> off \<le> w" by auto
  moreover from this(3) have "off \<le> 2" by simp
  ultimately have "off = 2" by presburger
  with el(1) off show ?thesis by simp
qed

text \<open>
  C23: an election is won in one round when every call is delivered, more than half of the servers of
  the table run, and those that run are in a view below the target: \<open>Election\<close> returns, and all of
  them and the caller are in the target view with a live leader.
\<close>
theorem election_won:
  assumes "net c = []" "node c a = Some s" "\<not> mu_locked s" "server_address s = a"
    and "in_int32 (my_view + offset)" "view s < my_view + offset" "0 \<le> my_view + offset"
    and "distinct (smap_keys (paxos_stubs_map s))" "a \<in> set (smap_keys (paxos_stubs_map s))"
    and "\<forall>b \<in> set (smap_keys (paxos_stubs_map s)) - {a}. \<forall>t. node c b = Some t \<longrightarrow>
           \<not> mu_locked t \<and> view t < my_view + offset"
    and "length (smap_keys (paxos_stubs_map s)) <
           2 * card {b \<in> set (smap_keys (paxos_stubs_map s)). node c b \<noteq> None}"
  shows "\<exists>c'. Election (Suc rounds) c a my_view offset = Done c' \<and>
    (\<forall>b \<in> set (smap_keys (paxos_stubs_map s)). node c b \<noteq> None \<longrightarrow> (\<exists>t. node c' b = Some t \<and>
       view t = my_view + offset \<and> \<not> leader_dead t \<and> missed_heartbeats t = 0))"
proof -
  let ?K = "set (smap_keys (paxos_stubs_map s))"
  let ?H = "insert (- 1) (highest_accepted_seq ` (the ` node c ` ?K))"
  have H: "x \<le> Max ?H" if "x \<in> ?H" for x using that by (intro Max_ge) simp_all
  have "highest_accepted_seq t \<le> Max ?H" if "b \<in> ?K" "node c b = Some t" for b t
    using that by (intro H insertI2 image_eqI [of _ _ t] image_eqI [of _ _ "Some t"] image_eqI [of _ _ b]) simp_all
  with assms(10) have peers: "\<forall>b \<in> ?K - {a}. \<forall>t. node c b = Some t \<longrightarrow>
      winnable (my_view + offset) t \<and> highest_accepted_seq t \<le> max (highest_accepted_seq s) (Max ?H)"
    by (auto simp: winnable_def le_max_iff_disj)
  have "winnable (my_view + offset) s" using assms(3,6) by (simp add: winnable_def)
  moreover have "- 1 \<le> max (highest_accepted_seq s) (Max ?H)" using H [of "- 1"] by (simp add: le_max_iff_disj)
  ultimately obtain c' h where "Election (Suc rounds) c a my_view offset = Done c'"
    "\<forall>b. node c' b = (if b = a then Some ((won (my_view + offset) s)\<lparr>highest_accepted_seq := h\<rparr>)
       else if b \<in> ?K then map_option (won (my_view + offset)) (node c b) else node c b)"
    using Election_wins [OF assms(1,2) _ assms(4,5,7) refl assms(8,9) peers _ max.cobounded1 assms(11), of rounds]
    by blast
  then show ?thesis by (auto simp: won_def simp del: Election.simps)
qed

lemma election_won_witness:
  "\<exists>c' t. Election (Suc 0) (kill_node ''127.0.0.1:50051'' sample_cell) ''127.0.0.1:50052'' 0 1 = Done c' \<and>
     node c' ''127.0.0.1:50053'' = Some t \<and> view t = 1"
proof -
  let ?c = "kill_node ''127.0.0.1:50051'' sample_cell"
  have keys: "set (smap_keys (paxos_stubs_map (sample_server 1))) =
      {''127.0.0.1:50051'', ''127.0.0.1:50052'', ''127.0.0.1:50053''}"
    "length (smap_keys (paxos_stubs_map (sample_server 1))) = 3"
    "distinct (smap_keys (paxos_stubs_map (sample_server 1)))" by (simp_all add: smap_keys_def)
  have up: "{b \<in> {''127.0.0.1:50051'', ''127.0.0.1:50052'', ''127.0.0.1:50053''}. node ?c b \<noteq> None} =
      {''127.0.0.1:50052'', ''127.0.0.1:50053''}" by auto
  from election_won [of ?c "''127.0.0.1:50052''" "sample_server 1" 0 1 0]
  show ?thesis unfolding keys up by (auto simp: smap_keys_def insert_Diff_if simp del: Election.simps)
qed

text \<open>
  An election never gives up.  A server of a group of two or more whose calls reach nobody goes
  round for ever: no number of rounds lets \<open>Election\<close> return.
\<close>
theorem isolated_election_never_ends:
  assumes "net c = []" "node c a = Some s" "\<not> mu_locked s" "server_address s = a"
    and "\<forall>b \<in> set (smap_keys (paxos_stubs_map s)) - {a}. node c b = None"
    and "2 \<le> length (smap_keys (paxos_stubs_map s))"
  shows "Election rounds c a my_view offset = Out_of_fuel"
proof (induction rounds)
  case (Suc rounds)
  let ?keys = "smap_keys (paxos_stubs_map s)"
  have "elect_loop a (to_int32 (my_view + offset)) ?keys ballot_init c = Inr (ballot_init, c)"
    by (rule elect_loop_alone [OF assms(1,5)])
  moreover have "elect_finish (to_int32 (my_view + offset)) (length ?keys) ballot_init s = None"
    using assms(6) by (simp add: elect_finish_def ballot_init_def)
  ultimately show ?case using assms(2-4) Suc by simp
qed simp

lemma isolated_election_never_ends_witness:
  "Election 1000 \<lparr>nodes = [(''127.0.0.1:50051'', sample_server 0)], net = []\<rparr> ''127.0.0.1:50051'' 0 3 = Out_of_fuel"
  using isolated_election_never_ends [of "\<lparr>nodes = [(''127.0.0.1:50051'', sample_server 0)], net = []\<rparr>"
      "''127.0.0.1:50051''" "sample_server 0" 1000 0 3]
  by (simp add: node_def smap_keys_def)

end
