(* ===== verification/Steady.thy ===== *)
theory Steady
  imports ProposerRuns Election
begin

text \<open>
  The two threads that \<open>RunServer\<close> starts beside the services: one calls \<open>SendHeartbeats\<close> once a
  second, the other \<open>DetectLeaderFailure\<close>.  On a network that delivers, the leader keeps its view
  as long as no server runs its detector four times between two of the leader's rounds.
\<close>

section \<open>The threads\<close>

text \<open>
  One turn of the second thread on the server at \<open>b\<close>, with the election it starts.  A detector
  that waits for \<open>mu\<close> changes nothing.
\<close>

definition detector_turn :: "string \<Rightarrow> 'd cluster \<Rightarrow> (int \<times> int) option \<times> 'd cluster" where
  "detector_turn b c =
     (case node c b of
        None \<Rightarrow> (None, c)
      | Some s \<Rightarrow>
          (case DetectLeaderFailure s of
             (Ok (el, timer), s') \<Rightarrow> (el, put_node b s' c)
           | (_, s') \<Rightarrow> (None, put_node b s' c)))"

text \<open>One turn of the first thread.\<close>

definition heartbeat_turn :: "string \<Rightarrow> 'd cluster \<Rightarrow> 'd cluster outcome" where
  "heartbeat_turn a c = SendHeartbeats a c"

text \<open>
  A schedule: in each round the detectors of the listed servers take a turn, one after the other,
  and then the leader at \<open>a\<close> sends its heartbeats.  The result has the elections started.
\<close>

fun detector_turns :: "string list \<Rightarrow> 'd cluster \<Rightarrow> (int \<times> int) list \<times> 'd cluster" where
  "detector_turns [] c = ([], c)"
| "detector_turns (b # bs) c =
     (case detector_turn b c of
        (el, c1) \<Rightarrow>
          (case detector_turns bs c1 of
             (els, c2) \<Rightarrow> ((case el of None \<Rightarrow> els | Some e \<Rightarrow> e # els), c2)))"

fun rounds :: "string \<Rightarrow> string list list \<Rightarrow> 'd cluster \<Rightarrow> ((int \<times> int) list \<times> 'd cluster) outcome" where
  "rounds a [] c = Done ([], c)"
| "rounds a (bs # bss) c =
     (case detector_turns bs c of
        (els, c1) \<Rightarrow>
          (case heartbeat_turn a c1 of
             Done c2 \<Rightarrow> map_outcome (\<lambda>(els', c3). (els @ els', c3)) (rounds a bss c2)
           | Thrown x c2 \<Rightarrow> Thrown x (els, c2)
           | Died c2 \<Rightarrow> Died (els, c2)
           | Stuck \<Rightarrow> Stuck
           | Out_of_fuel \<Rightarrow> Out_of_fuel))"

section \<open>A steady server\<close>

text \<open>In view \<open>v\<close> under the leader at \<open>a\<close>, whose number is \<open>i\<close> and whose table is \<open>keys\<close>.\<close>

definition steady :: "int \<Rightarrow> string \<Rightarrow> int \<Rightarrow> string list \<Rightarrow> string \<Rightarrow> 'd paxos_impl \<Rightarrow> bool" where
  "steady v a i keys b t \<longleftrightarrow>
     \<not> mu_locked t \<and> view t = v \<and> \<not> leader_dead t \<and> \<not> leader_election_happened t \<and>
     (me t = i \<longleftrightarrow> b = a) \<and> (b = a \<longrightarrow> server_address t = a \<and> v smod group_size t = i \<and>
       smap_keys (paxos_stubs_map t) = keys)"

lemma steady_missed [simp]: "steady v a i keys b (t\<lparr>missed_heartbeats := n\<rparr>) = steady v a i keys b t"
  by (simp add: steady_def)

lemma election_window_adopt [simp]:
  "leader_election_happened (adopt_slots m s) = leader_election_happened s"
proof (induction m s rule: adopt_slots.induct)
  case (2 k sl m s)
  have "leader_election_happened (adopt_slot s k v) = leader_election_happened s" for v
    by (simp add: adopt_slot_def split_beta)
  with 2 show ?case by simp
qed simp

lemma steady_adopt [simp]: "steady v a i keys b (adopt_slots m t) = steady v a i keys b t"
  by (simp add: steady_def)

lemma steady_merge:
  assumes "steady v a i keys b t" "hb_view req = v"
  shows "steady v a i keys b (heartbeat_merge t req)" and "missed_heartbeats (heartbeat_merge t req) = 0"
  using assms by (simp_all add: steady_def heartbeat_merge_def adopt_view_def)

text \<open>A heartbeat of the leader brings the count of every steady server to zero.\<close>

lemma Heartbeat_steady:
  assumes t: "steady v a i keys b t" and req: "hb_id req = i" "hb_view req = v"
  shows "\<exists>r t'. Heartbeat t req = (Ok r, t') \<and> steady v a i keys b t' \<and> missed_heartbeats t' = 0"
proof (cases "b = a")
  case True
  with t req have "Heartbeat t req = (Ok \<lparr>hp_slots = []\<rparr>, t\<lparr>missed_heartbeats := 0\<rparr>)"
    by (simp add: steady_def decided_Heartbeat_self)
  with t show ?thesis by simp
next
  case False
  with t req have "heartbeat_taken t req" by (simp add: steady_def heartbeat_taken_def)
  from Heartbeat_taken [OF this] steady_merge [OF t req(2)] show ?thesis by simp
qed

lemma send_loop_steady:
  assumes "a \<in> B" "set bs \<subseteq> B"
    and "cell_with c B (\<lambda>b t. steady v a i keys b t \<and> (b \<in> F \<longrightarrow> missed_heartbeats t = 0))"
  shows "\<exists>c'. send_loop a v ps bs dn c = Done c' \<and>
    cell_with c' B (\<lambda>b t. steady v a i keys b t \<and> (b \<in> F \<union> set bs \<longrightarrow> missed_heartbeats t = 0))"
  using assms
proof (induction bs arbitrary: dn c F)
  case Nil
  then show ?case by simp
next
  case (Cons b bs)
  let ?P = "\<lambda>F b t. steady v a i keys b t \<and> (b \<in> F \<longrightarrow> missed_heartbeats t = 0)"
  obtain s where s: "node c a = Some s" "steady v a i keys a s"
    using cell_withD [OF Cons.prems(3,1)] by auto
  obtain t where t: "node c b = Some t" "steady v a i keys b t"
    using cell_withD [OF Cons.prems(3), of b] Cons.prems(2) by auto
  let ?req = "\<lparr>hb_id = me s, hb_view = v, hb_done = dn @ done_vec s, hb_slots = ps\<rparr>"
  obtain r t' where hb: "Heartbeat t ?req = (Ok r, t')" "steady v a i keys b t'" "missed_heartbeats t' = 0"
    using Heartbeat_steady [OF t(2), of ?req] s(2) by (auto simp: steady_def)
  let ?c1 = "put_node b t' c"
  have call: "rpc b (\<lambda>t. Heartbeat t ?req) c = (Ok r, ?c1)"
    using Cons.prems(3) t(1) hb(1) by (intro rpc_delivered) (auto simp: cell_with_def)
  have c1: "cell_with ?c1 B (?P (insert b F))"
    using Cons.prems(3) hb(2,3) by (auto simp: cell_with_def)
  obtain s1 where s1: "node ?c1 a = Some s1" "?P (insert b F) a s1"
    using cell_withD [OF c1 Cons.prems(1)] by auto
  let ?c2 = "put_node a (adopt_slots (slots_of_proto (hp_slots r)) s1) ?c1"
  have c2: "cell_with ?c2 B (?P (insert b F))"
    by (rule cell_with_put [OF c1]) (use s1(2) in auto)
  have "send_loop a v ps (b # bs) dn c =
      send_loop a v ps bs (dn @ done_vec s) (if b \<noteq> server_address s then ?c2 else ?c1)"
    using s s1 call by (cases "b = a") (auto simp: Let_def steady_def)
  moreover have "cell_with (if b \<noteq> server_address s then ?c2 else ?c1) B (?P (insert b F))"
    using c1 c2 by presburger
  moreover have "insert b F \<union> set bs = F \<union> set (b # bs)" by auto
  ultimately show ?case using Cons.IH [OF Cons.prems(1), of _ "insert b F"] Cons.prems(2) by auto
qed

lemma heartbeat_turn_steady:
  assumes "a \<in> set keys" "cell_with c (set keys) (steady v a i keys)"
  shows "\<exists>c'. heartbeat_turn a c = Done c' \<and>
    cell_with c' (set keys) (\<lambda>b t. steady v a i keys b t \<and> missed_heartbeats t = 0)"
proof -
  obtain s where s: "node c a = Some s" "steady v a i keys a s"
    using cell_withD [OF assms(2,1)] by auto
  have "cell_with c (set keys) (\<lambda>b t. steady v a i keys b t \<and> (b \<in> {} \<longrightarrow> missed_heartbeats t = 0))"
    using assms(2) by simp
  from send_loop_steady [OF assms(1) subset_refl this] s
  show ?thesis by (force simp: heartbeat_turn_def SendHeartbeats_def steady_def elim: cell_with_mono)
qed

section \<open>The detectors\<close>

text \<open>\<open>k b\<close> bounds the turns the detector of \<open>b\<close> has taken since the last round.\<close>

lemma DetectLeaderFailure_early:
  assumes "\<not> mu_locked s" "0 \<le> missed_heartbeats s" "missed_heartbeats s < 3"
  shows "DetectLeaderFailure s = (Ok (None, False), s\<lparr>missed_heartbeats := missed_heartbeats s + 1\<rparr>)"
  using assms by (simp add: DetectLeaderFailure_def Let_def in_int32_def)

lemma detector_turns_steady:
  assumes "cell_with c B (\<lambda>b t. steady v a i keys b t \<and> 0 \<le> missed_heartbeats t \<and>
             missed_heartbeats t + int (count_list bs b) \<le> 3)"
    and "set bs \<subseteq> B"
  shows "\<exists>c'. detector_turns bs c = ([], c') \<and> cell_with c' B (steady v a i keys)"
  using assms
proof (induction bs arbitrary: c)
  case Nil
  then show ?case by (auto elim: cell_with_mono)
next
  case (Cons b bs)
  obtain s where s: "node c b = Some s" "steady v a i keys b s" "0 \<le> missed_heartbeats s"
    "missed_heartbeats s + int (count_list (b # bs) b) \<le> 3"
    using cell_withD [OF Cons.prems(1), of b] Cons.prems(2) by auto
  let ?c1 = "put_node b (s\<lparr>missed_heartbeats := missed_heartbeats s + 1\<rparr>) c"
  have turn: "detector_turn b c = (None, ?c1)"
    using s DetectLeaderFailure_early [of s] by (simp add: detector_turn_def steady_def)
  have "cell_with ?c1 B (\<lambda>b t. steady v a i keys b t \<and> 0 \<le> missed_heartbeats t \<and>
             missed_heartbeats t + int (count_list bs b) \<le> 3)"
    using Cons.prems(1) s by (force simp: cell_with_def)
  from Cons.IH [OF this] Cons.prems(2) turn show ?case by auto
qed

lemma rounds_steady:
  assumes "a \<in> set keys" "\<forall>bs \<in> set bss. set bs \<subseteq> set keys \<and> (\<forall>b. count_list bs b \<le> 3)"
    and "cell_with c (set keys) (\<lambda>b t. steady v a i keys b t \<and> missed_heartbeats t = 0)"
  shows "\<exists>c'. rounds a bss c = Done ([], c') \<and>
    cell_with c' (set keys) (\<lambda>b t. steady v a i keys b t \<and> missed_heartbeats t = 0)"
  using assms(2,3)
proof (induction bss arbitrary: c)
  case Nil
  then show ?case by simp
next
  case (Cons bs bss)
  have "cell_with c (set keys) (\<lambda>b t. steady v a i keys b t \<and> 0 \<le> missed_heartbeats t \<and>
      missed_heartbeats t + int (count_list bs b) \<le> 3)"
    using Cons.prems(2) by (rule cell_with_mono) (use Cons.prems(1) in force)
  from detector_turns_steady [OF this] Cons.prems(1) obtain c1 where
    c1: "detector_turns bs c = ([], c1)" "cell_with c1 (set keys) (steady v a i keys)" by auto
  from heartbeat_turn_steady [OF assms(1) c1(2)] obtain c2 where
    c2: "heartbeat_turn a c1 = Done c2"
    "cell_with c2 (set keys) (\<lambda>b t. steady v a i keys b t \<and> missed_heartbeats t = 0)" by auto
  from Cons.IH [OF _ c2(2)] Cons.prems(1) c1(1) c2(1) show ?case by auto
qed

section \<open>Properties\<close>

text \<open>
  C22: a connected cell keeps its leader.  When all servers of the leader's table are in its view,
  have missed no heartbeat and take nobody for dead, and the network delivers, then for any number
  of rounds, in each of which every server runs its detector at most three times, in any order,
  before the leader sends its heartbeats, no server starts an election, nobody is taken for dead,
  and all stay in the view.
\<close>
theorem connected_cell_keeps_leader:
  assumes "a \<in> set keys" "\<forall>bs \<in> set bss. set bs \<subseteq> set keys \<and> (\<forall>b. count_list bs b \<le> 3)"
    and "net c = []"
    and "\<forall>b \<in> set keys. \<exists>t. node c b = Some t \<and> steady v a i keys b t \<and> missed_heartbeats t = 0"
  shows "\<exists>c'. rounds a bss c = Done ([], c') \<and>
    (\<forall>b \<in> set keys. \<exists>t. node c' b = Some t \<and> view t = v \<and> \<not> leader_dead t \<and>
       \<not> leader_election_happened t)"
proof -
  have "cell_with c (set keys) (\<lambda>b t. steady v a i keys b t \<and> missed_heartbeats t = 0)"
    using assms(3,4) by (simp add: cell_with_def)
  from rounds_steady [OF assms(1,2) this] show ?thesis
    by (force simp: cell_with_def steady_def)
qed

lemma connected_cell_keeps_leader_witness:
  "\<exists>c' t. rounds ''127.0.0.1:50051'' (replicate 5 (concat (replicate 3 [''127.0.0.1:50052'', ''127.0.0.1:50051''])))
      sample_cell = Done ([], c') \<and> node c' ''127.0.0.1:50052'' = Some t \<and> \<not> leader_dead t"
proof -
  let ?keys = "smap_keys (paxos_stubs_map (sample_server 0))"
  let ?bs = "concat (replicate 3 [''127.0.0.1:50052'', ''127.0.0.1:50051''])"
  have "\<exists>c'. rounds ''127.0.0.1:50051'' (replicate 5 ?bs) sample_cell = Done ([], c') \<and>
    (\<forall>b \<in> set ?keys. \<exists>t. node c' b = Some t \<and> view t = 0 \<and> \<not> leader_dead t \<and>
       \<not> leader_election_happened t)"
    by (rule connected_cell_keeps_leader [where i = 0])
      (auto simp: steady_def smap_keys_def eval_nat_numeral signed_modulo_int_def)
  then show ?thesis by (auto simp: smap_keys_def)
qed

end
