(* ===== verification/Recovery.thy ===== *)
theory Recovery
  imports Steady
begin

text \<open>
  A cell that loses its leader, from the detector to the first proposal of the new leader: the
  detector of a surviving server fires, \<open>Election\<close> moves the survivors to a view that this server
  leads, and its proposals then reach all of them.  Any number of servers may be down as long as
  more than half of the table runs.
\<close>

section \<open>The operations after each other\<close>

text \<open>
  One turn of the detector of the server at \<open>a\<close> and the election it starts; then a proposal there.
\<close>

definition fail_over :: "nat \<Rightarrow> 'd cluster \<Rightarrow> string \<Rightarrow> 'd cluster outcome" where
  "fail_over fuel c a =
     (case detector_turn a c of
        (None, c1) \<Rightarrow> Done c1
      | (Some (my_view, offset), c1) \<Rightarrow> Election fuel c1 a my_view offset)"

definition take_over ::
  "'d env \<Rightarrow> nat \<Rightarrow> 'd cluster \<Rightarrow> string \<Rightarrow> int \<Rightarrow> string \<Rightarrow> 'd cluster outcome" where
  "take_over E fuel c a seq v =
     (case fail_over fuel c a of Done c2 \<Rightarrow> Start E c2 a seq v | out \<Rightarrow> out)"

text \<open>The timer of the detector when its 40 seconds are over.\<close>

definition timer_fires :: "string \<Rightarrow> 'd cluster \<Rightarrow> 'd cluster" where
  "timer_fires a c =
     (case node c a of None \<Rightarrow> c | Some s \<Rightarrow> put_node a (snd (election_timer s)) c)"

section \<open>The survivors\<close>

text \<open>A running server that is not ahead of view \<open>v\<close> and can take part in slot \<open>seq\<close>.\<close>

definition survivor :: "int \<Rightarrow> int \<Rightarrow> 'd paxos_impl \<Rightarrow> bool" where
  "survivor v seq t \<longleftrightarrow> ready seq t \<and> view t \<le> v \<and> highest_accepted_seq t < seq"

lemma ready_view_fields [simp]:
  "ready seq (won T t) = ready seq t"
  "ready seq (t\<lparr>highest_accepted_seq := h\<rparr>) = ready seq t"
  "ready seq (t\<lparr>missed_heartbeats := i, leader_dead := x, leader_election_happened := y\<rparr>) = ready seq t"
  by (simp_all add: ready_def can_enter_def done_me_def decided_def get_slot_def won_def)

lemma won_fields [simp]:
  "view (won T t) = T" "leader_dead (won T t) = False" "paxos_stubs_map (won T t) = paxos_stubs_map t"
  "paxos_db (won T t) = paxos_db t" "me (won T t) = me t" "is_dead (won T t) = is_dead t"
  "num_servers (won T t) = num_servers t"
  by (simp_all add: won_def)

text \<open>A server that can win an election: one of the group, with its table, not the present leader.\<close>

definition candidate :: "string \<Rightarrow> 'd paxos_impl \<Rightarrow> bool" where
  "candidate a s \<longleftrightarrow>
     server_address s = a \<and> smap_ok (paxos_stubs_map s) \<and> a \<in> set (smap_keys (paxos_stubs_map s)) \<and>
     num_servers s = group_size s \<and> 0 \<le> me s \<and> me s < group_size s \<and> is_dead s = 0 \<and>
     0 \<le> view s \<and> in_int32 (view s + group_size s) \<and> in_int32 (me s + group_size s) \<and>
     view s mod group_size s \<noteq> me s"

lemma detector_turn_fires:
  assumes "node c a = Some s" "candidate a s" "missed_heartbeats s = 3" "\<not> mu_locked s"
  shows "\<exists>offset. detector_turn a c = (Some (view s, offset), put_node a
        (s\<lparr>missed_heartbeats := 0, leader_dead := True, leader_election_happened := True\<rparr>) c) \<and>
     0 < offset \<and> offset < group_size s \<and> (view s + offset) mod group_size s = me s"
  using assms DetectLeaderFailure_fires [of s]
  by (auto simp: candidate_def detector_turn_def in_int32_def)

text \<open>The election after the detector: who runs afterwards, and in what state.\<close>

lemma Election_after_detector:
  assumes "net c = []" "node c a = Some s" "candidate a s" "0 \<le> seq"
    and up: "\<forall>b \<in> set (smap_keys (paxos_stubs_map s)). \<forall>t. node c b = Some t \<longrightarrow> survivor (view s) seq t"
    and maj: "length (smap_keys (paxos_stubs_map s)) <
           2 * card {b \<in> set (smap_keys (paxos_stubs_map s)). node c b \<noteq> None}"
    and off: "0 < offset" "offset < group_size s"
  defines "s1 \<equiv> s\<lparr>missed_heartbeats := 0, leader_dead := True, leader_election_happened := True\<rparr>"
  shows "\<exists>c2 h. Election (Suc fuel) (put_node a s1 c) a (view s) offset = Done c2 \<and> net c2 = [] \<and> h < seq \<and>
    (\<forall>b. node c2 b = (if b = a then Some ((won (view s + offset) s1)\<lparr>highest_accepted_seq := h\<rparr>)
       else if b \<in> set (smap_keys (paxos_stubs_map s)) then map_option (won (view s + offset)) (node c b)
       else node c b))"
proof -
  let ?keys = "smap_keys (paxos_stubs_map s)" and ?T = "view s + offset" and ?c1 = "put_node a s1 c"
  have cand: "server_address s = a" "smap_ok (paxos_stubs_map s)" "a \<in> set ?keys" "0 \<le> view s"
    "in_int32 (view s + group_size s)" using assms(3) by (simp_all add: candidate_def)
  have T: "in_int32 ?T" "0 \<le> ?T" using cand(4,5) off by (simp_all add: in_int32_def)
  have s1: "paxos_stubs_map s1 = paxos_stubs_map s" "server_address s1 = a"
    "highest_accepted_seq s1 = highest_accepted_seq s" "mu_locked s1 = mu_locked s" "view s1 = view s"
    using cand(1) by (simp_all add: s1_def)
  have w: "winnable ?T t \<and> highest_accepted_seq t \<le> seq - 1" if "survivor (view s) seq t" for t
    using that off by (simp add: survivor_def winnable_def ready_def can_enter_def)
  have own: "survivor (view s) seq s" using up cand(3) assms(2) by blast
  have run: "{b \<in> set ?keys. node ?c1 b \<noteq> None} = {b \<in> set ?keys. node c b \<noteq> None}" using assms(2) by auto
  have "\<exists>c2 h. Election (Suc fuel) ?c1 a (view s) offset = Done c2 \<and> net c2 = [] \<and> h \<le> seq - 1 \<and>
    (\<forall>b. node c2 b = (if b = a then Some ((won ?T s1)\<lparr>highest_accepted_seq := h\<rparr>)
       else if b \<in> set (smap_keys (paxos_stubs_map s1)) then map_option (won ?T) (node ?c1 b)
       else node ?c1 b))"
  proof (rule Election_wins [OF _ _ _ _ T refl])
    show "winnable ?T s1" using w [OF own] s1 by (simp add: winnable_def)
    show "length (smap_keys (paxos_stubs_map s1)) < 2 * card {b \<in> set (smap_keys (paxos_stubs_map s1)). node ?c1 b \<noteq> None}"
      unfolding s1 run by (rule maj)
    show "\<forall>b \<in> set (smap_keys (paxos_stubs_map s1)) - {a}. \<forall>t. node ?c1 b = Some t \<longrightarrow>
           winnable ?T t \<and> highest_accepted_seq t \<le> seq - 1" using up w s1 by auto
  qed (use assms(1,4) cand s1 w [OF own] distinct_smap_keys in simp_all)
  then show ?thesis unfolding s1 by auto
qed

text \<open>What the new leader and the servers that run have after that.\<close>

lemma fail_over_elects:
  assumes "net c = []" "node c a = Some s" "candidate a s" "missed_heartbeats s = 3" "0 \<le> seq"
    and "\<forall>b \<in> set (smap_keys (paxos_stubs_map s)). \<forall>t. node c b = Some t \<longrightarrow> survivor (view s) seq t"
    and "length (smap_keys (paxos_stubs_map s)) <
           2 * card {b \<in> set (smap_keys (paxos_stubs_map s)). node c b \<noteq> None}"
  shows "\<exists>v c2 s2. fail_over (Suc fuel) c a = Done c2 \<and> net c2 = [] \<and>
    view s < v \<and> v mod group_size s = me s \<and>
    node c2 a = Some s2 \<and> view s2 = v \<and> fast_leader seq s2 \<and> leader_election_happened s2 \<and>
    paxos_stubs_map s2 = paxos_stubs_map s \<and> paxos_db s2 = paxos_db s \<and>
    (\<forall>b \<in> set (smap_keys (paxos_stubs_map s)). \<forall>t. node c2 b = Some t \<longrightarrow> ready seq t) \<and>
    (\<forall>b \<in> set (smap_keys (paxos_stubs_map s)). \<forall>t. node c b = Some t \<longrightarrow>
       (\<exists>t2. node c2 b = Some t2 \<and> view t2 = v \<and> paxos_db t2 = paxos_db t))"
proof -
  let ?keys = "smap_keys (paxos_stubs_map s)"
  let ?s1 = "s\<lparr>missed_heartbeats := 0, leader_dead := True, leader_election_happened := True\<rparr>"
  have cand: "a \<in> set ?keys" "num_servers s = group_size s" "is_dead s = 0"
    "0 \<le> view s" "0 \<le> me s" "me s < group_size s" using assms(3) by (simp_all add: candidate_def)
  have "survivor (view s) seq s" using assms(2,6) cand(1) by blast
  then have free: "\<not> mu_locked s" by (simp add: survivor_def ready_def can_enter_def)
  from detector_turn_fires [OF assms(2-4) free] obtain offset where
    det: "detector_turn a c = (Some (view s, offset), put_node a ?s1 c)"
    and off: "0 < offset" "offset < group_size s" "(view s + offset) mod group_size s = me s" by blast
  from Election_after_detector [OF assms(1-3,5-7) off(1,2), of fuel] obtain c2 h where
    c2: "Election (Suc fuel) (put_node a ?s1 c) a (view s) offset = Done c2" "net c2 = []" "h < seq"
    "\<forall>b. node c2 b = (if b = a then Some ((won (view s + offset) ?s1)\<lparr>highest_accepted_seq := h\<rparr>)
       else if b \<in> set ?keys then map_option (won (view s + offset)) (node c b) else node c b)" by blast
  let ?s2 = "(won (view s + offset) ?s1)\<lparr>highest_accepted_seq := h\<rparr>"
  have "(view s + offset) smod group_size s = me s" using off cand(4-6) by (simp add: smod_nonneg)
  then have "fast_leader seq ?s2" using cand off(1) c2(3) by (simp add: fast_leader_def)
  moreover have "\<forall>b \<in> set ?keys. \<forall>t. node c2 b = Some t \<longrightarrow> ready seq t"
    using assms(2,6) c2(4) cand(1) by (auto simp: survivor_def)
  moreover have "\<exists>t2. node c2 b = Some t2 \<and> view t2 = view s + offset \<and> paxos_db t2 = paxos_db t"
    if "b \<in> set ?keys" "node c b = Some t" for b t
    using c2(4) that assms(2) by (cases "b = a") auto
  moreover have "fail_over (Suc fuel) c a = Done c2"
    using det c2(1) by (simp add: fail_over_def del: Election.simps)
  moreover have "leader_election_happened ?s2" by (simp add: won_def)
  ultimately show ?thesis using off(1,3) c2(2,4)
    by (intro exI [of _ "view s + offset"] exI [of _ c2] exI [of _ ?s2]) auto
qed

section \<open>Properties\<close>

text \<open>
  C8: a crashed leader is replaced.  The detector of a server that does not lead the present view
  ticks for the fourth time without a heartbeat; more than half of the servers of its table run, none
  of those is ahead of its view, and all can take part in a slot above every slot they have accepted;
  the network delivers.  Then it starts an election for a view that it leads, the election ends in its
  first round with every running server in that view, and a proposal for the slot is decided and
  stored by every running server, the servers that are down taking no part.
\<close>
theorem crashed_leader_replaced:
  assumes "rocks_ok E" "rocks_writes E" "null_str E = []" "fair_order E"
    and "net c = []" "node c a = Some s" "candidate a s" "missed_heartbeats s = 3" "0 \<le> seq"
    and "\<forall>b \<in> set (smap_keys (paxos_stubs_map s)). \<forall>t. node c b = Some t \<longrightarrow> survivor (view s) seq t"
    and "length (smap_keys (paxos_stubs_map s)) <
           2 * card {b \<in> set (smap_keys (paxos_stubs_map s)). node c b \<noteq> None}"
    and "CHR ''#'' \<notin> set path"
  shows "\<exists>v c'. view s < v \<and> v mod group_size s = me s \<and>
    take_over E (Suc fuel) c a seq (put_string path mode) = Done c' \<and>
    (\<forall>b \<in> set (smap_keys (paxos_stubs_map s)). \<forall>t. node c b = Some t \<longrightarrow>
       (\<exists>t'. node c' b = Some t' \<and> view t' \<le> v \<and> decided t' seq = Some (put_string path mode) \<and>
          store E (paxos_db t') = (store E (paxos_db t))(path \<mapsto> mode)))"
proof -
  from fail_over_elects [OF assms(5-11), of fuel] obtain v c2 s2 where
    c2: "fail_over (Suc fuel) c a = Done c2" "net c2 = []" "view s < v" "v mod group_size s = me s"
      "node c2 a = Some s2" "view s2 = v" "fast_leader seq s2"
    and keys: "paxos_stubs_map s2 = paxos_stubs_map s"
    and rdy: "\<forall>b \<in> set (smap_keys (paxos_stubs_map s)). \<forall>t. node c2 b = Some t \<longrightarrow> ready seq t"
    and same: "\<forall>b \<in> set (smap_keys (paxos_stubs_map s)). \<forall>t. node c b = Some t \<longrightarrow>
       (\<exists>t2. node c2 b = Some t2 \<and> view t2 = v \<and> paxos_db t2 = paxos_db t)" by blast
  have cand: "smap_ok (paxos_stubs_map s)" "a \<in> set (smap_keys (paxos_stubs_map s))"
    using assms(7) by (simp_all add: candidate_def)
  from fresh_proposal_running [OF assms(1-4) c2(2,5,7), unfolded keys, OF cand rdy getKeyValue_put_string [OF assms(12)], of mode]
  obtain c' where c': "Start E c2 a seq (put_string path mode) = Done c'"
    "\<forall>b \<in> set (smap_keys (paxos_stubs_map s)). \<forall>t. node c2 b = Some t \<longrightarrow>
        (\<exists>t'. node c' b = Some t' \<and> decided t' seq = Some (put_string path mode) \<and>
           (view t' \<le> view s2 \<longleftrightarrow> view t \<le> view s2) \<and>
           store E (paxos_db t') = (store E (paxos_db t))(path \<mapsto> mode))" by blast
  moreover have "take_over E (Suc fuel) c a seq (put_string path mode) = Done c'"
    using c2(1) c'(1) by (simp add: take_over_def)
  moreover have "\<exists>t'. node c' b = Some t' \<and> view t' \<le> v \<and> decided t' seq = Some (put_string path mode) \<and>
      store E (paxos_db t') = (store E (paxos_db t))(path \<mapsto> mode)"
    if "b \<in> set (smap_keys (paxos_stubs_map s))" "node c b = Some t" for b t
    using same c'(2) that c2(6) by fastforce
  ultimately show ?thesis using c2(3,4) by blast
qed

lemma crashed_leader_replaced_witness:
  "\<exists>c' t'. take_over mem_env 1
       (put_node ''127.0.0.1:50052'' ((sample_server 1)\<lparr>missed_heartbeats := 3\<rparr>)
          (kill_node ''127.0.0.1:50051'' sample_cell)) ''127.0.0.1:50052'' 1 (put_string ''a'' ''SHARED'') = Done c' \<and>
     node c' ''127.0.0.1:50053'' = Some t' \<and> store mem_env (paxos_db t') ''a'' = Some ''SHARED''"
proof -
  let ?s = "(sample_server 1)\<lparr>missed_heartbeats := 3\<rparr>"
  let ?c = "put_node ''127.0.0.1:50052'' ?s (kill_node ''127.0.0.1:50051'' sample_cell)"
  have keys: "set (smap_keys (paxos_stubs_map ?s)) =
      {''127.0.0.1:50051'', ''127.0.0.1:50052'', ''127.0.0.1:50053''}"
    "length (smap_keys (paxos_stubs_map ?s)) = 3" by (simp_all add: smap_keys_def)
  have up: "{b \<in> {''127.0.0.1:50051'', ''127.0.0.1:50052'', ''127.0.0.1:50053''}. node ?c b \<noteq> None} =
      {''127.0.0.1:50052'', ''127.0.0.1:50053''}" by auto
  have cand: "candidate ''127.0.0.1:50052'' ?s"
    by (simp add: candidate_def smap_ok_def smap_keys_def in_int32_def)
  have "ready 1 ?s" by (simp add: ready_def can_enter_def done_me_def decided_def get_slot_def)
  then have "\<forall>b \<in> set (smap_keys (paxos_stubs_map ?s)). \<forall>t. node ?c b = Some t \<longrightarrow> survivor (view ?s) 1 t"
    unfolding keys by (auto simp: survivor_def)
  from crashed_leader_replaced [OF mem_env_ok mem_env_sel(5) fair_order_mem_env _ _ cand _ _ this, where fuel = 0 and path = "''a''" and mode = "''SHARED''"]
  show ?thesis unfolding keys up by (auto simp: One_nat_def)
qed

end
