(* ===== verification/Failover.thy ===== *)
theory Failover
  imports LockRace Recovery
begin

text \<open>
  After a change of leader.  A new leader refuses locks for the 40 seconds of its election window and
  then grants them, as long as its next slot is fresh.  But each server counts the slots of its own
  proposals: \<open>slot_number\<close> of a new leader knows nothing of the slots that the old leader has used,
  and a proposal in one of them is dropped.
\<close>

section \<open>A proposal in a slot that is used\<close>

lemma AcquireLock_used_slot:
  assumes sv: "serves x a s ch (lq_path req)" "map_of (client_lease_map ch) (lq_client_id req) \<noteq> None"
    and free: "store E (paxos_db s) (lq_path req) = None"
    and used: "\<not> mu_locked s" "lowest_slot s \<le> to_int32 (slot_number ch + 1)"
      "decided s (to_int32 (slot_number ch + 1)) \<noteq> None"
  shows "\<exists>r x'. AcquireLock E x a req = Some (Ok r, x') \<and> lr_success r \<and> lr_error_message r = ''NO_ERROR'' \<and>
    (\<forall>b. map_option paxos_db (node (paxos x') b) = map_option paxos_db (node (paxos x) b))"
proof -
  let ?path = "lq_path req" and ?mode = "lq_locking_mode req" and ?n = "to_int32 (slot_number ch + 1)"
  let ?ch = "next_slot (locked ?path ch)"
  let ?x = "put_chubby a ?ch x"
  let ?c = "put_node a (snd (addSlots s ?n)) (paxos x)"
  have s: "node (paxos x) a = Some s" using sv(1) by (simp add: serves_def server_at_Some)
  have srv: "server_at ?x a = Some (s, ?ch)" using server_at_put [OF serves_server [OF sv(1)]] .
  have put: "Put E ?x a ?path ?mode = Done (with_paxos ?x ?c)"
    using Put_decided [OF srv, of E ?path ?mode] used by simp
  let ?ins = "\<lambda>ch. ch\<lparr>client_lock_map := smap_put (?path, lq_client_id req) () (client_lock_map ch)\<rparr>"
  let ?x1 = "put_chubby a (?ins ?ch) (with_paxos ?x ?c)"
  have m: "map_of (chubbies (with_paxos ?x ?c)) a = Some ?ch" by simp
  have dec: "AcquireLock_decide E ?x a s ?ch req no_response =
      Done (no_response\<lparr>lr_success := True, lr_error_message := ''NO_ERROR''\<rparr>, ?x1)"
    using free sv(2) put upd_chubby_Some [OF m]
    by (auto simp: AcquireLock_decide_def Get_store grant_def)
  have fin: "node (paxos ?x1) a = Some (snd (addSlots s ?n))" "map_of (chubbies ?x1) a = Some (?ins ?ch)"
    by simp_all
  show ?thesis
    unfolding AcquireLock_serves [OF sv(1)] Let_def dec finish_lock_Done [OF fin] using s by simp
qed

section \<open>A proposal in a fresh slot\<close>

text \<open>The new leader when its timer has fired.\<close>

lemma can_grant_after_failover:
  assumes env: "rocks_ok E" "rocks_writes E" "null_str E = []" "fair_order E"
    and c2: "net c2 = []" "node c2 a = Some s2" "fast_leader (to_int32 (slot_number ch + 1)) s2"
    and keys: "smap_ok (paxos_stubs_map s2)" "a \<in> set (smap_keys (paxos_stubs_map s2))"
    and rdy: "\<forall>b \<in> set (smap_keys (paxos_stubs_map s2)). \<forall>t. node c2 b = Some t \<longrightarrow>
       ready (to_int32 (slot_number ch + 1)) t"
    and ch: "map_of (chubbies x) a = Some ch" "map_of (lock_map ch) path \<noteq> Some True"
      "CHR ''#'' \<notin> set path"
  shows "can_grant E (with_paxos x (timer_fires a c2)) a (s2\<lparr>leader_election_happened := False\<rparr>) ch path"
proof -
  let ?s3 = "s2\<lparr>leader_election_happened := False\<rparr>" and ?n = "to_int32 (slot_number ch + 1)"
  have r2: "ready ?n s2" using rdy keys(2) c2(2) by blast
  then have timer: "timer_fires a c2 = put_node a ?s3 c2"
    using c2(2) by (simp add: timer_fires_def election_timer_def ready_def can_enter_def)
  have r3: "ready ?n ?s3"
    using r2 by (simp add: ready_def can_enter_def done_me_def decided_def get_slot_def)
  have f3: "fast_leader ?n ?s3" using c2(3) by (simp add: fast_leader_def)
  have "serves (with_paxos x (put_node a ?s3 c2)) a ?s3 ch path"
    using ch(1,2) c2(3) by (simp add: serves_def server_at_Some fast_leader_def)
  with env c2(1) keys ch(3) f3 r3 rdy show ?thesis by (simp add: can_grant_def timer)
qed

section \<open>Properties\<close>

text \<open>
  C35: a new leader loses locks.  When a server that serves the path itself has already learned a
  value for its next slot, as a new leader has for every slot the old one used, a client with a
  session that asks for a path nobody holds is told that it has the lock, but no database of any
  server changes.
\<close>
theorem new_leader_loses_grants:
  assumes "serves x a s ch (lq_path req)" "map_of (client_lease_map ch) (lq_client_id req) \<noteq> None"
    and "store E (paxos_db s) (lq_path req) = None"
    and "\<not> mu_locked s" "lowest_slot s \<le> to_int32 (slot_number ch + 1)"
      "decided s (to_int32 (slot_number ch + 1)) \<noteq> None"
  shows "\<exists>r x'. AcquireLock E x a req = Some (Ok r, x') \<and> lr_success r \<and> lr_error_message r = ''NO_ERROR'' \<and>
    (\<forall>b. map_option paxos_db (node (paxos x') b) = map_option paxos_db (node (paxos x) b))"
  using assms by (rule AcquireLock_used_slot)

text \<open>The sample cell whose first leader is gone, when the second server has missed three heartbeats.\<close>

definition orphaned_cell :: "(string \<times> string) list cell" where
  "orphaned_cell = sample_locks
     \<lparr>paxos := put_node ''127.0.0.1:50052'' ((sample_server 1)\<lparr>missed_heartbeats := 3\<rparr>)
        (kill_node ''127.0.0.1:50051'' (paxos sample_locks))\<rparr>"

text \<open>
  C10: locks after a change of leader.  A leader has crashed, the detector of another server ticks for
  the fourth time, more than half of the table runs, none of the servers that run is ahead, and the
  next slot of this server is fresh on all of them.  Then it is elected; while its election window of
  40 seconds is open it refuses every lock request with \<open>ABORTED\<close>; and when its timer has fired, a client
  with a session that asks for a free path gets the lock, and every server that runs has the mode in
  its database, all other paths being as before.
\<close>
theorem lock_after_failover:
  assumes "rocks_ok E" "rocks_writes E" "null_str E = []" "fair_order E"
    and "net (paxos x) = []" "node (paxos x) a = Some s" "candidate a s" "missed_heartbeats s = 3"
    and "0 \<le> to_int32 (slot_number ch + 1)"
    and "\<forall>b \<in> set (smap_keys (paxos_stubs_map s)). \<forall>t. node (paxos x) b = Some t \<longrightarrow>
           survivor (view s) (to_int32 (slot_number ch + 1)) t"
    and "length (smap_keys (paxos_stubs_map s)) <
           2 * card {b \<in> set (smap_keys (paxos_stubs_map s)). node (paxos x) b \<noteq> None}"
    and "map_of (chubbies x) a = Some ch" "map_of (lock_map ch) (lq_path req) \<noteq> Some True"
      "CHR ''#'' \<notin> set (lq_path req)"
    and "map_of (client_lease_map ch) (lq_client_id req) \<noteq> None"
    and "store E (paxos_db s) (lq_path req) = None \<or>
      store E (paxos_db s) (lq_path req) = Some ''FREE'' \<and>
      (lq_locking_mode req = ''SHARED'' \<or> lq_locking_mode req = ''EXCLUSIVE'')"
  shows "\<exists>c2. fail_over (Suc fuel) (paxos x) a = Done c2 \<and>
    AcquireLock E (with_paxos x c2) a req = Some (Error ABORTED, with_paxos x c2) \<and>
    (\<exists>r x'. AcquireLock E (with_paxos x (timer_fires a c2)) a req = Some (Ok r, x') \<and> lr_success r \<and>
       (\<forall>b \<in> set (smap_keys (paxos_stubs_map s)). \<forall>t. node (paxos x) b = Some t \<longrightarrow>
          (\<exists>t'. node (paxos x') b = Some t' \<and>
             store E (paxos_db t') = (store E (paxos_db t))(lq_path req \<mapsto> lq_locking_mode req))))"
proof -
  from fail_over_elects [OF assms(5-11), of fuel] obtain c2 s2 where
    c2: "fail_over (Suc fuel) (paxos x) a = Done c2" "net c2 = []" "node c2 a = Some s2"
      "fast_leader (to_int32 (slot_number ch + 1)) s2" "leader_election_happened s2"
    and s2: "paxos_stubs_map s2 = paxos_stubs_map s" "paxos_db s2 = paxos_db s"
    and rdy: "\<forall>b \<in> set (smap_keys (paxos_stubs_map s)). \<forall>t. node c2 b = Some t \<longrightarrow>
       ready (to_int32 (slot_number ch + 1)) t"
    and same: "\<forall>b \<in> set (smap_keys (paxos_stubs_map s)). \<forall>t. node (paxos x) b = Some t \<longrightarrow>
       (\<exists>t2. node c2 b = Some t2 \<and> paxos_db t2 = paxos_db t)" by blast
  have cand: "smap_ok (paxos_stubs_map s)" "a \<in> set (smap_keys (paxos_stubs_map s))"
    using assms(7) by (simp_all add: candidate_def)
  let ?x3 = "with_paxos x (timer_fires a c2)" and ?s3 = "s2\<lparr>leader_election_happened := False\<rparr>"
  have window: "AcquireLock E (with_paxos x c2) a req = Some (Error ABORTED, with_paxos x c2)"
  proof -
    have "server_at (with_paxos x c2) a = Some (s2, ch)" using c2(3) assms(12) by (simp add: server_at_Some)
    then show ?thesis using c2(5) by (subst AcquireLock.simps) simp
  qed
  have grant: "can_grant E ?x3 a ?s3 ch (lq_path req)"
    by (rule can_grant_after_failover [OF assms(1-4) c2(2-4)]) (use s2(1) cand rdy assms(12-14) in simp_all)
  have timer: "\<exists>t3. node (paxos ?x3) b = Some t3 \<and> paxos_db t3 = paxos_db t2" if "node c2 b = Some t2" for b t2
    using that c2(3) by (auto simp: timer_fires_def election_timer_def with_mu_def)
  have "store E (paxos_db ?s3) = store E (paxos_db s)" using s2(2) by simp
  from AcquireLock_grants [OF grant assms(15), unfolded this, OF assms(16)] obtain r x' where
    x': "AcquireLock E ?x3 a req = Some (Ok r, x')" "lr_success r"
    "\<forall>b \<in> set (smap_keys (paxos_stubs_map s)). \<forall>t. node (paxos ?x3) b = Some t \<longrightarrow>
       (\<exists>t'. node (paxos x') b = Some t' \<and>
          store E (paxos_db t') = (store E (paxos_db t))(lq_path req \<mapsto> lq_locking_mode req))"
    by (auto simp: s2(1))
  moreover have "\<exists>t'. node (paxos x') b = Some t' \<and>
      store E (paxos_db t') = (store E (paxos_db t))(lq_path req \<mapsto> lq_locking_mode req)"
    if b: "b \<in> set (smap_keys (paxos_stubs_map s))" "node (paxos x) b = Some t" for b t
  proof -
    obtain t2 where "node c2 b = Some t2" "paxos_db t2 = paxos_db t" using same b by blast
    then obtain t3 where "node (paxos ?x3) b = Some t3" "paxos_db t3 = paxos_db t" using timer by metis
    with x'(3) b(1) show ?thesis by metis
  qed
  ultimately show ?thesis using c2(1) window by blast
qed

lemma lock_after_failover_witness:
  "\<exists>c2 r x' t. fail_over 1 (paxos orphaned_cell) ''127.0.0.1:50052'' = Done c2 \<and>
     AcquireLock mem_env (with_paxos orphaned_cell (timer_fires ''127.0.0.1:50052'' c2)) ''127.0.0.1:50052''
       (sample_lock ''7'' ''EXCLUSIVE'') = Some (Ok r, x') \<and>
     node (paxos x') ''127.0.0.1:50053'' = Some t \<and> store mem_env (paxos_db t) ''a'' = Some ''EXCLUSIVE''"
proof -
  let ?a = "''127.0.0.1:50052''" and ?s = "(sample_server 1)\<lparr>missed_heartbeats := 3\<rparr>"
  have keys: "set (smap_keys (paxos_stubs_map ?s)) =
      {''127.0.0.1:50051'', ''127.0.0.1:50052'', ''127.0.0.1:50053''}"
    "length (smap_keys (paxos_stubs_map ?s)) = 3" by (simp_all add: smap_keys_def)
  have up: "{b \<in> {''127.0.0.1:50051'', ''127.0.0.1:50052'', ''127.0.0.1:50053''}. node (paxos orphaned_cell) b \<noteq> None} =
      {''127.0.0.1:50052'', ''127.0.0.1:50053''}" by (auto simp: orphaned_cell_def)
  have cand: "candidate ?a ?s" by (simp add: candidate_def smap_ok_def smap_keys_def in_int32_def)
  have "ready 1 ?s" by (simp add: ready_def can_enter_def done_me_def decided_def get_slot_def)
  then have run: "\<forall>b \<in> set (smap_keys (paxos_stubs_map ?s)). \<forall>t. node (paxos orphaned_cell) b = Some t \<longrightarrow>
      survivor (view ?s) (to_int32 (slot_number sample_chubby + 1)) t"
    unfolding keys by (auto simp: survivor_def orphaned_cell_def)
  have free: "store mem_env (paxos_db ?s) ''a'' = None" by (simp add: store_def)
  have "net (paxos orphaned_cell) = []" "node (paxos orphaned_cell) ?a = Some ?s"
    "map_of (chubbies orphaned_cell) ?a = Some sample_chubby"
    "node (paxos orphaned_cell) ''127.0.0.1:50053'' = Some (sample_server 2)"
    by (simp_all add: orphaned_cell_def sample_locks_def)
  from lock_after_failover [OF mem_env_ok mem_env_sel(5) fair_order_mem_env this(1,2) cand _ _ run _ this(3),
      where fuel = 0 and req = "sample_lock ''7'' ''EXCLUSIVE''"] free this(4)
  show ?thesis unfolding keys up by (auto simp: One_nat_def)
qed

text \<open>
  The sample cell after the proposal of a lock by its first leader and an election that its second
  server has won.
\<close>

definition after_failover :: "(string \<times> string) list cell" where
  "after_failover =
     (case Start mem_env sample_cell ''127.0.0.1:50051'' 1 ''a#SHARED'' of
        Done c \<Rightarrow>
          (case Election 1 c ''127.0.0.1:50052'' 0 1 of
             Done c' \<Rightarrow> sample_locks\<lparr>paxos := c'\<rparr>
           | _ \<Rightarrow> sample_locks)
      | _ \<Rightarrow> sample_locks)"

definition new_leader :: "(string \<times> string) list paxos_impl" where
  "new_leader = the (node (paxos after_failover) ''127.0.0.1:50052'')"

lemma new_leader_facts:
  "node (paxos after_failover) ''127.0.0.1:50052'' \<noteq> None"
  "map_of (chubbies after_failover) ''127.0.0.1:50052'' = Some sample_chubby"
  "view new_leader = 1 \<and> \<not> leader_election_happened new_leader \<and> \<not> leader_dead new_leader \<and>
   \<not> mu_locked new_leader \<and> lowest_slot new_leader = 0 \<and> decided new_leader 1 = Some ''a#SHARED'' \<and>
   store mem_env (paxos_db new_leader) ''b'' = None"
  by code_simp+

lemma new_leader_loses_grants_witness:
  "\<exists>r x'. AcquireLock mem_env after_failover ''127.0.0.1:50052'' (other_lock ''7'' ''EXCLUSIVE'') = Some (Ok r, x') \<and>
    lr_success r \<and>
    (\<forall>b. map_option paxos_db (node (paxos x') b) = map_option paxos_db (node (paxos after_failover) b))"
proof -
  have "serves after_failover ''127.0.0.1:50052'' new_leader sample_chubby ''b''"
    using new_leader_facts by (simp add: serves_def server_at_Some new_leader_def)
  from new_leader_loses_grants [of after_failover "''127.0.0.1:50052''" new_leader sample_chubby
      "other_lock ''7'' ''EXCLUSIVE''" mem_env] this new_leader_facts(3)
  show ?thesis by (auto simp: other_lock_def)
qed

end
