(* ===== verification/Divided.thy ===== *)
theory Divided
  imports ProposerRuns
begin

text \<open>
  Two leaders.  A leader that is cut off from every other server decides alone, so that two leaders of
  their own views decide differently; and a leader that meets a later view in its prepare phase, when the
  leader of that view has decided the slot, ends its own process.
\<close>

section \<open>A leader that is cut off\<close>

text \<open>The calls of a broadcast of the server at \<open>a\<close>: the one to itself is delivered, the others are lost.\<close>

definition cut_off :: "string \<Rightarrow> string list \<Rightarrow> delivery list" where
  "cut_off a bs = map (\<lambda>b. if b = a then Delivered else Lost) bs"

lemma cut_off_simps [simp]:
  "cut_off a [] = []" "cut_off a (b # bs) = (if b = a then Delivered else Lost) # cut_off a bs"
  by (simp_all add: cut_off_def)

lemma rpc_lost: "net c = Lost # fs \<Longrightarrow> rpc b h c = (Error UNAVAILABLE, c\<lparr>net := fs\<rparr>)"
  by (simp add: rpc_def next_fate_def)

lemma rpc_through:
  assumes "net c = Delivered # fs" "node c b = Some t"
  shows "snd (rpc b h c) = put_node b (snd (h t)) (c\<lparr>net := fs\<rparr>)"
    and "fst (h t) = Ok x \<Longrightarrow> fst (rpc b h c) = Ok x"
    and "fst (h t) \<noteq> Blocked \<Longrightarrow> fst (rpc b h c) \<noteq> Blocked"
  using assms by (auto simp: rpc_def next_fate_def split: prod.splits result.splits)

lemma can_enter_config: "same_config s t \<Longrightarrow> mu_locked t = mu_locked s \<Longrightarrow> can_enter t q = can_enter s q"
  by (simp add: same_config_def can_enter_def)

lemma accept_loop_cut:
  assumes "null_str E = []"
  shows "net c = cut_off a bs @ rest \<Longrightarrow> node c a = Some s \<Longrightarrow> ready q s \<Longrightarrow>
    \<exists>st' c' s'. accept_loop E a q vw va bs st c = Inr (st', c') \<and> a_decided st' = a_decided st \<and>
      net c' = rest \<and> node c' a = Some s' \<and> ready q s' \<and> same_config s s' \<and> (\<forall>x. x \<noteq> a \<longrightarrow> node c' x = node c x)"
proof (induction bs arbitrary: st c s)
  case Nil
  then show ?case by (simp add: same_config_refl)
next
  case (Cons b bs)
  have s: "can_enter s q" using Cons.prems(3) by (simp add: ready_def)
  let ?req = "\<lparr>ar_seq = q, ar_view = vw, ar_value = va, ar_sender_id = me s, ar_latest_done = done_me s\<rparr>"
  let ?h = "\<lambda>t. Accept E t ?req"
  show ?case
  proof (cases "b = a")
    case False
    then have "rpc b ?h c = (Error UNAVAILABLE, c\<lparr>net := cut_off a bs @ rest\<rparr>)"
      using Cons.prems(1) by (intro rpc_lost) simp
    with Cons.IH [of "c\<lparr>net := cut_off a bs @ rest\<rparr>" s st] Cons.prems(2,3) show ?thesis
      by (simp add: vec_get_ready [OF s])
  next
    case True
    let ?s = "snd (Accept E s ?req)" and ?c = "c\<lparr>net := cut_off a bs @ rest\<rparr>"
    have net: "net c = Delivered # (cut_off a bs @ rest)" using Cons.prems(1) True by simp
    obtain r where r: "fst (?h s) = Ok r" "ap_value r = null_str E" "ap_latest_done r < q"
      using Accept_ready(1) [OF Cons.prems(3), of ?req E] by auto
    have call: "rpc b ?h c = (Ok r, put_node a ?s ?c)"
      using rpc_through [OF net Cons.prems(2), of ?h] r(1) True by (simp add: prod_eq_iff)
    have "ready q ?s" by (rule Accept_ready(2) [OF Cons.prems(3)]) simp
    then obtain st' c' s' where rest: "accept_loop E a q vw va bs (acc_reply q r st) (put_node a ?s ?c) = Inr (st', c')"
      "a_decided st' = a_decided (acc_reply q r st)" "net c' = rest" "node c' a = Some s'" "ready q s'"
      "same_config ?s s'" "\<forall>x. x \<noteq> a \<longrightarrow> node c' x = node (put_node a ?s ?c) x"
      using Cons.IH [of "put_node a ?s ?c" ?s "acc_reply q r st"] by auto
    moreover have "a_decided (acc_reply q r st) = a_decided st" using r assms by (simp add: acc_reply_def Let_def)
    moreover have "same_config s s'" by (rule cfg.R_trans [OF same_config_Accept rest(6)])
    ultimately show ?thesis using Cons.prems(2) call by (simp add: vec_get_ready [OF s])
  qed
qed

lemma learn_loop_cut:
  "net c = cut_off a bs @ rest \<Longrightarrow> node c a = Some s \<Longrightarrow> can_enter s q \<Longrightarrow>
   decided s q = None \<or> decided s q = Some u \<Longrightarrow> a \<in> set bs \<or> decided s q = Some u \<Longrightarrow>
    \<exists>c' s'. learn_loop E a q u bs c = Done c' \<and> net c' = rest \<and> node c' a = Some s' \<and>
      decided s' q = Some u \<and> (\<forall>x. x \<noteq> a \<longrightarrow> node c' x = node c x)"
proof (induction bs arbitrary: c s)
  case Nil
  then show ?case by simp
next
  case (Cons b bs)
  let ?req = "\<lparr>dr_seq = q, dr_value = u, dr_sender_id = me s, dr_latest_done = done_me s\<rparr>"
  let ?h = "\<lambda>t. Learn E t ?req"
  have mu: "\<not> mu_locked s" using Cons.prems(3) by (simp add: can_enter_def)
  show ?case
  proof (cases "b = a")
    case False
    then have "rpc b ?h c = (Error UNAVAILABLE, c\<lparr>net := cut_off a bs @ rest\<rparr>)"
      using Cons.prems(1) by (intro rpc_lost) simp
    with Cons.IH [of "c\<lparr>net := cut_off a bs @ rest\<rparr>" s] Cons.prems(2-5) False mu show ?thesis
      by (simp add: vec_get_ready [OF Cons.prems(3)])
  next
    case True
    let ?s = "snd (?h s)" and ?c = "c\<lparr>net := cut_off a bs @ rest\<rparr>"
    have net: "net c = Delivered # (cut_off a bs @ rest)" using Cons.prems(1) True by simp
    have "fst (?h s) \<noteq> Blocked" using Cons.prems(3) by (simp add: Learn_ok Let_def split: option.split)
    then obtain r where call: "rpc b ?h c = (r, put_node a ?s ?c)" "r \<noteq> Blocked"
      using rpc_through(1,3) [OF net Cons.prems(2), of ?h] True by (metis prod.collapse)
    have dec: "decided ?s q = Some u" using Cons.prems(3,4) by (auto simp: decided_Learn)
    have "can_enter ?s q"
      using can_enter_config [OF same_config_Learn [of s E ?req], of q] Cons.prems(3) by simp
    then have "\<exists>c' s'. learn_loop E a q u bs (put_node a ?s ?c) = Done c' \<and> net c' = rest \<and> node c' a = Some s' \<and>
        decided s' q = Some u \<and> (\<forall>x. x \<noteq> a \<longrightarrow> node c' x = node (put_node a ?s ?c) x)"
      by (intro Cons.IH [of _ ?s]) (simp_all add: dec)
    then show ?thesis using Cons.prems(2) call mu
      by (cases r) (simp_all add: vec_get_ready [OF Cons.prems(3)])
  qed
qed

lemma cut_off_leader_decides:
  assumes E: "null_str E = []" "fair_order E"
    and net: "net c = cut_off a (run_order E (smap_keys (paxos_stubs_map s))) @
      cut_off a (run_order E (smap_keys (paxos_stubs_map s))) @ rest"
    and s: "node c a = Some s" "fast_leader q s" "ready q s" "smap_ok (paxos_stubs_map s)"
      "a \<in> set (smap_keys (paxos_stubs_map s))" and v: "v \<noteq> []"
  shows "\<exists>c' s'. Start E c a q v = Done c' \<and> net c' = rest \<and> node c' a = Some s' \<and> decided s' q = Some v \<and>
    (\<forall>x. x \<noteq> a \<longrightarrow> node c' x = node c x)"
proof -
  let ?order = "run_order E (smap_keys (paxos_stubs_map s))" and ?s1 = "snd (addSlots s q)"
  have order: "a \<in> set ?order"
    using E(2) s(5) distinct_smap_keys [OF s(4)] by (simp add: fair_order_def)
  have enter: "can_enter s q" "decided s q = None" using s(3) by (simp_all add: ready_def)
  have net1: "net (put_node a ?s1 c) = cut_off a ?order @ (cut_off a ?order @ rest)" using net by simp
  have s1: "node (put_node a ?s1 c) a = Some ?s1" by simp
  obtain st c1 s2 where acc: "accept_loop E a q (view s) v ?order acc_init (put_node a ?s1 c) = Inr (st, c1)"
    "a_decided st = a_decided acc_init" "net c1 = cut_off a ?order @ rest" "node c1 a = Some s2" "ready q s2"
    "same_config ?s1 s2" "\<forall>x. x \<noteq> a \<longrightarrow> node c1 x = node (put_node a ?s1 c) x"
    using accept_loop_cut [OF E(1) net1 s1 ready_addSlots [OF s(3)], of "view s" v acc_init] by blast
  have s2: "can_enter s2 q" "decided s2 q = None" using acc(5) by (simp_all add: ready_def)
  obtain c' s' where learn: "learn_loop E a q v ?order c1 = Done c'" "net c' = rest" "node c' a = Some s'"
    "decided s' q = Some v" "\<forall>x. x \<noteq> a \<longrightarrow> node c' x = node c1 x"
    using learn_loop_cut [OF acc(3,4) s2(1), of v E] s2(2) order by blast
  have "learn_phase E c1 a q v = Done c'"
    using learn(1) acc(4,6) by (simp add: learn_phase_def stub_addresses_def same_config_def)
  then have "Start E c a q v = Done c'"
    using Start_fast [OF s(1) enter s(2) v, of E] acc(1,2) by (simp add: acc_init_def joined_def)
  with learn acc(7) show ?thesis by simp
qed

section \<open>A leader that meets a later view\<close>













section \<open>Agreement\<close>

text \<open>
  C33: agreement can fail.  Take any cell with two servers that are each the leader of its own view, and a
  slot that is fresh on both of them: above every slot they have accepted, and not decided.  There is a
  network, which loses the calls between different servers, on which a proposal of one and then of the
  other both return, and the two have decided the two values they have proposed, whichever they are.
\<close>
theorem agreement_can_fail:
  assumes "null_str E = []" "fair_order E" "a \<noteq> b" "node c a = Some s" "node c b = Some t"
    and "fast_leader q s" "fast_leader q t" "ready q s" "ready q t"
    and "smap_ok (paxos_stubs_map s)" "a \<in> set (smap_keys (paxos_stubs_map s))"
    and "smap_ok (paxos_stubs_map t)" "b \<in> set (smap_keys (paxos_stubs_map t))"
    and "u \<noteq> []" "w \<noteq> []"
  shows "\<exists>fates c1 c2 s' t'. Start E (c\<lparr>net := fates\<rparr>) a q u = Done c1 \<and> Start E c1 b q w = Done c2 \<and>
    node c2 a = Some s' \<and> decided s' q = Some u \<and> node c2 b = Some t' \<and> decided t' q = Some w \<and>
    (\<forall>x. x \<noteq> a \<longrightarrow> x \<noteq> b \<longrightarrow> node c2 x = node c x)"
proof -
  let ?A = "cut_off a (run_order E (smap_keys (paxos_stubs_map s)))"
    and ?B = "cut_off b (run_order E (smap_keys (paxos_stubs_map t)))"
  let ?c = "c\<lparr>net := ?A @ ?A @ (?B @ ?B @ [])\<rparr>"
  obtain c1 s' where one: "Start E ?c a q u = Done c1" "net c1 = ?B @ ?B @ []" "node c1 a = Some s'"
    "decided s' q = Some u" "\<forall>x. x \<noteq> a \<longrightarrow> node c1 x = node ?c x"
    using cut_off_leader_decides [OF assms(1,2) _ _ assms(6,8,10,11,14), of ?c] assms(4) by fastforce
  have t: "node c1 b = Some t" using one(5) assms(3,5) by simp
  obtain c2 t' where two: "Start E c1 b q w = Done c2" "node c2 b = Some t'" "decided t' q = Some w"
    "\<forall>x. x \<noteq> b \<longrightarrow> node c2 x = node c1 x"
    using cut_off_leader_decides [OF assms(1,2) one(2) t assms(7,9,12,13,15)] by blast
  show ?thesis using one two assms(3) by (intro exI [of _ "net ?c"] exI) auto
qed

lemma agreement_can_fail_witness:
  "\<exists>fates c1 c2 s' t'.
     Start mem_env (ahead_cell\<lparr>net := fates\<rparr>) ''127.0.0.1:50051'' 1 ''a#SHARED'' = Done c1 \<and>
     Start mem_env c1 ''127.0.0.1:50052'' 1 ''b#EXCLUSIVE'' = Done c2 \<and>
     node c2 ''127.0.0.1:50051'' = Some s' \<and> decided s' 1 = Some ''a#SHARED'' \<and>
     node c2 ''127.0.0.1:50052'' = Some t' \<and> decided t' 1 = Some ''b#EXCLUSIVE''"
proof -
  have "fast_leader 1 ((sample_server 1)\<lparr>view := 1\<rparr>)" by (simp add: fast_leader_def signed_modulo_int_def)
  then show ?thesis
    using agreement_can_fail [of mem_env "''127.0.0.1:50051''" "''127.0.0.1:50052''" ahead_cell "sample_server 0"
        "(sample_server 1)\<lparr>view := 1\<rparr>" 1 "''a#SHARED''" "''b#EXCLUSIVE''"]
    by (fastforce simp: smap_ok_def smap_keys_def)
qed

section \<open>The end of the leader\<close>





end
