(* ===== verification/Validity.thy ===== *)
theory Validity
  imports ProposerOrder Election
begin

text \<open>
  Integrity: where the values of the slots and of the databases come from.  A predicate on the
  servers that the handlers keep, as long as the values in the requests are from a set \<open>V\<close>, is kept
  on every server by every proposal of a value of \<open>V\<close>, over any network and however it ends (locale
  \<open>value_system\<close>).  The instance says that every accepted and decided value is from \<open>V\<close> and every
  entry of the database comes from one of them.
\<close>

section \<open>Predicates that proposals keep\<close>

definition everywhere :: "('d paxos_impl \<Rightarrow> bool) \<Rightarrow> 'd cluster \<Rightarrow> bool" where
  "everywhere P c \<longleftrightarrow> (\<forall>b t. node c b = Some t \<longrightarrow> P t)"

lemma everywhereD: "everywhere P c \<Longrightarrow> node c b = Some t \<Longrightarrow> P t"
  by (simp add: everywhere_def)

lemma everywhere_put: "everywhere P c \<Longrightarrow> P t \<Longrightarrow> everywhere P (put_node a t c)"
  by (simp add: everywhere_def)

lemma everywhere_kill: "everywhere P c \<Longrightarrow> everywhere P (kill_node a c)"
  by (simp add: everywhere_def)

lemma everywhere_rpc:
  assumes "everywhere P c" "rpc b h c = (r, c')" "\<And>s. P s \<Longrightarrow> P (snd (h s))"
  shows "everywhere P c'"
proof -
  have "P t" if t: "node c' x = Some t" for x t
  proof -
    from t rpc_dom [OF assms(2), of x] obtain s where s: "node c x = Some s" by auto
    from rpc_preserves [OF assms(2), where P = "\<lambda>s t. P s \<longrightarrow> P t", OF _ _ s] assms(1,3) s t
    show ?thesis by (auto simp: everywhere_def)
  qed
  then show ?thesis by (simp add: everywhere_def)
qed

lemma rpc_reply:
  "rpc b h c = (Ok x, c') \<Longrightarrow> \<exists>s. node c b = Some s \<and> fst (h s) = Ok x"
  by (fastforce simp: rpc_def next_fate_def split: list.splits option.splits prod.splits result.splits if_splits)

primrec call_value :: "call \<Rightarrow> string" where
  "call_value (CallStart seq v) = v"
| "call_value (CallForward seq v) = v"
| "call_value (CallNewSlot seq v my_view) = v"

text \<open>The value the prepare phase has picked, and the one it takes to be decided.\<close>

definition picked :: "string set \<Rightarrow> prep \<Rightarrow> bool" where
  "picked V p \<longleftrightarrow> p_highest_va p \<in> V \<and> (p_decided p \<longrightarrow> p_decided_V p \<in> V)"

lemma picked_reply:
  "picked V p \<Longrightarrow> pp_v_a r \<in> V \<Longrightarrow> pp_value r \<in> V \<Longrightarrow> prep_reply n r p = (p', left) \<Longrightarrow> picked V p'"
  by (auto simp: prep_reply_def picked_def Let_def split: if_splits)

locale value_system =
  fixes E :: "'d env"
    and V :: "string set"
    and P :: "'d paxos_impl \<Rightarrow> bool"
  assumes P_Prepare: "P s \<Longrightarrow> P (snd (Prepare E s preq))"
    and P_reply: "P s \<Longrightarrow> fst (Prepare E s preq) = Ok r \<Longrightarrow> pp_v_a r \<in> V \<and> pp_value r \<in> V"
    and P_Accept: "P s \<Longrightarrow> ar_value areq \<in> V \<Longrightarrow> P (snd (Accept E s areq))"
    and P_Learn: "P s \<Longrightarrow> dr_value dreq \<in> V \<Longrightarrow> P (snd (Learn E s dreq))"
    and P_addSlots: "P s \<Longrightarrow> P (snd (addSlots s q))"
    and P_numbers: "P s \<Longrightarrow> get_slot s q = Some sl \<Longrightarrow>
      P (set_slot q (sl\<lparr>slot_n := i, slot_highest_N := j\<rparr>) s)"
    and P_frame: "P s \<Longrightarrow> slots t = slots s \<Longrightarrow> paxos_db t = paxos_db s \<Longrightarrow> P t"
begin

lemma I_numbers:
  assumes "everywhere P c" "\<And>sl. \<exists>i j. f sl = sl\<lparr>slot_n := i, slot_highest_N := j\<rparr>"
  shows "everywhere P (upd_slot a seq f c)"
proof (cases "own_slot c a seq")
  case None
  then show ?thesis using assms(1) by (simp add: upd_slot_def)
next
  case (Some z)
  obtain s sl where z: "z = (s, sl)" by (cases z)
  obtain i j where "f sl = sl\<lparr>slot_n := i, slot_highest_N := j\<rparr>" using assms(2) by blast
  moreover have s: "node c a = Some s" "get_slot s seq = Some sl"
    using Some z by (simp_all add: own_slot_Some)
  ultimately have "P (set_slot seq (f sl) s)" using P_numbers [OF everywhereD [OF assms(1) s(1)] s(2)] by simp
  then show ?thesis using Some z everywhere_put [OF assms(1)] by (simp add: upd_slot_def)
qed

lemma I_note_highest_N:
  assumes c: "everywhere P c"
  shows "everywhere P (note_highest_N a seq p r c)"
proof -
  have "\<exists>i j. (if slot_highest_N sl < k then sl\<lparr>slot_highest_N := k\<rparr> else sl) =
      sl\<lparr>slot_n := i, slot_highest_N := j\<rparr>" for sl k
    by (rule exI [of _ "slot_n sl"], rule exI [of _ "max k (slot_highest_N sl)"]) (simp add: max_def)
  then have "everywhere P (upd_slot a seq
      (\<lambda>sl. if slot_highest_N sl < pp_highest_n r then sl\<lparr>slot_highest_N := pp_highest_n r\<rparr> else sl) c)"
    by (intro I_numbers [OF c]) blast
  with c show ?thesis by (simp add: note_highest_N_def)
qed

lemma I_unlock:
  assumes c: "everywhere P c"
  shows "everywhere P (unlock_mu a c)"
proof (cases "node c a")
  case (Some s)
  have "P (s\<lparr>mu_locked := False\<rparr>)" by (rule P_frame [OF everywhereD [OF c Some]]) simp_all
  with Some everywhere_put [OF c] show ?thesis by (simp add: unlock_mu_def)
qed (use c in \<open>simp add: unlock_mu_def\<close>)

lemma I_prepare_loop:
  "everywhere P c \<Longrightarrow> picked V p \<Longrightarrow>
   case prepare_loop E a seq nsrv bs p c of
     Inl out \<Rightarrow> pred_outcome (everywhere P) out
   | Inr (p', c') \<Rightarrow> picked V p' \<and> everywhere P c'"
proof (induction bs arbitrary: p c)
  case Nil
  then show ?case by simp
next
  case (Cons b bs)
  show ?case
  proof (cases "own_slot c a seq")
    case None
    then show ?thesis using Cons.prems by simp
  next
    case (Some z)
    obtain s sl where own: "own_slot c a seq = Some (s, sl)" using Some by (cases z) simp
    show ?thesis
    proof (cases "vec_get (done_vec s) (me s)")
      case None
      with own Cons.prems show ?thesis by simp
    next
      case d: (Some d)
      obtain r c1 where call: "rpc b (\<lambda>t. Prepare E t \<lparr>pr_seq = seq, pr_proposal_number = slot_n sl,
          pr_latest_done = d, pr_sender_id = me s\<rparr>) c = (r, c1)" by fastforce
      have c1: "everywhere P c1" by (rule everywhere_rpc [OF Cons.prems(1) call]) (rule P_Prepare)
      show ?thesis
      proof (cases r)
        case (Ok x)
        have x: "pp_v_a x \<in> V" "pp_value x \<in> V"
          using rpc_reply [OF call [unfolded Ok]] P_reply everywhereD [OF Cons.prems(1)] by blast+
        obtain p' left where rep: "prep_reply nsrv x p = (p', left)" by fastforce
        have p': "picked V p'" by (rule picked_reply [OF Cons.prems(2) x rep])
        with Cons.IH [OF I_note_highest_N [OF c1] p'] I_note_highest_N [OF c1] own d call Ok rep
        show ?thesis by (simp add: Let_def)
      qed (use own d call c1 Cons.prems(2) Cons.IH [OF c1 Cons.prems(2)] in simp_all)
    qed
  qed
qed

lemma I_accept_loop:
  "everywhere P c \<Longrightarrow> va \<in> V \<Longrightarrow>
   case accept_loop E a seq vw va bs st c of
     Inl out \<Rightarrow> pred_outcome (everywhere P) out
   | Inr (st', c') \<Rightarrow> everywhere P c'"
proof (induction bs arbitrary: st c)
  case Nil
  then show ?case by simp
next
  case (Cons b bs)
  show ?case
  proof (cases "node c a")
    case None
    then show ?thesis using Cons.prems by simp
  next
    case s: (Some s)
    show ?thesis
    proof (cases "vec_get (done_vec s) (me s)")
      case None
      with s Cons.prems show ?thesis by (simp add: everywhere_kill)
    next
      case (Some d)
      obtain r c1 where call: "rpc b (\<lambda>t. Accept E t \<lparr>ar_seq = seq, ar_view = vw, ar_value = va,
          ar_sender_id = me s, ar_latest_done = d\<rparr>) c = (r, c1)" by fastforce
      have c1: "everywhere P c1"
        by (rule everywhere_rpc [OF Cons.prems(1) call]) (simp add: P_Accept Cons.prems(2))
      show ?thesis using Cons.IH [OF c1 Cons.prems(2)] s Some call by (cases r) auto
    qed
  qed
qed

lemma I_learn_loop:
  "everywhere P c \<Longrightarrow> va \<in> V \<Longrightarrow> pred_outcome (everywhere P) (learn_loop E a seq va bs c)"
proof (induction bs arbitrary: c)
  case Nil
  then show ?case by simp
next
  case (Cons b bs)
  show ?case
  proof (cases "node c a")
    case None
    then show ?thesis using Cons.prems by simp
  next
    case s: (Some s)
    show ?thesis
    proof (cases "vec_get (done_vec s) (me s)")
      case None
      with s Cons.prems show ?thesis by (simp add: everywhere_kill)
    next
      case (Some d)
      obtain r c1 where call: "rpc b (\<lambda>t. Learn E t \<lparr>dr_seq = seq, dr_value = va,
          dr_sender_id = me s, dr_latest_done = d\<rparr>) c = (r, c1)" by fastforce
      have c1: "everywhere P c1"
        by (rule everywhere_rpc [OF Cons.prems(1) call]) (simp add: P_Learn Cons.prems(2))
      show ?thesis using Cons.IH [OF c1 Cons.prems(2)] s Some call by (cases r) auto
    qed
  qed
qed

text \<open>The bodies, given that the calls they make keep the predicate.\<close>

definition keeps :: "('d cluster \<Rightarrow> string \<Rightarrow> call \<Rightarrow> 'd cluster outcome) \<Rightarrow> bool" where
  "keeps rec \<longleftrightarrow> (\<forall>c a k. everywhere P c \<longrightarrow> call_value k \<in> V \<longrightarrow> pred_outcome (everywhere P) (rec c a k))"

lemma keepsD:
  "keeps rec \<Longrightarrow> everywhere P c \<Longrightarrow> call_value k \<in> V \<Longrightarrow> pred_outcome (everywhere P) (rec c a k)"
  by (simp add: keeps_def)

lemma I_step_down:
  assumes rec: "keeps rec" and c: "everywhere P c" and v: "v \<in> V"
  shows "pred_outcome (everywhere P) (step_down rec c a seq v na)"
proof (cases "node c a")
  case None
  then show ?thesis using c by (simp add: step_down_def)
next
  case (Some s)
  let ?c1 = "put_node a (s\<lparr>view := na, leader_dead := False, missed_heartbeats := 0\<rparr>) c"
  have "everywhere P ?c1"
    using everywhereD [OF c Some] by (intro everywhere_put [OF c]) (rule P_frame, simp_all)
  then have "pred_outcome (everywhere P) (rec ?c1 a (CallForward seq v))"
    using keepsD [OF rec, of ?c1 "CallForward seq v" a] v by simp
  then show ?thesis
    using Some keepsD [OF rec c, of "CallForward seq v" a] v
    by (auto simp: step_down_def split: outcome.split)
qed

lemma I_accept_phase:
  assumes rec: "keeps rec" and c: "everywhere P c" and v: "v \<in> V" and p: "picked V p"
  shows "pred_outcome (everywhere P) (accept_phase E rec c a seq v vw p)"
proof -
  let ?va = "if p_highest_va p = [] then v else p_highest_va p"
  let ?loop = "accept_loop E a seq vw ?va (run_order E (stub_addresses c a)) acc_init c"
  have va: "?va \<in> V" using v p by (simp add: picked_def)
  have learn: "pred_outcome (everywhere P) (learn_phase E c1 a seq u)" if "everywhere P c1" "u \<in> V" for c1 u
    using I_learn_loop [OF that] by (simp add: learn_phase_def)
  have dec: "p_decided p \<Longrightarrow> p_decided_V p \<in> V" using p by (simp add: picked_def)
  show ?thesis
  proof (cases ?loop)
    case (Inl out)
    with I_accept_loop [OF c va, of a seq vw "run_order E (stub_addresses c a)" acc_init] learn [OF c dec]
    show ?thesis by (simp add: accept_phase_def Let_def)
  next
    case (Inr z)
    then obtain st c1 where z: "?loop = Inr (st, c1)" by (cases z) simp
    have "everywhere P c1"
      using I_accept_loop [OF c va, of a seq vw "run_order E (stub_addresses c a)" acc_init] z by simp
    with learn [OF c dec] learn [of c1 ?va] va I_step_down [OF rec _ v, of c1] z show ?thesis
      unfolding accept_phase_def Let_def by (simp only: sum.case prod.case split: if_split) simp
  qed
qed

lemma I_StartOnNewSlot:
  assumes rec: "keeps rec" and c: "everywhere P c" and v: "v \<in> V"
  shows "pred_outcome (everywhere P) (StartOnNewSlot_body E rec c a seq v vw)"
proof (cases "own_slot c a seq")
  case None
  then show ?thesis using c by (simp add: StartOnNewSlot_body_def)
next
  case (Some z)
  then obtain s sl where own: "own_slot c a seq = Some (s, sl)" by (cases z) auto
  have init: "picked V (prep_init v)" using v by (simp add: picked_def prep_init_def)
  have c0: "everywhere P (upd_slot a seq (\<lambda>sl. sl\<lparr>slot_n := n'\<rparr>) c)" for n'
  proof (rule I_numbers [OF c])
    fix sl :: paxos_slot
    show "\<exists>i j. sl\<lparr>slot_n := n'\<rparr> = sl\<lparr>slot_n := i, slot_highest_N := j\<rparr>"
      by (rule exI [of _ n'], rule exI [of _ "slot_highest_N sl"]) simp
  qed
  have prep: "pred_outcome (everywhere P)
      (case prepare_loop E a seq nsrv bs (prep_init v) (upd_slot a seq (\<lambda>sl. sl\<lparr>slot_n := n'\<rparr>) c) of
         Inl out \<Rightarrow> out
       | Inr (p, c1) \<Rightarrow>
           if vw < p_highest_na p then step_down rec c1 a seq v (p_highest_na p)
           else accept_phase E rec c1 a seq v vw p)" for nsrv bs n'
    using I_prepare_loop [OF c0 [of n'] init, of a seq nsrv bs] I_step_down [OF rec _ v] I_accept_phase [OF rec _ v]
    by (auto split: sum.splits prod.splits)
  show ?thesis
    using own c prep I_accept_phase [OF rec c v init]
    by (auto simp: StartOnNewSlot_body_def split: option.split)
qed

lemma I_ForwardLeader:
  assumes rec: "keeps rec" and c: "everywhere P c" and v: "v \<in> V"
  shows "case ForwardLeader rec l seq v c of
     Inl out \<Rightarrow> pred_outcome (everywhere P) out
   | Inr (b, c') \<Rightarrow> everywhere P c'"
proof -
  obtain fate c0 where f: "next_fate c = (fate, c0)" by fastforce
  have c0: "everywhere P c0" using node_next_fate [OF f] c by (simp add: everywhere_def)
  show ?thesis
    using c0 v keepsD [OF rec c0, of "CallStart seq v" l]
    by (auto simp: ForwardLeader_def f split: outcome.split)
qed

lemma I_StartOnForward:
  assumes rec: "keeps rec" and c: "everywhere P c" and v: "v \<in> V"
  shows "pred_outcome (everywhere P) (StartOnForward_body rec c a seq v)"
proof (cases "node c a")
  case None
  then show ?thesis using c by (simp add: StartOnForward_body_def)
next
  case (Some s)
  obtain sl s1 where add: "addSlots (s\<lparr>mu_locked := True\<rparr>) seq = (sl, s1)" by fastforce
  have "P (s\<lparr>mu_locked := True\<rparr>)" by (rule P_frame [OF everywhereD [OF c Some]]) simp_all
  then have "P s1" using P_addSlots [of "s\<lparr>mu_locked := True\<rparr>" seq] add by simp
  then have c1: "everywhere P (put_node a s1 c)" by (rule everywhere_put [OF c])
  show ?thesis
    using Some add c1 v I_ForwardLeader [OF rec c1 v, of "leader_address s" seq]
      keepsD [OF rec c1, of "CallNewSlot seq v (view s)" a] everywhere_kill [OF c1]
    by (auto simp: StartOnForward_body_def Let_def I_unlock split: outcome.split sum.splits prod.split)
qed

lemma I_Start:
  assumes rec: "keeps rec" and c: "everywhere P c" and v: "v \<in> V"
  shows "pred_outcome (everywhere P) (Start_body rec c a seq v)"
proof (cases "node c a")
  case None
  then show ?thesis using c by (simp add: Start_body_def)
next
  case (Some s)
  have joined: "pred_outcome (everywhere P) out \<Longrightarrow> pred_outcome (everywhere P) (joined a out)" for out
    by (auto simp: joined_def everywhere_kill split: outcome.split)
  have c1: "everywhere P (put_node a (snd (addSlots s seq)) c)"
    by (rule everywhere_put [OF c P_addSlots [OF everywhereD [OF c Some]]])
  show ?thesis
    using Some c1 c v keepsD [OF rec c1]
    by (auto simp: Start_body_def Let_def intro!: joined split: prod.split)
qed

lemma I_exec: "everywhere P c \<Longrightarrow> call_value k \<in> V \<Longrightarrow> pred_outcome (everywhere P) (exec f E c a k)"
proof (induction f arbitrary: c a k)
  case 0
  show ?case by simp
next
  case (Suc f)
  then have "keeps (exec f E)" by (simp add: keeps_def)
  with Suc.prems show ?case
    by (cases k) (simp_all add: I_Start I_StartOnForward I_StartOnNewSlot)
qed

lemma I_proposal: "everywhere P c \<Longrightarrow> v \<in> V \<Longrightarrow> pred_outcome (everywhere P) (Start E c a seq v)"
  by (simp add: Start_def I_exec)

end

section \<open>Honest servers\<close>

text \<open>
  \<open>honest E V K\<close>: the accepted and the decided values of the slots are from \<open>V\<close>, the entries of
  the database from \<open>K\<close>.  \<open>closed E V K\<close>: what \<open>Learn\<close> writes for a value of \<open>V\<close> is in \<open>K\<close>.
\<close>

definition honest_slot :: "string set \<Rightarrow> paxos_slot \<Rightarrow> bool" where
  "honest_slot V sl \<longleftrightarrow> slot_v_a sl \<in> V \<and> (slot_status sl = DECIDED \<longrightarrow> slot_value sl \<in> V)"

definition honest :: "'d env \<Rightarrow> string set \<Rightarrow> (string \<times> string) set \<Rightarrow> 'd paxos_impl \<Rightarrow> bool" where
  "honest E V K s \<longleftrightarrow> (\<forall>x \<in> set (slots s). honest_slot V (snd x)) \<and>
     (\<forall>k m. store E (paxos_db s) k = Some m \<longrightarrow> (k, m) \<in> K)"

definition closed :: "'d env \<Rightarrow> string set \<Rightarrow> (string \<times> string) set \<Rightarrow> bool" where
  "closed E V K \<longleftrightarrow> rocks_ok E \<and> [] \<in> V \<and> null_str E \<in> V \<and>
     (\<forall>u \<in> V. \<forall>k m. getKeyValue u = Inr (k, m) \<longrightarrow> (k, m) \<in> K)"

lemma set_smap_put_subset: "set (smap_put k v m) \<subseteq> insert (k, v) (set m)"
  by (induction k v m rule: smap_put.induct) auto

lemma honest_get: "honest E V K s \<Longrightarrow> get_slot s q = Some sl \<Longrightarrow> honest_slot V sl"
  by (force simp: honest_def get_slot_def dest: map_of_SomeD)

lemma honest_set_slot: "honest E V K s \<Longrightarrow> honest_slot V sl \<Longrightarrow> honest E V K (set_slot q sl s)"
  using set_smap_put_subset [of q sl "slots s"] by (fastforce simp: honest_def set_slot_def)

lemma honest_frame: "honest E V K s \<Longrightarrow> slots t = slots s \<Longrightarrow> paxos_db t = paxos_db s \<Longrightarrow> honest E V K t"
  by (simp add: honest_def)

lemma honest_addSlots:
  assumes "[] \<in> V" "honest E V K s"
  shows "honest_slot V (fst (addSlots s q))" and "honest E V K (snd (addSlots s q))"
proof -
  show *: "honest_slot V (fst (addSlots s q))"
    using assms(1) honest_get [OF assms(2), of q]
    by (auto simp: addSlots_slot honest_slot_def initSlot_def split: option.split)
  have "snd (addSlots s q) = set_slot q (fst (addSlots s q)) s" by (simp add: addSlots_def Let_def)
  then show "honest E V K (snd (addSlots s q))" using honest_set_slot [OF assms(2) *] by simp
qed

lemma honest_Prepare:
  assumes c: "closed E V K" and s: "honest E V K s"
  shows "honest E V K (snd (Prepare E s req))"
    and "fst (Prepare E s req) = Ok r \<Longrightarrow> pp_v_a r \<in> V \<and> pp_value r \<in> V"
proof -
  have V: "[] \<in> V" "null_str E \<in> V" using c by (simp_all add: closed_def)
  note add = honest_addSlots [OF V(1) s, of "pr_seq req"]
  have "honest_slot V (snd (Prepare_slot E req d sl))" if "honest_slot V sl" for d sl
    using that by (simp add: Prepare_slot_def Let_def honest_slot_def)
  with add show "honest E V K (snd (Prepare E s req))"
    using s Prepare_refused [of s req E]
    by (cases "can_enter s (pr_seq req)") (auto simp: Prepare_ok Let_def intro: honest_set_slot)
  show "pp_v_a r \<in> V \<and> pp_value r \<in> V" if "fst (Prepare E s req) = Ok r"
    using that add(1) V(2) Prepare_refused [of s req E]
    by (cases "can_enter s (pr_seq req)") (auto simp: Prepare_ok Prepare_slot_def Let_def honest_slot_def)
qed

lemma honest_Accept:
  assumes c: "closed E V K" and s: "honest E V K s" and v: "ar_value req \<in> V"
  shows "honest E V K (snd (Accept E s req))"
proof (cases "can_enter s (ar_seq req)")
  case True
  have V: "[] \<in> V" using c by (simp add: closed_def)
  note add = honest_addSlots [OF V s, of "ar_seq req"]
  have "honest_slot V (snd (Accept_slot E req (done_me s) (fst (addSlots s (ar_seq req)))))"
    using add(1) v by (simp add: Accept_slot_def Let_def honest_slot_def)
  moreover have "honest E V K (adopt_view vw t)" if "honest E V K t" for vw t
    using that by (simp add: honest_def adopt_view_def)
  ultimately have "honest E V K (set_slot (ar_seq req)
      (snd (Accept_slot E req (done_me s) (fst (addSlots s (ar_seq req)))))
      (adopt_view (ar_view req) (snd (addSlots s (ar_seq req)))))"
    using add(2) by (intro honest_set_slot)
  then show ?thesis using True by (simp add: Accept_ok Let_def Accept_seq_def honest_def)
qed (use s Accept_refused [of s req E] in simp)

lemma honest_Learn:
  assumes c: "closed E V K" and s: "honest E V K s" and v: "dr_value req \<in> V"
  shows "honest E V K (snd (Learn E s req))"
proof (cases "can_enter s (dr_seq req)")
  case True
  have V: "[] \<in> V" "rocks_ok E" using c by (simp_all add: closed_def)
  note add = honest_addSlots [OF V(1) s, of "dr_seq req"]
  obtain x sl w where l: "Learn_slot E req (fst (addSlots s (dr_seq req))) (paxos_db s) = (x, sl, w)"
    using prod_cases3 by blast
  have sl: "honest_slot V sl"
    using l add(1) v by (auto simp: Learn_slot_def Let_def honest_slot_def split: if_splits sum.splits)
  have w: "(k, m) \<in> K" if "store E w k = Some m" for k m
  proof -
    have old: "store E (paxos_db s) k = Some m \<Longrightarrow> (k, m) \<in> K" using s by (simp add: honest_def)
    consider "w = paxos_db s" | key val where "getKeyValue (dr_value req) = Inr (key, val)"
        "w = snd (snd (RocksDB_Put E (paxos_db s) key val []))"
      using l by (auto simp: Learn_slot_def Let_def split: if_splits sum.splits prod.splits)
    then show ?thesis
    proof cases
      case 1
      with that old show ?thesis by simp
    next
      case 2
      obtain rc b' where "RocksDB_Put E (paxos_db s) key val [] = (rc, b', w)"
        using 2(2) by (metis prod.collapse)
      from RocksDB_Put_cases [OF V(2) this] that old 2(1) v c show ?thesis
        by (auto simp: closed_def split: if_splits)
    qed
  qed
  have "honest E V K (set_slot (dr_seq req) sl (raise_highest (dr_seq req) (snd (addSlots s (dr_seq req)))))"
    using sl add(2) by (intro honest_set_slot) (simp_all add: honest_def raise_highest_def)
  then show ?thesis using True l w by (simp add: Learn_ok Let_def honest_def)
qed (use s Learn_refused [of s req E] in simp)

interpretation hon: value_system E V "\<lambda>s. closed E V K \<and> honest E V K s"
  for E :: "'d env" and V :: "string set" and K :: "(string \<times> string) set"
proof unfold_locales
  fix s :: "'d paxos_impl" and q i j sl
  assume s: "closed E V K \<and> honest E V K s" and sl: "get_slot s q = Some sl"
  then have "honest_slot V (sl\<lparr>slot_n := i, slot_highest_N := j\<rparr>)"
    using honest_get by (fastforce simp: honest_slot_def)
  then show "closed E V K \<and> honest E V K (set_slot q (sl\<lparr>slot_n := i, slot_highest_N := j\<rparr>) s)"
    using s honest_set_slot by blast
next
  fix s :: "'d paxos_impl" and preq r
  assume "closed E V K \<and> honest E V K s" "fst (Prepare E s preq) = Ok r"
  then show "pp_v_a r \<in> V \<and> pp_value r \<in> V" using honest_Prepare(2) by blast
qed (auto intro: honest_Prepare(1) honest_Accept honest_Learn honest_frame honest_addSlots(2) simp: closed_def)

section \<open>Heartbeats and elections\<close>

lemma values_put: "\<forall>x \<in> set m. Q (snd x) \<Longrightarrow> Q v \<Longrightarrow> \<forall>x \<in> set (smap_put k v m). Q (snd x)"
  using set_smap_put_subset [of k v m] by auto

lemma values_foldl_put:
  "\<forall>x \<in> set m. Q (snd x) \<Longrightarrow> \<forall>x \<in> set ps. Q (f (snd x)) \<Longrightarrow>
   \<forall>x \<in> set (foldl (\<lambda>m (k, p). smap_put k (f p) m) m ps). Q (snd x)"
proof (induction ps arbitrary: m)
  case (Cons p ps)
  obtain k v where p: "p = (k, v)" by (cases p)
  have "\<forall>x \<in> set (smap_put k (f v) m). Q (snd x)" by (rule values_put) (use Cons.prems p in simp_all)
  with Cons.IH Cons.prems(2) p show ?case by simp
qed simp

definition honest_proto :: "string set \<Rightarrow> (int, proto_slot) smap \<Rightarrow> bool" where
  "honest_proto V ps \<longleftrightarrow> (\<forall>x \<in> set (slots_of_proto ps). slot_value (snd x) \<in> V)"

lemma honest_protoI:
  assumes "\<forall>x \<in> set m. slot_value (snd x) \<in> V"
  shows "honest_proto V (proto_of_slots m)"
proof -
  have "\<forall>x \<in> set (proto_of_slots m). slot_value (fillSlot (snd x)) \<in> V"
    unfolding proto_of_slots_def
    by (rule values_foldl_put) (use assms in \<open>simp_all add: fillSlot_def ToProtobuf_def\<close>)
  then show ?thesis unfolding honest_proto_def slots_of_proto_def by (intro values_foldl_put) simp_all
qed

lemma request_slots_values:
  "\<forall>x \<in> set acc. slot_value (snd x) \<in> V \<Longrightarrow> \<forall>x \<in> set m. honest_slot V (snd x) \<Longrightarrow>
   \<forall>x \<in> set (request_slots vw m acc). slot_value (snd x) \<in> V"
proof (induction m arbitrary: acc)
  case (Cons x m)
  obtain k sl where x: "x = (k, sl)" by (cases x)
  have put: "\<forall>x \<in> set (smap_put k ((initSlot vw)\<lparr>slot_value := slot_value sl\<rparr>) acc). slot_value (snd x) \<in> V"
    if "slot_status sl = DECIDED"
    by (rule values_put [OF Cons.prems(1)]) (use Cons.prems(2) x that in \<open>simp add: honest_slot_def\<close>)
  have m: "\<forall>x \<in> set m. honest_slot V (snd x)" using Cons.prems(2) by simp
  show ?case using Cons.IH [OF put m] Cons.IH [OF Cons.prems(1) m] x by (cases "slot_status sl = DECIDED") simp_all
qed simp

lemma reply_slots_values:
  "\<forall>x \<in> set acc. slot_value (snd x) \<in> V \<Longrightarrow> \<forall>x \<in> set m. honest_slot V (snd x) \<Longrightarrow>
   \<forall>x \<in> set (reply_slots vw req m acc). slot_value (snd x) \<in> V"
proof (induction m arbitrary: acc)
  case (Cons x m)
  obtain k sl where x: "x = (k, sl)" by (cases x)
  have put: "\<forall>x \<in> set (smap_put k ((initSlot vw)\<lparr>slot_value := slot_value sl, slot_status := DECIDED\<rparr>) acc).
      slot_value (snd x) \<in> V" if "slot_status sl = DECIDED"
    by (rule values_put [OF Cons.prems(1)]) (use Cons.prems(2) x that in \<open>simp add: honest_slot_def\<close>)
  have m: "\<forall>x \<in> set m. honest_slot V (snd x)" using Cons.prems(2) by simp
  show ?case using Cons.IH [OF put m] Cons.IH [OF Cons.prems(1) m] x
    by (cases "slot_status sl = DECIDED \<and> map_of req k = None") auto
qed simp

lemma honest_adopt_slots:
  assumes "[] \<in> V"
  shows "honest E V K s \<Longrightarrow> \<forall>x \<in> set m. slot_value (snd x) \<in> V \<Longrightarrow> honest E V K (adopt_slots m s)"
proof (induction m s rule: adopt_slots.induct)
  case (2 k sl m s)
  note add = honest_addSlots [OF assms 2(2), of k]
  have "honest E V K (adopt_slot s k (slot_value sl))"
    using add 2(3) honest_set_slot [OF add(2)]
    by (auto simp: adopt_slot_def split_beta honest_slot_def)
  with 2 show ?case by simp
qed simp

lemma honest_Heartbeat:
  assumes V: "[] \<in> V" and s: "honest E V K s" and ps: "honest_proto V (hb_slots req)"
  shows "honest E V K (snd (Heartbeat s req))"
    and "fst (Heartbeat s req) = Ok r \<Longrightarrow> honest_proto V (hp_slots r)"
proof -
  have merged: "honest E V K (heartbeat_merge s req)"
    unfolding heartbeat_merge_def
    by (rule honest_adopt_slots [OF V]) (use s ps in \<open>simp_all add: honest_def adopt_view_def honest_proto_def\<close>)
  have "honest E V K (s\<lparr>missed_heartbeats := 0\<rparr>)" using s by (simp add: honest_def)
  then show "honest E V K (snd (Heartbeat s req))"
    using merged s Heartbeat_not_taken [of s req]
    by (cases "heartbeat_taken s req") (simp_all add: Heartbeat_taken)
  have "honest_proto V (proto_of_slots (reply_slots vw m (slots s) []))" for vw m
    by (rule honest_protoI, rule reply_slots_values) (use s in \<open>simp_all add: honest_def\<close>)
  moreover have "honest_proto V []" by (simp add: honest_proto_def slots_of_proto_def)
  ultimately show "honest_proto V (hp_slots r)" if "fst (Heartbeat s req) = Ok r"
    using that by (cases "heartbeat_taken s req")
      (auto simp: Heartbeat_taken, auto simp: Heartbeat_def with_mu_def heartbeat_taken_def split: if_splits)
qed

lemma honest_send_loop:
  assumes V: "[] \<in> V" and ps: "honest_proto V ps"
  shows "everywhere (honest E V K) c \<Longrightarrow> pred_outcome (everywhere (honest E V K)) (send_loop a vw ps bs dn c)"
proof (induction bs arbitrary: dn c)
  case (Cons b bs)
  show ?case
  proof (cases "node c a")
    case None
    then show ?thesis using Cons.prems by simp
  next
    case s: (Some s)
    let ?req = "\<lparr>hb_id = me s, hb_view = vw, hb_done = dn @ done_vec s, hb_slots = ps\<rparr>"
    obtain r c1 where call: "rpc b (\<lambda>t. Heartbeat t ?req) c = (r, c1)" by fastforce
    have c1: "everywhere (honest E V K) c1"
      by (rule everywhere_rpc [OF Cons.prems call]) (simp add: honest_Heartbeat(1) [OF V] ps)
    have reply: "honest_proto V (hp_slots x)" if "r = Ok x" for x
    proof -
      note call_ok = call [unfolded that]
      obtain t where t: "node c b = Some t" "fst (Heartbeat t ?req) = Ok x"
        using rpc_reply [OF call_ok] by blast
      show ?thesis by (rule honest_Heartbeat(2) [OF V everywhereD [OF Cons.prems t(1)] _ t(2)]) (simp add: ps)
    qed
    have adopt: "everywhere (honest E V K) (put_node a (adopt_slots (slots_of_proto (hp_slots x)) s1) c1)"
      if "r = Ok x" "node c1 a = Some s1" for x s1
      using reply [OF that(1)] everywhereD [OF c1 that(2)]
      by (intro everywhere_put [OF c1] honest_adopt_slots [OF V]) (simp_all add: honest_proto_def)
    show ?thesis
      using s call c1 adopt Cons.IH by (cases r) (auto simp: Let_def split: option.split)
  qed
qed simp

lemma honest_SendHeartbeats:
  assumes V: "[] \<in> V" and c: "everywhere (honest E V K) c"
  shows "pred_outcome (everywhere (honest E V K)) (SendHeartbeats a c)"
proof (cases "node c a")
  case None
  then show ?thesis using c by (simp add: SendHeartbeats_def)
next
  case (Some s)
  have "honest_proto V (proto_of_slots (request_slots (view s) (slots s) []))"
    by (rule honest_protoI, rule request_slots_values)
      (use everywhereD [OF c Some] in \<open>simp_all add: honest_def\<close>)
  then show ?thesis using Some c honest_send_loop [OF V _ c] by (simp add: SendHeartbeats_def)
qed

lemma honest_elect_loop:
  "everywhere (honest E V K) c \<Longrightarrow>
   case elect_loop own target bs e c of
     Inl out \<Rightarrow> pred_outcome (everywhere (honest E V K)) out
   | Inr (e', c') \<Rightarrow> everywhere (honest E V K) c'"
proof (induction bs arbitrary: e c)
  case (Cons b bs)
  obtain r c1 where call: "rpc b (\<lambda>t. Elect t \<lparr>er_view = target\<rparr>) c = (r, c1)" by fastforce
  have "everywhere (honest E V K) c1"
    by (rule everywhere_rpc [OF Cons.prems call]) (simp add: honest_def)
  with Cons call show ?case by (cases r) auto
qed simp

lemma honest_Election:
  "everywhere (honest E V K) c \<Longrightarrow> pred_outcome (everywhere (honest E V K)) (Election n c a v off)"
proof (induction n arbitrary: c)
  case (Suc n)
  show ?case
  proof (cases "node c a")
    case None
    then show ?thesis using Suc.prems by simp
  next
    case (Some s)
    note loop = honest_elect_loop [OF Suc.prems, where own = "server_address s" and target = "to_int32 (v + off)"
        and bs = "smap_keys (paxos_stubs_map s)" and e = ballot_init]
    have "everywhere (honest E V K) (put_node a s2 c1)"
      if "everywhere (honest E V K) c1" "node c1 a = Some s1" "elect_finish T k e s1 = Some s2" for c1 s1 s2 T k e
      using that everywhereD [OF that(1,2)]
      by (intro everywhere_put) (auto simp: elect_finish_def follow_view_def honest_def split: if_splits)
    with Some loop Suc.IH show ?thesis
      by (auto split: sum.splits prod.splits option.splits)
  qed
qed simp

section \<open>Everything a cell does\<close>

text \<open>
  A proposal, a round of heartbeats or an election on one of the servers; the run goes on with the
  next event when an event returns or ends by an exception or the death of its process.
\<close>

datatype cell_event = Propose string int string | Beat string | Ballot nat string int int

primrec event_outcome :: "'d env \<Rightarrow> 'd cluster \<Rightarrow> cell_event \<Rightarrow> 'd cluster outcome" where
  "event_outcome E c (Propose a seq v) = Start E c a seq v"
| "event_outcome E c (Beat a) = SendHeartbeats a c"
| "event_outcome E c (Ballot n a my_view offset) = Election n c a my_view offset"

fun cell_run :: "'d env \<Rightarrow> cell_event list \<Rightarrow> 'd cluster \<Rightarrow> 'd cluster option" where
  "cell_run E [] c = Some c"
| "cell_run E (e # es) c =
     (case event_outcome E c e of
        Done c' \<Rightarrow> cell_run E es c'
      | Thrown x c' \<Rightarrow> cell_run E es c'
      | Died c' \<Rightarrow> cell_run E es c'
      | _ \<Rightarrow> None)"

fun proposed :: "cell_event list \<Rightarrow> string set" where
  "proposed [] = {}"
| "proposed (Propose a seq v # es) = insert v (proposed es)"
| "proposed (_ # es) = proposed es"

lemma honest_run:
  assumes "closed E V K"
  shows "everywhere (honest E V K) c \<Longrightarrow> proposed es \<subseteq> V \<Longrightarrow> cell_run E es c = Some c' \<Longrightarrow>
    everywhere (honest E V K) c'"
proof (induction es arbitrary: c)
  case (Cons e es)
  have ev: "everywhere (\<lambda>s. closed E V K \<and> honest E V K s) = everywhere (honest E V K)"
    using assms by (simp add: everywhere_def fun_eq_iff)
  have "pred_outcome (everywhere (honest E V K)) (event_outcome E c e)"
    using hon.I_proposal [where E = E and V = V and K = K and c = c, unfolded ev, OF Cons.prems(1)]
      honest_SendHeartbeats [of V E K c, OF _ Cons.prems(1)] honest_Election [OF Cons.prems(1)] assms Cons.prems(2)
    by (cases e) (auto simp: closed_def)
  moreover have "proposed es \<subseteq> V" using Cons.prems(2) by (cases e) auto
  ultimately show ?case
    using Cons.IH Cons.prems(3) by (cases "event_outcome E c e") auto
qed simp

section \<open>Properties\<close>

text \<open>
  Integrity.  Whatever servers propose, send heartbeats and hold elections, over any network and
  with processes that die on the way, a cell that started with empty slot tables decides nothing but
  values that have been proposed to it (or the empty string), and every entry of every database was
  there at the start or is the key and the value of a proposal.
\<close>
theorem only_proposals_are_decided:
  assumes "rocks_ok E" "null_str E = []" "\<forall>b s. node c b = Some s \<longrightarrow> slots s = []"
    and "cell_run E es c = Some c'" "node c' b = Some t"
  shows "(\<forall>q u. decided t q = Some u \<longrightarrow> u = [] \<or> u \<in> proposed es) \<and>
    (\<forall>key m. store E (paxos_db t) key = Some m \<longrightarrow>
       (\<exists>a s. node c a = Some s \<and> store E (paxos_db s) key = Some m) \<or>
       (\<exists>v \<in> proposed es. getKeyValue v = Inr (key, m)))"
proof -
  let ?V = "insert [] (proposed es)"
  let ?K = "{(k, m). (\<exists>a s. node c a = Some s \<and> store E (paxos_db s) k = Some m) \<or>
      (\<exists>v \<in> proposed es. getKeyValue v = Inr (k, m))}"
  have "closed E ?V ?K" using assms(1,2) by (auto simp: closed_def getKeyValue_def)
  moreover have "everywhere (honest E ?V ?K) c" using assms(3) by (auto simp: everywhere_def honest_def)
  ultimately have "everywhere (honest E ?V ?K) c'" using assms(4) by (rule honest_run [OF _ _ subset_insertI])
  then have t: "honest E ?V ?K t" using assms(5) by (rule everywhereD)
  have "u \<in> ?V" if "decided t q = Some u" for q u
    using that honest_get [OF t, of q] by (auto simp: decided_def honest_slot_def split: option.splits if_splits)
  moreover have "(k, m) \<in> ?K" if "store E (paxos_db t) k = Some m" for k m
    using t that by (simp add: honest_def)
  ultimately show ?thesis by blast
qed

lemma only_proposals_are_decided_witness:
  "\<exists>c' t. cell_run mem_env [Propose ''127.0.0.1:50051'' 1 ''a#SHARED'', Beat ''127.0.0.1:50051'',
      Ballot 1 ''127.0.0.1:50052'' 0 1] sample_cell = Some c' \<and>
    node c' ''127.0.0.1:50053'' = Some t \<and> (\<forall>q u. decided t q = Some u \<longrightarrow> u = [] \<or> u = ''a#SHARED'')"
proof -
  let ?es = "[Propose ''127.0.0.1:50051'' 1 ''a#SHARED'', Beat ''127.0.0.1:50051'', Ballot 1 ''127.0.0.1:50052'' 0 1]"
  have "cell_run mem_env ?es sample_cell \<noteq> None \<and>
      node (the (cell_run mem_env ?es sample_cell)) ''127.0.0.1:50053'' \<noteq> None" by code_simp
  then obtain c' t where run: "cell_run mem_env ?es sample_cell = Some c'" "node c' ''127.0.0.1:50053'' = Some t"
    by force
  have "\<forall>b s. node sample_cell b = Some s \<longrightarrow> slots s = []"
    by (auto simp: node_def sample_cell_def split: if_splits)
  with only_proposals_are_decided [OF mem_env_ok(1) mem_env_sel(5) _ run] run show ?thesis by auto
qed

end
