(* ===== verification/Sessions.thy ===== *)
theory Sessions
  imports Locks
begin

text \<open>
  Sessions and forwarding: \<open>KeepAlive\<close> extends a lease, the lease checker ends the sessions whose
  lease has run out and no other, and calls that are forwarded in a circle never return.
\<close>

section \<open>What releasing the locks of a client leaves alone\<close>

definition same_tables :: "string \<Rightarrow> 'd cell \<Rightarrow> 'd cell \<Rightarrow> bool" where
  "same_tables a x x' \<longleftrightarrow>
     (\<forall>ch'. map_of (chubbies x') a = Some ch' \<longrightarrow>
        (\<exists>ch. map_of (chubbies x) a = Some ch \<and> client_lease_map ch' = client_lease_map ch \<and>
              client_lock_map ch' = client_lock_map ch))"

lemma same_tables_refl: "same_tables a x x"
  by (simp add: same_tables_def)

lemma same_tables_trans: "same_tables a x y \<Longrightarrow> same_tables a y z \<Longrightarrow> same_tables a x z"
  unfolding same_tables_def by metis

lemma same_tables_Put: "Put E x a key mode = Done x' \<Longrightarrow> same_tables a x x'"
  by (auto simp: Put_def same_tables_def map_outcome_Done split: option.splits if_splits)

lemma same_tables_lock_key: "lock_key a key x = Some x' \<Longrightarrow> same_tables a x x'"
  by (auto simp: lock_key_def same_tables_def split: option.splits)

lemma same_tables_unlock_key: "same_tables a x (unlock_key a key x)"
  by (auto simp: unlock_key_def upd_chubby_def same_tables_def split: option.splits)

lemma same_tables_release_keys: "release_keys E a keys x = Done x' \<Longrightarrow> same_tables a x x'"
proof (induction keys arbitrary: x)
  case Nil
  then show ?case by (simp add: same_tables_refl)
next
  case (Cons key keys)
  from Cons.prems obtain x1 where x1: "lock_key a key x = Some x1"
    by (auto split: option.splits)
  note st1 = same_tables_lock_key [OF x1]
  show ?case
  proof (cases "server_at x1 a")
    case None
    with Cons.prems x1 st1 show ?thesis by simp
  next
    case (Some sc)
    obtain s ch where sc: "sc = (s, ch)" by fastforce
    let ?out = "if fst (Get E s key) \<and> (snd (Get E s key) = ''SHARED'' \<or> snd (Get E s key) = ''EXCLUSIVE'')
                then Put E x1 a key ''FREE'' else Done x1"
    from Cons.prems x1 Some sc obtain x2 where x2: "?out = Done x2"
      "release_keys E a keys (unlock_key a key x2) = Done x'"
      by (cases ?out) (auto simp: split_beta)
    have "same_tables a x1 x2"
      using x2(1) same_tables_Put [of E x1 a key "''FREE''" x2] same_tables_refl [of a x1]
      by (auto split: if_splits)
    then show ?thesis
      using st1 same_tables_unlock_key [of a x2 key] Cons.IH [OF x2(2)]
      by (blast intro: same_tables_trans)
  qed
qed

lemma same_tables_release_clients: "release_clients E a cs x = Done x' \<Longrightarrow> same_tables a x x'"
proof (induction cs arbitrary: x)
  case Nil
  then show ?case by (simp add: same_tables_refl)
next
  case (Cons c cs)
  from Cons.prems obtain x1 where x1: "ReleaseLocksForClient E x a c = Done x1"
    "release_clients E a cs x1 = Done x'"
    by (auto split: outcome.splits)
  have "same_tables a x x1"
    using x1(1) by (auto simp: ReleaseLocksForClient_def same_tables_refl same_tables_release_keys
        split: option.splits)
  then show ?case using Cons.IH [OF x1(2)] by (rule same_tables_trans)
qed

lemma map_of_erase_all:
  "map_of (foldl (\<lambda>m c. smap_erase c m) m cs) c = (if c \<in> set cs then None else map_of m c)"
  by (induction cs arbitrary: m) auto

section \<open>Properties\<close>

text \<open>
  C24: \<open>KeepAlive\<close> extends the lease.  A server that trusts its leader answers when the wait is over,
  reports the end of the new lease, twelve seconds later, in seconds, and its view as the epoch; the
  new lease ends after the old one, the client has a session, and no other client's lease changes.
\<close>
theorem keepalive_extends_lease:
  assumes "server_at x a = Some (s, ch)" "\<not> leader_dead s" "wait_over ch c (wake a)"
    and "0 \<le> wake a" "wake a < 2 ^ 62" "0 \<le> view s" "in_int32 (view s)"
  shows "\<exists>x' ch'. KeepAlive x a c wake =
      Some (Ok \<lparr>kr_success = True, kr_lease_timeout = (wake a + 12 * second) div second,
                kr_epoch_number = view s, kr_error_message = ''''\<rparr>, x') \<and>
    server_at x' a = Some (s, ch') \<and> map_of (client_lease_map ch') c = Some (wake a + 12 * second) \<and>
    lease_of ch c < lease_of ch' c \<and>
    (\<forall>d. d \<noteq> c \<longrightarrow> map_of (client_lease_map ch') d = map_of (client_lease_map ch) d)"
proof -
  let ?ch = "ch\<lparr>client_lease_map := smap_put c (wake a + lease_timeout) (client_lease_map ch)\<rparr>"
  have div: "(wake a + lease_timeout) div second mod 18446744073709551616 = (wake a + 12 * second) div second"
    unfolding lease_timeout_def using assms(4,5) by (subst mod_pos_pos_trivial) (auto simp: second_def)
  have ep: "to_uint32 (view s) = view s"
    using assms(6,7) by (simp add: to_uint32_def in_int32_def)
  have "KeepAlive x a c wake =
      Some (Ok \<lparr>kr_success = True, kr_lease_timeout = (wake a + 12 * second) div second,
                kr_epoch_number = view s, kr_error_message = ''''\<rparr>, put_chubby a ?ch x)"
    using assms(1,2) by (simp add: KeepAlive.simps KeepAlive_local_def div ep)
  moreover have "server_at (put_chubby a ?ch x) a = Some (s, ?ch)"
    using assms(1) by (rule server_at_put)
  moreover have "lease_of ch c < lease_of ?ch c"
  proof -
    have "lease_of ?ch c = wake a + lease_timeout" by (simp add: lease_of_def)
    then show ?thesis using assms(3) by (simp add: wait_over_def lease_timeout_def second_def)
  qed
  ultimately show ?thesis by (auto simp: lease_timeout_def)
qed

lemma keepalive_extends_lease_witness:
  "\<exists>x' ch'. server_at x' ''127.0.0.1:50051'' = Some (sample_server 0, ch') \<and>
     KeepAlive sample_locks ''127.0.0.1:50051'' ''7'' (\<lambda>a. 11900000000) =
       Some (Ok \<lparr>kr_success = True, kr_lease_timeout = 23, kr_epoch_number = 0, kr_error_message = ''''\<rparr>, x')"
  using keepalive_extends_lease [OF serves_server [OF serves_sample_locks], of "''7''" "\<lambda>a. 11900000000"]
  by (auto simp: wait_over_def lease_of_def second_def)

text \<open>
  C25: expiry is exact.  A pass of the lease checker that ends leaves a session to exactly those clients
  whose lease ends after the time of the pass, with the same lease; the entries of \<open>client_lock_map\<close>
  stay, also those of the clients it has expired.
\<close>
theorem expiry_is_exact:
  assumes "map_of (chubbies x) a = Some ch" "\<not> stop_lease_checker ch"
    and "\<And>xs. set (table_order xs) = set xs"
    and "CheckAndExpireLeases E table_order x a now = Done x'" "map_of (chubbies x') a = Some ch'"
  shows "client_lock_map ch' = client_lock_map ch \<and>
    map_of (client_lease_map ch') c =
      (case map_of (client_lease_map ch) c of
         None \<Rightarrow> None | Some t \<Rightarrow> if t \<le> now then None else Some t)"
proof -
  let ?ex = "expired_clients table_order now ch"
  let ?ch = "ch\<lparr>client_lease_map := foldl (\<lambda>m c. smap_erase c m) (client_lease_map ch) ?ex\<rparr>"
  have "release_clients E a ?ex (put_chubby a ?ch x) = Done x'"
    using assms(1,2,4) by (simp add: CheckAndExpireLeases_def Let_def)
  from same_tables_release_clients [OF this] assms(5)
  have same: "client_lease_map ch' = client_lease_map ?ch" "client_lock_map ch' = client_lock_map ch"
    by (auto simp: same_tables_def)
  have mem: "c \<in> set ?ex \<longleftrightarrow> map_of (client_lease_map ch) c \<noteq> None \<and> lease_of ch c \<le> now"
    using assms(3) by (auto simp: expired_clients_def smap_keys_def map_of_eq_None_iff)
  show ?thesis
  proof (cases "map_of (client_lease_map ch) c")
    case None
    then show ?thesis using same by (simp add: map_of_erase_all)
  next
    case (Some t)
    then have "c \<in> set ?ex \<longleftrightarrow> t \<le> now" by (simp add: mem lease_of_def)
    with same Some show ?thesis by (simp add: map_of_erase_all)
  qed
qed

lemma expiry_is_exact_witness:
  "\<exists>x' ch'. CheckAndExpireLeases mem_env (\<lambda>xs. xs) sample_locks ''127.0.0.1:50051'' 12000000000 = Done x' \<and>
     map_of (chubbies x') ''127.0.0.1:50051'' = Some ch' \<and> map_of (client_lease_map ch') ''7'' = None"
proof -
  have c: "map_of (chubbies sample_locks) ''127.0.0.1:50051'' = Some sample_chubby"
    by (simp add: sample_locks_def)
  obtain x' ch' where x': "CheckAndExpireLeases mem_env (\<lambda>xs. xs) sample_locks ''127.0.0.1:50051'' 12000000000 = Done x'"
    "map_of (chubbies x') ''127.0.0.1:50051'' = Some ch'"
    using c by (simp add: CheckAndExpireLeases_def expired_clients_def smap_keys_def lease_of_def
        ReleaseLocksForClient_def locked_keys_def Let_def)
  from expiry_is_exact [OF c _ _ x', of "''7''"] x' show ?thesis by simp
qed

text \<open>Servers that take their leaders for dead and forward to one another.\<close>

definition forward_circle :: "'d cell \<Rightarrow> string set \<Rightarrow> bool" where
  "forward_circle x F \<longleftrightarrow> net (paxos x) = [] \<and>
     (\<forall>a \<in> F. \<exists>s ch. server_at x a = Some (s, ch) \<and> leader_dead s \<and> \<not> leader_election_happened s \<and>
        leader_address s \<in> F \<and> map_of (chubby_stubs_map ch) (leader_address s) \<noteq> None)"

lemma forward_circle_hop:
  assumes "forward_circle x F" "a \<in> F"
  obtains s ch b where "server_at x a = Some (s, ch)" "leader_dead s" "\<not> leader_election_happened s"
    "b \<in> F" "forward_hop x s ch = Answers b True x"
proof -
  from assms obtain s ch where s: "server_at x a = Some (s, ch)" "leader_dead s"
    "\<not> leader_election_happened s" "leader_address s \<in> F"
    "map_of (chubby_stubs_map ch) (leader_address s) \<noteq> None"
    by (auto simp: forward_circle_def)
  from assms s(4) have "server_at x (leader_address s) \<noteq> None" "next_fate (paxos x) = (Delivered, paxos x)"
    by (auto simp: forward_circle_def next_fate_def)
  with s(5) have "forward_hop x s ch = Answers (leader_address s) True x"
    by (simp add: forward_hop_def Let_def)
  with that s show ?thesis by blast
qed

lemma AcquireLock_circle:
  assumes "AcquireLock E x a req = Some y"
  shows "\<not> (forward_circle x F \<and> a \<in> F)"
  apply (rule AcquireLock_induct [where P = "\<lambda>E x a req y. \<not> (forward_circle x F \<and> a \<in> F)", OF _ assms])
  subgoal premises prems for rec E x a req y
  proof
    assume "forward_circle x F \<and> a \<in> F"
    then obtain s ch b where h: "server_at x a = Some (s, ch)" "leader_dead s"
      "\<not> leader_election_happened s" "b \<in> F" "forward_hop x s ch = Answers b True x"
      "forward_circle x F"
      using forward_circle_hop by metis
    with prems(2) obtain z where "rec E x b req = Some z" by (auto simp: bind_eq_Some_conv)
    from prems(1) [OF this] h show False by simp
  qed
  done

lemma ReleaseLock_circle:
  assumes "ReleaseLock E x a req = Some y"
  shows "\<not> (forward_circle x F \<and> a \<in> F)"
  apply (rule ReleaseLock_induct [where P = "\<lambda>E x a req y. \<not> (forward_circle x F \<and> a \<in> F)", OF _ assms])
  subgoal premises prems for rec E x a req y
  proof
    assume "forward_circle x F \<and> a \<in> F"
    then obtain s ch b where h: "server_at x a = Some (s, ch)" "leader_dead s"
      "\<not> leader_election_happened s" "b \<in> F" "forward_hop x s ch = Answers b True x"
      "forward_circle x F"
      using forward_circle_hop by metis
    with prems(2) obtain z where "rec E x b req = Some z" by (auto simp: bind_eq_Some_conv)
    from prems(1) [OF this] h show False by simp
  qed
  done

lemma KeepAlive_circle:
  assumes "KeepAlive x a c wake = Some y"
  shows "\<not> (forward_circle x F \<and> a \<in> F)"
  apply (rule KeepAlive_induct [where P = "\<lambda>x a c wake y. \<not> (forward_circle x F \<and> a \<in> F)", OF _ assms])
  subgoal premises prems for rec x a c wake y
  proof
    assume "forward_circle x F \<and> a \<in> F"
    then obtain s ch b where h: "server_at x a = Some (s, ch)" "leader_dead s"
      "\<not> leader_election_happened s" "b \<in> F" "forward_hop x s ch = Answers b True x"
      "forward_circle x F"
      using forward_circle_hop by metis
    with prems(2) obtain z where "rec x b c wake = Some z" by (auto simp: bind_eq_Some_conv)
    from prems(1) [OF this] h show False by simp
  qed
  done

text \<open>
  Forwarding can go round for ever.  Among servers that all take their leader for dead and whose
  leaders, by their own views, are again among them, which is so for a leader that has itself missed
  heartbeats, no \<open>AcquireLock\<close>, \<open>ReleaseLock\<close> or \<open>KeepAlive\<close> ever returns, on a network that delivers.
\<close>
theorem forwarding_circle_never_returns:
  assumes "forward_circle x F" "a \<in> F"
  shows "AcquireLock E x a req = None \<and> ReleaseLock E x a req = None \<and> KeepAlive x a c wake = None"
  using assms AcquireLock_circle ReleaseLock_circle KeepAlive_circle by (metis option.exhaust)

lemma forwarding_circle_never_returns_witness:
  "AcquireLock mem_env
     (sample_locks\<lparr>paxos := put_node ''127.0.0.1:50051'' ((sample_server 0)\<lparr>leader_dead := True\<rparr>) sample_cell\<rparr>)
     ''127.0.0.1:50051'' (sample_lock ''7'' ''SHARED'') = None"
proof -
  have "leader_address ((sample_server 0)\<lparr>leader_dead := True\<rparr>) = ''127.0.0.1:50051''"
    by (simp add: leader_address_def signed_modulo_int_def server_addr_literals)
  then have "forward_circle (sample_locks\<lparr>paxos := put_node ''127.0.0.1:50051''
      ((sample_server 0)\<lparr>leader_dead := True\<rparr>) sample_cell\<rparr>) {''127.0.0.1:50051''}"
    by (simp add: forward_circle_def server_at_Some sample_locks_def sample_chubby_def)
  with forwarding_circle_never_returns show ?thesis by blast
qed

end
