(* ===== verification/Integrity.thy ===== *)
theory Integrity
  imports Validity Sessions Recovery
begin

text \<open>
  What the databases hold in terms of the calls of clients.  A predicate on cells that proposals of
  wanted locks keep, and that asks of the lock services only that every lock they have entered may be
  released, is kept by every handler of the lock service and by the lease checker (locale
  \<open>cell_property\<close>).  The instance joins the integrity of proposals with the lock services: an entry of
  a database comes from a request.
\<close>

section \<open>Predicates that the lock service keeps\<close>

text \<open>\<open>W\<close> is a set of wanted locks, pairs of a path and a mode.\<close>

definition releasable :: "(string \<times> string) set \<Rightarrow> chubby_impl \<Rightarrow> bool" where
  "releasable W ch \<longleftrightarrow> (\<forall>path c. map_of (client_lock_map ch) (path, c) \<noteq> None \<longrightarrow> (path, ''FREE'') \<in> W)"

lemma releasable_cong: "client_lock_map ch' = client_lock_map ch \<Longrightarrow> releasable W ch' = releasable W ch"
  by (simp add: releasable_def)

lemma releasable_upd [simp]:
  "releasable W (ch\<lparr>lock_map := m\<rparr>) = releasable W ch"
  "releasable W (ch\<lparr>slot_number := n\<rparr>) = releasable W ch"
  "releasable W (ch\<lparr>client_lease_map := l\<rparr>) = releasable W ch"
  by (simp_all add: releasable_def)

lemma releasable_insert:
  "releasable W ch \<Longrightarrow> (path, ''FREE'') \<in> W \<Longrightarrow>
   releasable W (ch\<lparr>client_lock_map := smap_put (path, c) u (client_lock_map ch)\<rparr>)"
  by (auto simp: releasable_def)

lemma releasable_erase:
  "releasable W ch \<Longrightarrow> releasable W (ch\<lparr>client_lock_map := smap_erase k (client_lock_map ch)\<rparr>)"
  by (auto simp: releasable_def)

lemma locked_keys_releasable: "releasable W ch \<Longrightarrow> key \<in> set (locked_keys c ch) \<Longrightarrow> (key, ''FREE'') \<in> W"
  by (force simp: releasable_def locked_keys_def map_of_eq_None_iff)

text \<open>The locks that a request can lead to: its mode, and the release of its path.\<close>

definition asked :: "(string \<times> string) set \<Rightarrow> lock_request \<Rightarrow> bool" where
  "asked W req \<longleftrightarrow> (lq_path req, lq_locking_mode req) \<in> W \<and> (lq_path req, ''FREE'') \<in> W"

locale cell_property =
  fixes E :: "'d env"
    and W :: "(string \<times> string) set"
    and I :: "'d cell \<Rightarrow> bool"
  assumes I_Put: "I x \<Longrightarrow> (path, mode) \<in> W \<Longrightarrow> pred_outcome I (Put E x a path mode)"
    and I_locks: "I x \<Longrightarrow> map_of (chubbies x) a = Some ch \<Longrightarrow> releasable W ch"
    and I_chubby: "I x \<Longrightarrow> map_of (chubbies x) a = Some ch \<Longrightarrow> releasable W ch' \<Longrightarrow> I (put_chubby a ch' x)"
    and I_fate: "I x \<Longrightarrow> next_fate (paxos x) = (fate, c) \<Longrightarrow> I (x\<lparr>paxos := c\<rparr>)"
    and I_kill: "I x \<Longrightarrow> I (kill_server a x)"
begin

lemma I_upd_chubby: "I x \<Longrightarrow> (\<And>ch. releasable W ch \<Longrightarrow> releasable W (f ch)) \<Longrightarrow> I (upd_chubby a f x)"
  using I_chubby I_locks by (auto simp: upd_chubby_def split: option.split)

lemma I_lock_key: "I x \<Longrightarrow> lock_key a key x = Some x' \<Longrightarrow> I x'"
  using I_chubby I_locks by (fastforce simp: lock_key_def split: option.splits)

lemma I_unlock_key: "I x \<Longrightarrow> I (unlock_key a key x)"
  unfolding unlock_key_def by (rule I_upd_chubby) simp_all

lemma I_grant:
  "I x \<Longrightarrow> asked W req \<Longrightarrow> pred_outcome (\<lambda>z. I (snd z)) (grant E write x a req resp)"
  using I_Put [of x "lq_path req" "lq_locking_mode req" a]
  by (auto simp: grant_def asked_def outcome.pred_map comp_def I_upd_chubby releasable_insert
      elim!: outcome.pred_mono_strong)

lemma I_AcquireLock_decide:
  "I x \<Longrightarrow> asked W req \<Longrightarrow> pred_outcome (\<lambda>z. I (snd z)) (AcquireLock_decide E x a s ch req resp)"
  by (auto simp: AcquireLock_decide_def refuse_def I_grant split: prod.split)

lemma I_ReleaseLock_decide:
  "I x \<Longrightarrow> (lq_path req, ''FREE'') \<in> W \<Longrightarrow> pred_outcome (\<lambda>z. I (snd z)) (ReleaseLock_decide E x a s req resp)"
  using I_Put [of x "lq_path req" "''FREE''" a]
  by (auto simp: ReleaseLock_decide_def refuse_def outcome.pred_map comp_def I_upd_chubby
      releasable_erase split: prod.split elim!: outcome.pred_mono_strong)

lemma I_finish_lock:
  "I x \<Longrightarrow> pred_outcome (\<lambda>z. I (snd z)) out \<Longrightarrow> I (snd (finish_lock a path x out))"
  by (auto simp: finish_lock_def I_unlock_key split: outcome.split option.split)

lemma I_AcquireLock_local: "I x \<Longrightarrow> asked W req \<Longrightarrow> I (snd (AcquireLock_local E x a req resp))"
  by (auto simp: AcquireLock_local_def Let_def I_lock_key I_upd_chubby
      intro!: I_finish_lock I_AcquireLock_decide split: option.split)

lemma I_ReleaseLock_local: "I x \<Longrightarrow> (lq_path req, ''FREE'') \<in> W \<Longrightarrow> I (snd (ReleaseLock_local E x a req resp))"
  by (auto simp: ReleaseLock_local_def I_lock_key
      intro!: I_finish_lock I_ReleaseLock_decide split: option.split)

lemma I_KeepAlive_local: "I x \<Longrightarrow> I (snd (KeepAlive_local x a c wake))"
  using I_locks by (auto simp: KeepAlive_local_def server_at_Some intro: I_chubby split: option.split)

lemma I_hop:
  "I x \<Longrightarrow> forward_hop x s ch = No_answer x0 \<Longrightarrow> I x0"
  "I x \<Longrightarrow> forward_hop x s ch = Answers b d x0 \<Longrightarrow> I x0"
  using I_fate by (auto simp: forward_hop_def Let_def split: prod.splits if_splits)

text \<open>A forwarded call: the handlers that the other servers run, and then the server's own part.\<close>

lemma I_forwarded:
  assumes "I x"
    and "(case forward_hop x s ch of
            No_stub \<Rightarrow> Some (e, kill_server a x)
          | No_answer x0 \<Rightarrow> Some (f x0)
          | Answers b d x0 \<Rightarrow> Option.bind (call x0 b) (\<lambda>(r, x1). Some (g d r x1))) = Some y"
    and "\<And>x0. I x0 \<Longrightarrow> I (snd (f x0))"
    and "\<And>x0 b z. call x0 b = Some z \<Longrightarrow> I x0 \<Longrightarrow> I (snd z)"
    and "\<And>d r x1. I x1 \<Longrightarrow> I (snd (g d r x1))"
  shows "I (snd y)"
proof (cases "forward_hop x s ch")
  case No_stub
  then show ?thesis using assms(1,2) I_kill by auto
next
  case (No_answer x0)
  then show ?thesis using assms(1-3) I_hop(1) by auto
next
  case (Answers b d x0)
  then obtain z where z: "call x0 b = Some z" "y = g d (fst z) (snd z)"
    using assms(2) by (auto simp: bind_eq_Some_conv)
  then show ?thesis using assms(4) [OF z(1) I_hop(2) [OF assms(1) Answers]] assms(5) by simp
qed

lemma I_served:
  assumes "I x"
    and "(case server_at x a of
            None \<Rightarrow> Some (e, x)
          | Some (s, ch) \<Rightarrow>
              if leader_dead s then
                (case forward_hop x s ch of
                   No_stub \<Rightarrow> Some (e1, kill_server a x)
                 | No_answer x0 \<Rightarrow> Some (f x0)
                 | Answers b d x0 \<Rightarrow> Option.bind (call x0 b) (\<lambda>(r, x1). Some (g d r x1)))
              else Some own) = Some y"
    and "\<And>x0. I x0 \<Longrightarrow> I (snd (f x0))" "I (snd own)"
    and "\<And>x0 b z. call x0 b = Some z \<Longrightarrow> I x0 \<Longrightarrow> I (snd z)"
    and "\<And>d r x1. I x1 \<Longrightarrow> I (snd (g d r x1))"
  shows "I (snd y)"
proof (cases "server_at x a")
  case None
  then show ?thesis using assms(1,2) by auto
next
  case (Some z)
  obtain s ch where z: "server_at x a = Some (s, ch)" using Some by (cases z) simp
  show ?thesis
  proof (cases "leader_dead s")
    case True
    show ?thesis
      by (rule I_forwarded [OF assms(1) assms(2) [simplified z option.case prod.case True if_True]])
        (fact assms)+
  qed (use assms(1,2,4) z in auto)
qed

text \<open>The same with the check of the election window before it.\<close>

lemma I_served_window:
  assumes "I x"
    and "(case server_at x a of
            None \<Rightarrow> Some (e, x)
          | Some (s, ch) \<Rightarrow>
              if leader_election_happened s then Some (e2, x)
              else if leader_dead s then
                (case forward_hop x s ch of
                   No_stub \<Rightarrow> Some (e1, kill_server a x)
                 | No_answer x0 \<Rightarrow> Some (f x0)
                 | Answers b d x0 \<Rightarrow> Option.bind (call x0 b) (\<lambda>(r, x1). Some (g d r x1)))
              else Some own) = Some y"
    and "\<And>x0. I x0 \<Longrightarrow> I (snd (f x0))" "I (snd own)"
    and "\<And>x0 b z. call x0 b = Some z \<Longrightarrow> I x0 \<Longrightarrow> I (snd z)"
    and "\<And>d r x1. I x1 \<Longrightarrow> I (snd (g d r x1))"
  shows "I (snd y)"
proof (cases "\<exists>s ch. server_at x a = Some (s, ch) \<and> leader_election_happened s")
  case True
  then show ?thesis using assms(1,2) by auto
next
  case False
  show ?thesis
    by (rule I_served [OF assms(1), where a = a and e = e and ?e1.0 = e1 and f = f and call = call and g = g and own = own])
      (use False assms(2-6) in \<open>auto split: option.splits\<close>)
qed

lemma I_AcquireLock:
  assumes "AcquireLock E' x a req = Some y"
  shows "E' = E \<longrightarrow> I x \<longrightarrow> asked W req \<longrightarrow> I (snd y)"
  apply (rule AcquireLock_induct [where P = "\<lambda>E' x a req y. E' = E \<longrightarrow> I x \<longrightarrow> asked W req \<longrightarrow> I (snd y)", OF _ assms])
  subgoal premises prems for call E' x a req y
    by (intro impI, rule I_served_window [where x = x, OF _ prems(2)]) (use prems(1) I_AcquireLock_local in auto)
  done

lemma I_ReleaseLock:
  assumes "ReleaseLock E' x a req = Some y"
  shows "E' = E \<longrightarrow> I x \<longrightarrow> (lq_path req, ''FREE'') \<in> W \<longrightarrow> I (snd y)"
  apply (rule ReleaseLock_induct [where P = "\<lambda>E' x a req y. E' = E \<longrightarrow> I x \<longrightarrow> (lq_path req, ''FREE'') \<in> W \<longrightarrow> I (snd y)", OF _ assms])
  subgoal premises prems for call E' x a req y
    by (intro impI, rule I_served_window [where x = x, OF _ prems(2)]) (use prems(1) I_ReleaseLock_local in auto)
  done

lemma I_KeepAlive:
  assumes "KeepAlive x a c wake = Some y"
  shows "I x \<longrightarrow> I (snd y)"
  apply (rule KeepAlive_induct [where P = "\<lambda>x a c wake y. I x \<longrightarrow> I (snd y)", OF _ assms])
  subgoal premises prems for call x a c wake y
    by (intro impI, rule I_served [where x = x, OF _ prems(2)]) (use prems(1) I_KeepAlive_local in auto)
  done

lemma I_TryAcquireLock:
  assumes "TryAcquireLock x a = Some y"
  shows "I x \<longrightarrow> I (snd y)"
  apply (rule TryAcquireLock_induct [where P = "\<lambda>x a y. I x \<longrightarrow> I (snd y)", OF _ assms])
  subgoal premises prems for call x a y
    by (intro impI, rule I_served [where x = x, OF _ prems(2)]) (use prems(1) in auto)
  done

text \<open>The lease checker.\<close>

lemma I_release_keys:
  "I x \<Longrightarrow> \<forall>key \<in> set keys. (key, ''FREE'') \<in> W \<Longrightarrow> pred_outcome I (release_keys E a keys x)"
proof (induction keys arbitrary: x)
  case (Cons key keys)
  show ?case
  proof (cases "lock_key a key x")
    case (Some x1)
    have x1: "I x1" using I_lock_key [OF Cons.prems(1) Some] .
    have put: "pred_outcome I (Put E x1 a key ''FREE'')" using I_Put [OF x1] Cons.prems(2) by simp
    have next_key: "pred_outcome I (release_keys E a keys (unlock_key a key x2))" if "I x2" for x2
      using Cons.IH [OF I_unlock_key [OF that]] Cons.prems(2) by simp
    show ?thesis
      using Some x1 put next_key
      by (auto split: option.split prod.split outcome.split)
  qed simp
qed simp

lemma I_ReleaseLocksForClient: "I x \<Longrightarrow> pred_outcome I (ReleaseLocksForClient E x a c)"
  using I_release_keys I_locks locked_keys_releasable
  by (fastforce simp: ReleaseLocksForClient_def split: option.split)

lemma I_release_clients: "I x \<Longrightarrow> pred_outcome I (release_clients E a cs x)"
proof (induction cs arbitrary: x)
  case (Cons c cs)
  with I_ReleaseLocksForClient [OF Cons.prems, of a c] show ?case by (auto split: outcome.split)
qed simp

lemma I_CheckAndExpireLeases: "I x \<Longrightarrow> pred_outcome I (CheckAndExpireLeases E table_order x a now)"
  using I_chubby I_locks
  by (fastforce simp: CheckAndExpireLeases_def Let_def intro: I_release_clients split: option.split)

end

section \<open>Honest cells\<close>

definition honest_cell ::
  "'d env \<Rightarrow> string set \<Rightarrow> (string \<times> string) set \<Rightarrow> (string \<times> string) set \<Rightarrow> 'd cell \<Rightarrow> bool" where
  "honest_cell E V K W x \<longleftrightarrow> closed E V K \<and> (\<forall>(path, mode) \<in> W. put_string path mode \<in> V) \<and>
     everywhere (honest E V K) (paxos x) \<and> (\<forall>a ch. map_of (chubbies x) a = Some ch \<longrightarrow> releasable W ch)"

lemma everywhere_honest: "closed E V K \<Longrightarrow> everywhere (\<lambda>s. closed E V K \<and> honest E V K s) = everywhere (honest E V K)"
  by (simp add: everywhere_def fun_eq_iff)

lemma honest_with_paxos:
  "honest_cell E V K W x \<Longrightarrow> everywhere (honest E V K) c \<Longrightarrow> honest_cell E V K W (with_paxos x c)"
  by (auto simp: honest_cell_def)

lemma honest_outcome:
  "honest_cell E V K W x \<Longrightarrow> pred_outcome (everywhere (honest E V K)) out \<Longrightarrow>
   pred_outcome (honest_cell E V K W) (map_outcome (with_paxos x) out)"
  by (auto simp: outcome.pred_map comp_def honest_with_paxos elim: outcome.pred_mono_strong)

interpretation hc: cell_property E W "honest_cell E V K W"
  for E :: "'d env" and V :: "string set" and K W :: "(string \<times> string) set"
proof unfold_locales
  fix x :: "'d cell" and path mode a
  assume x: "honest_cell E V K W x" "(path, mode) \<in> W"
  then have c: "closed E V K" "put_string path mode \<in> V" "everywhere (honest E V K) (paxos x)"
    by (auto simp: honest_cell_def)
  then have "pred_outcome (everywhere (honest E V K)) (Start E (paxos x) a n (put_string path mode))" for n
    using hon.I_proposal [where E = E and V = V and K = K, unfolded everywhere_honest [OF c(1)]] by blast
  then show "pred_outcome (honest_cell E V K W) (Put E x a path mode)"
    using x(1) honest_outcome [OF x(1)] by (simp add: Put_def split: option.split)
next
  fix x :: "'d cell" and fate c
  assume x: "honest_cell E V K W x" "next_fate (paxos x) = (fate, c)"
  then show "honest_cell E V K W (x\<lparr>paxos := c\<rparr>)"
    using node_next_fate [OF x(2)] by (simp add: honest_cell_def everywhere_def)
next
  fix x :: "'d cell" and a
  assume "honest_cell E V K W x"
  then show "honest_cell E V K W (kill_server a x)"
    by (auto simp: honest_cell_def kill_server_def everywhere_kill)
qed (auto simp: honest_cell_def)

section \<open>Everything that happens to a cell with its clients\<close>

text \<open>
  The calls of clients, one pass of the lease checker, the turns of the two threads of a server, the
  timer of its detector, an election, and the end of a process.
\<close>

datatype service_event =
    Acquire_call string lock_request
  | Release_call string lock_request
  | Try_call string
  | Keep_call string string "string \<Rightarrow> int"
  | Lease_pass string "string list \<Rightarrow> string list" int
  | Beat_round string
  | Detector_turn string
  | Timer string
  | Vote_round nat string int int
  | Crash string

definition after_call :: "('r result \<times> 'd cell) option \<Rightarrow> 'd cell option" where
  "after_call y =
     (case y of None \<Rightarrow> None
      | Some (r, x) \<Rightarrow> (case r of Blocked \<Rightarrow> None | _ \<Rightarrow> Some x))"

definition after_outcome :: "'d cell outcome \<Rightarrow> 'd cell option" where
  "after_outcome out =
     (case out of Done x \<Rightarrow> Some x | Thrown e x \<Rightarrow> Some x | Died x \<Rightarrow> Some x | _ \<Rightarrow> None)"

text \<open>\<open>None\<close>: the event never ends.\<close>

fun service_step :: "'d env \<Rightarrow> 'd cell \<Rightarrow> service_event \<Rightarrow> 'd cell option" where
  "service_step E x (Acquire_call a req) = after_call (AcquireLock E x a req)"
| "service_step E x (Release_call a req) = after_call (ReleaseLock E x a req)"
| "service_step E x (Try_call a) = after_call (TryAcquireLock x a)"
| "service_step E x (Keep_call a c wake) = after_call (KeepAlive x a c wake)"
| "service_step E x (Lease_pass a table_order now) =
     after_outcome (CheckAndExpireLeases E table_order x a now)"
| "service_step E x (Beat_round a) = after_outcome (map_outcome (with_paxos x) (heartbeat_turn a (paxos x)))"
| "service_step E x (Detector_turn a) = Some (with_paxos x (snd (detector_turn a (paxos x))))"
| "service_step E x (Timer a) = Some (with_paxos x (timer_fires a (paxos x)))"
| "service_step E x (Vote_round n a my_view offset) =
     after_outcome (map_outcome (with_paxos x) (Election n (paxos x) a my_view offset))"
| "service_step E x (Crash a) = Some (kill_server a x)"

fun service_run :: "'d env \<Rightarrow> service_event list \<Rightarrow> 'd cell \<Rightarrow> 'd cell option" where
  "service_run E [] x = Some x"
| "service_run E (e # es) x = Option.bind (service_step E x e) (service_run E es)"

text \<open>The locks that the requests of a run ask for.\<close>

fun wanted_by :: "service_event \<Rightarrow> (string \<times> string) set" where
  "wanted_by (Acquire_call a req) = {(lq_path req, lq_locking_mode req), (lq_path req, ''FREE'')}"
| "wanted_by (Release_call a req) = {(lq_path req, ''FREE'')}"
| "wanted_by _ = {}"

definition wanted_locks :: "service_event list \<Rightarrow> (string \<times> string) set" where
  "wanted_locks es = (\<Union>e \<in> set es. wanted_by e)"

lemma wanted_by_cases:
  "(path, mode) \<in> wanted_by e \<Longrightarrow>
   (\<exists>a req. e = Acquire_call a req \<and> path = lq_path req \<and> (mode = lq_locking_mode req \<or> mode = ''FREE'')) \<or>
   (\<exists>a req. e = Release_call a req \<and> path = lq_path req \<and> mode = ''FREE'')"
  by (cases e) auto

lemma after_call_kept:
  "after_call y = Some x' \<Longrightarrow> (\<And>z. y = Some z \<Longrightarrow> Q (snd z)) \<Longrightarrow> Q x'"
  by (auto simp: after_call_def split: option.splits result.splits)

lemma after_outcome_kept: "after_outcome out = Some x' \<Longrightarrow> pred_outcome Q out \<Longrightarrow> Q x'"
  by (auto simp: after_outcome_def split: outcome.splits)

lemma honest_turns:
  assumes "everywhere (honest E V K) c"
  shows "everywhere (honest E V K) (snd (detector_turn a c))" "everywhere (honest E V K) (timer_fires a c)"
proof -
  have flags: "honest E V K (snd (DetectLeaderFailure s))" "honest E V K (snd (election_timer s))"
    if "honest E V K s" for s
    using that by (auto simp: DetectLeaderFailure_def election_timer_def with_mu_def Let_def honest_def)
  have put: "everywhere (honest E V K) (put_node a s' c)" if "node c a = Some s" "s' = snd (DetectLeaderFailure s)" for s s'
    using everywhere_put [OF assms flags(1) [OF everywhereD [OF assms that(1)]]] that(2) by simp
  show "everywhere (honest E V K) (snd (detector_turn a c))"
    using assms by (auto simp: detector_turn_def split: option.split prod.split result.split intro!: put)
  show "everywhere (honest E V K) (timer_fires a c)"
    using assms flags(2) by (auto simp: timer_fires_def intro: everywhere_put dest: everywhereD split: option.split)
qed

lemma honest_service_step:
  assumes x: "honest_cell E V K W x" and W: "wanted_by e \<subseteq> W" and step: "service_step E x e = Some x'"
  shows "honest_cell E V K W x'"
proof -
  have c: "everywhere (honest E V K) (paxos x)" "[] \<in> V"
    using x by (simp_all add: honest_cell_def closed_def)
  show ?thesis
  proof (cases e)
    case (Acquire_call a req)
    then have "asked W req" using W by (simp add: asked_def)
    moreover have "after_call (AcquireLock E x a req) = Some x'" using step Acquire_call by simp
    ultimately show ?thesis by (elim after_call_kept) (use hc.I_AcquireLock x in blast)
  next
    case (Release_call a req)
    then have "(lq_path req, ''FREE'') \<in> W" using W by simp
    moreover have "after_call (ReleaseLock E x a req) = Some x'" using step Release_call by simp
    ultimately show ?thesis by (elim after_call_kept) (use hc.I_ReleaseLock x in blast)
  next
    case (Try_call a)
    then have "after_call (TryAcquireLock x a) = Some x'" using step by simp
    then show ?thesis by (elim after_call_kept) (use hc.I_TryAcquireLock x in blast)
  next
    case (Keep_call a cl wake)
    then have "after_call (KeepAlive x a cl wake) = Some x'" using step by simp
    then show ?thesis by (elim after_call_kept) (use hc.I_KeepAlive x in blast)
  next
    case (Lease_pass a table_order now)
    with step show ?thesis using hc.I_CheckAndExpireLeases [OF x] by (auto elim!: after_outcome_kept)
  next
    case (Beat_round a)
    with step show ?thesis
      using honest_outcome [OF x honest_SendHeartbeats [OF c(2,1)]]
      by (auto simp: heartbeat_turn_def elim!: after_outcome_kept)
  next
    case (Vote_round n a v off)
    with step show ?thesis
      using honest_outcome [OF x honest_Election [OF c(1)]] by (auto elim!: after_outcome_kept)
  qed (use step x honest_turns [OF c(1)] honest_with_paxos [OF x] hc.I_kill in auto)
qed

lemma honest_service_run:
  "honest_cell E V K W x \<Longrightarrow> wanted_locks es \<subseteq> W \<Longrightarrow> service_run E es x = Some x' \<Longrightarrow>
   honest_cell E V K W x'"
proof (induction es arbitrary: x)
  case (Cons e es)
  from Cons.prems(3) obtain x1 where x1: "service_step E x e = Some x1" "service_run E es x1 = Some x'"
    by (auto simp: bind_eq_Some_conv)
  have "wanted_by e \<subseteq> W" "wanted_locks es \<subseteq> W" using Cons.prems(2) by (auto simp: wanted_locks_def)
  with Cons.IH [OF honest_service_step [OF Cons.prems(1) _ x1(1)]] x1(2) show ?case by blast
qed simp

section \<open>Properties\<close>

text \<open>
  C7: a lock in a database was asked for.  Whatever clients call on whichever servers, whatever the
  lease checkers, the heartbeats, the detectors and the elections do in between, over any network and
  with any processes crashing: when a cell that starts with empty slot tables and lock maps has a mode
  under a path in the database of some server, the entry was in a database at the start, or some
  client asked for the path in this mode, or the mode is \<open>FREE\<close> and some client asked for the path or
  for its release.
\<close>
theorem stored_locks_were_asked_for:
  assumes "rocks_ok E" "null_str E = []"
    and "\<forall>b s. node (paxos x) b = Some s \<longrightarrow> slots s = []"
    and "\<forall>b ch. map_of (chubbies x) b = Some ch \<longrightarrow> client_lock_map ch = []"
    and "\<forall>(path, mode) \<in> wanted_locks es. CHR ''#'' \<notin> set path"
    and "service_run E es x = Some x'" "node (paxos x') b = Some t"
    and "store E (paxos_db t) path = Some mode"
  shows "(\<exists>a s. node (paxos x) a = Some s \<and> store E (paxos_db s) path = Some mode) \<or>
    (\<exists>a req. Acquire_call a req \<in> set es \<and> path = lq_path req \<and>
       (mode = lq_locking_mode req \<or> mode = ''FREE'')) \<or>
    (\<exists>a req. Release_call a req \<in> set es \<and> path = lq_path req \<and> mode = ''FREE'')"
proof -
  let ?W = "wanted_locks es"
  let ?V = "insert [] {put_string p m | p m. (p, m) \<in> ?W}"
  let ?K = "{(p, m). (\<exists>a s. node (paxos x) a = Some s \<and> store E (paxos_db s) p = Some m) \<or> (p, m) \<in> ?W}"
  have parse: "getKeyValue (put_string p m) = Inr (p, m)" if "(p, m) \<in> ?W" for p m
    using assms(5) that by (auto intro: getKeyValue_put_string)
  have "closed E ?V ?K" using assms(1,2) parse by (auto simp: closed_def getKeyValue_Inr_iff [of "[]"])
  moreover have "everywhere (honest E ?V ?K) (paxos x)" using assms(3) by (auto simp: everywhere_def honest_def)
  ultimately have "honest_cell E ?V ?K ?W x"
    using assms(4) by (auto simp: honest_cell_def releasable_def)
  then have "honest_cell E ?V ?K ?W x'" using assms(6) by (rule honest_service_run [OF _ subset_refl])
  then have "honest E ?V ?K t" using assms(7) by (auto simp: honest_cell_def dest: everywhereD)
  then have K: "(path, mode) \<in> ?K" using assms(8) by (simp add: honest_def)
  show ?thesis
  proof (cases "(path, mode) \<in> ?W")
    case True
    then obtain e where "e \<in> set es" "(path, mode) \<in> wanted_by e" by (auto simp: wanted_locks_def)
    then show ?thesis using wanted_by_cases [of path mode e] by blast
  qed (use K in simp)
qed

text \<open>A run of the sample cell in which a client locks a path and the leader crashes after that.\<close>

definition sample_run :: "service_event list" where
  "sample_run =
     [Acquire_call ''127.0.0.1:50051'' (sample_lock ''7'' ''EXCLUSIVE''), Crash ''127.0.0.1:50051'']"

lemma sample_run_ends:
  "\<exists>x' t. service_run mem_env sample_run sample_locks = Some x' \<and>
     node (paxos x') ''127.0.0.1:50053'' = Some t \<and> store mem_env (paxos_db t) ''a'' = Some ''EXCLUSIVE''"
proof -
  have "store mem_env (paxos_db (sample_server 0)) ''a'' = None" by (simp add: store_def)
  with granted_lock_stored_everywhere [of mem_env sample_locks "''127.0.0.1:50051''" "sample_server 0"
      sample_chubby "sample_lock ''7'' ''EXCLUSIVE''"]
  show ?thesis by (auto simp: sample_run_def after_call_def kill_server_def smap_keys_def)
qed

lemma stored_locks_were_asked_for_witness:
  "\<exists>x' t a req. service_run mem_env sample_run sample_locks = Some x' \<and>
     node (paxos x') ''127.0.0.1:50053'' = Some t \<and> store mem_env (paxos_db t) ''a'' = Some ''EXCLUSIVE'' \<and>
     Acquire_call a req \<in> set sample_run \<and> ''a'' = lq_path req"
proof -
  obtain x' t where run: "service_run mem_env sample_run sample_locks = Some x'"
    "node (paxos x') ''127.0.0.1:50053'' = Some t" "store mem_env (paxos_db t) ''a'' = Some ''EXCLUSIVE''"
    using sample_run_ends by blast
  have slots: "\<forall>b s. node (paxos sample_locks) b = Some s \<longrightarrow> slots s = []"
    and empty: "\<And>b s. node (paxos sample_locks) b = Some s \<Longrightarrow> store mem_env (paxos_db s) ''a'' = None"
    by (auto simp: node_def sample_locks_def sample_cell_def store_def split: if_splits)
  have locks: "\<forall>b ch. map_of (chubbies sample_locks) b = Some ch \<longrightarrow> client_lock_map ch = []"
    by (auto simp: sample_locks_def split: if_splits)
  have paths: "\<forall>(path, mode) \<in> wanted_locks sample_run. CHR ''#'' \<notin> set path"
    by (auto simp: wanted_locks_def sample_run_def)
  from stored_locks_were_asked_for [OF mem_env_ok(1) mem_env_sel(5) slots locks paths run] empty
  have "\<exists>a req. Acquire_call a req \<in> set sample_run \<and> ''a'' = lq_path req"
    by (auto simp: sample_run_def)
  with run show ?thesis by blast
qed

end
