(* ===== verification/Performance.thy ===== *)
theory Performance
  imports Complex_Main Client "HOL-Library.Multiset"
begin

text \<open>
  The benchmark src/client/performance.cpp: client threads that send lock requests and count them
  in shared atomic counters, and the two figures made from the counters.  A thread's effect on the
  counters is the list of its atomic updates; the updates of the threads interleave in any way.
  The counters wrap around at their width; \<open>double\<close> is \<open>real\<close>.
\<close>

section \<open>The counters\<close>

record perf_metrics =
  total_requests :: int
  successful_requests :: int
  total_latency_ns :: int

definition no_metrics :: perf_metrics where
  "no_metrics = \<lparr>total_requests = 0, successful_requests = 0, total_latency_ns = 0\<rparr>"

datatype update = Add_latency int | Count_success | Count_request

primrec apply_update :: "update \<Rightarrow> perf_metrics \<Rightarrow> perf_metrics" where
  "apply_update (Add_latency ns) m = m\<lparr>total_latency_ns := to_int64 (total_latency_ns m + ns)\<rparr>"
| "apply_update Count_success m = m\<lparr>successful_requests := to_int32 (successful_requests m + 1)\<rparr>"
| "apply_update Count_request m = m\<lparr>total_requests := to_int32 (total_requests m + 1)\<rparr>"

text \<open>A random string of the length of \<open>draws\<close>, the positions drawn; the function has no caller.\<close>

definition characters :: string where
  "characters = ''abcdefghijklmnopqrstuvwxyzABCDEFGHIJKLMNOPQRSTUVWXYZ0123456789''"

definition generate_random_string :: "nat list \<Rightarrow> string" where
  "generate_random_string draws = foldl (\<lambda>random_string d. random_string @ [characters ! d]) [] draws"

section \<open>The program\<close>

text \<open>
  The thread that keeps the session of a client alive: it calls \<open>send_keep_alive\<close> for ever, whatever
  the call returns.
\<close>

partial_function (option) keep_alive_thread ::
  "'w world \<Rightarrow> client_lib \<Rightarrow> 'w \<Rightarrow> (int result \<times> client_lib \<times> 'w) option" where
  "keep_alive_thread W cl w =
     (case send_keep_alive W cl w of
        None \<Rightarrow> None
      | Some (r, cl', w') \<Rightarrow> (if is_Ok r then keep_alive_thread W cl' w' else Some (r, cl', w')))"

declare keep_alive_thread.simps [code]

text \<open>Only an exception or a call that never returns ends it.\<close>

lemma keep_alive_thread_ends:
  assumes "keep_alive_thread W cl w = Some (r, cl', w')"
  shows "\<not> is_Ok r"
proof -
  have "\<not> is_Ok (fst (r, cl', w'))"
    apply (rule keep_alive_thread.raw_induct [where P = "\<lambda>W cl w y. \<not> is_Ok (fst y)", OF _ assms])
    subgoal premises prems for rec W cl w y
      using prems(2) by (auto split: option.splits prod.splits if_splits dest!: prems(1))
    done
  then show ?thesis by simp
qed

text \<open>The arguments of \<open>main\<close>: requests per client, clients, configuration file.\<close>

definition perf_arguments :: "string list \<Rightarrow> (exn + int) \<times> (exn + int) \<times> string" where
  "perf_arguments argv =
     (if 2 \<le> length argv then atoi (argv ! 1) else Inr 100000,
      if 3 \<le> length argv then atoi (argv ! 2) else Inr 8,
      if 4 \<le> length argv then argv ! 3 else ''3.config'')"

text \<open>
  A client as \<open>main\<close> makes it: what \<open>chubby_init\<close> returns is not looked at, and the id is drawn from
  1 to 1024.  \<open>config_file\<close> holds the lines of the file, \<open>None\<close> when it cannot be opened.
\<close>

definition perf_client ::
  "string list option \<Rightarrow> (string \<Rightarrow> bool) \<Rightarrow> int \<Rightarrow> int \<Rightarrow> int \<Rightarrow> client_lib" where
  "perf_client config_file reachable current_time raw_id drawn =
     (snd (chubby_init config_file reachable current_time (ClientLib_new raw_id)))\<lparr>client_id := drawn\<rparr>"

text \<open>Without its configuration file the benchmark goes on: every request ends at once, unsent.\<close>

lemma benchmark_without_config:
  assumes "w_clock W w = (t, w1)" "0 \<le> t"
  shows "chubby_lock W path mode (perf_client None reachable now raw_id drawn) w =
    (Ok (- 3), perf_client None reachable now raw_id drawn, w1)"
  using assms by (simp add: chubby_lock_def perf_client_def chubby_init_def ClientLib_new_def)

section \<open>A client thread\<close>

text \<open>
  One request: \<open>now\<close> reads the clock in nanoseconds, \<open>d\<close> is the number drawn for the path.  A call
  that raises or does not return ends the thread, without an update.
\<close>

definition send_request ::
  "'w world \<Rightarrow> ('w \<Rightarrow> int \<times> 'w) \<Rightarrow> int \<Rightarrow> client_lib \<Rightarrow> 'w \<Rightarrow> (update list \<times> client_lib \<times> 'w) option" where
  "send_request W now d cl w =
     (case now w of
        (start_time, w1) \<Rightarrow>
          (case chubby_lock W (''tmp/'' @ to_string d) ''SHARED'' cl w1 of
             (Ok response, cl', w2) \<Rightarrow>
               (case now w2 of
                  (end_time, w3) \<Rightarrow>
                    Some (Add_latency (end_time - start_time) #
                            (if response = 0 then [Count_success] else []) @ [Count_request], cl', w3))
           | _ \<Rightarrow> None))"

text \<open>\<open>send_requests\<close>: one number drawn per request.\<close>

fun send_requests ::
  "'w world \<Rightarrow> ('w \<Rightarrow> int \<times> 'w) \<Rightarrow> int list \<Rightarrow> client_lib \<Rightarrow> 'w \<Rightarrow> update list option" where
  "send_requests W now [] cl w = Some []"
| "send_requests W now (d # ds) cl w =
     (case send_request W now d cl w of
        None \<Rightarrow> None
      | Some (us, cl', w') \<Rightarrow> map_option ((@) us) (send_requests W now ds cl' w'))"

section \<open>The threads together\<close>

inductive interleaved :: "'a list list \<Rightarrow> 'a list \<Rightarrow> bool" where
  all_done: "\<forall>us \<in> set uss. us = [] \<Longrightarrow> interleaved uss []"
| one_moves: "i < length uss \<Longrightarrow> uss ! i = u # us \<Longrightarrow> interleaved (uss[i := us]) vs \<Longrightarrow>
     interleaved uss (u # vs)"

definition count_updates :: "update list \<Rightarrow> perf_metrics" where
  "count_updates us = foldl (\<lambda>m u. apply_update u m) no_metrics us"

text \<open>The figures printed by \<open>run_performance_test\<close>.\<close>

definition failed_requests :: "perf_metrics \<Rightarrow> int" where
  "failed_requests m = to_int32 (total_requests m - successful_requests m)"

definition throughput :: "perf_metrics \<Rightarrow> real" where
  "throughput m = of_int (total_requests m) / (of_int (total_latency_ns m) / 10 ^ 9)"

definition average_latency_ms :: "perf_metrics \<Rightarrow> real" where
  "average_latency_ms m = (of_int (total_latency_ns m) / 10 ^ 6) / of_int (total_requests m)"

section \<open>What the counters hold\<close>

text \<open>The updates commute, so that the counters hold what the threads have counted together.\<close>

definition metrics_of :: "update multiset \<Rightarrow> perf_metrics" where
  "metrics_of M =
     \<lparr>total_requests = to_int32 (int (count M Count_request)),
      successful_requests = to_int32 (int (count M Count_success)),
      total_latency_ns = to_int64 (\<Sum>u \<in># M. case u of Add_latency ns \<Rightarrow> ns | _ \<Rightarrow> 0)\<rparr>"

lemma to_int_add:
  "to_int32 (y + to_int32 x) = to_int32 (y + x)" "to_int64 (y + to_int64 x) = to_int64 (y + x)"
  using signed_take_bit_add [of 31 y "signed_take_bit 31 x"] signed_take_bit_add [of 31 y x]
    signed_take_bit_add [of 63 y "signed_take_bit 63 x"] signed_take_bit_add [of 63 y x]
  by (simp_all add: to_int32_def to_int64_def)

lemma apply_update_metrics: "apply_update u (metrics_of M) = metrics_of (add_mset u M)"
  by (cases u) (simp_all add: metrics_of_def to_int_add add.commute [of _ 1] add.commute [of "to_int64 _"])

lemma count_updates_mset: "count_updates us = metrics_of (mset us)"
proof -
  have "foldl (\<lambda>m u. apply_update u m) (metrics_of M) us = metrics_of (M + mset us)" for M
    by (induction us arbitrary: M) (simp_all add: apply_update_metrics)
  from this [of "{#}"] show ?thesis by (simp add: count_updates_def no_metrics_def metrics_of_def in_int64_def)
qed

lemma interleaved_mset: "interleaved uss us \<Longrightarrow> mset us = (\<Sum>vs \<leftarrow> uss. mset vs)"
proof (induction rule: interleaved.induct)
  case (all_done uss)
  then show ?case by (induction uss) auto
next
  case (one_moves i uss u us vs)
  have "(\<Sum>vs \<leftarrow> uss. mset vs) = mset (uss ! i) + (\<Sum>vs \<leftarrow> take i uss @ drop (Suc i) uss. mset vs)"
    using one_moves(1) by (subst id_take_nth_drop [OF one_moves(1)]) simp
  moreover have "(\<Sum>vs \<leftarrow> uss[i := us]. mset vs) = mset us + (\<Sum>vs \<leftarrow> take i uss @ drop (Suc i) uss. mset vs)"
    using one_moves(1) by (simp add: upd_conv_take_nth_drop)
  ultimately show ?case using one_moves(2,4) by simp
qed

lemma send_requests_count:
  "send_requests W now ds cl w = Some us \<Longrightarrow>
   count (mset us) Count_request = length ds \<and> count (mset us) Count_success \<le> length ds"
proof (induction W now ds cl w arbitrary: us rule: send_requests.induct)
  case (2 W now d ds cl w)
  then obtain vs cl' w' ws where s: "send_request W now d cl w = Some (vs, cl', w')"
    "send_requests W now ds cl' w' = Some ws" "us = vs @ ws"
    by (auto split: option.splits)
  have "count (mset vs) Count_request = 1 \<and> count (mset vs) Count_success \<le> 1"
    using s(1) by (auto simp: send_request_def split: prod.splits result.splits)
  with "2.IH" [OF s(1) refl refl s(2)] s(3) show ?case by auto
qed simp

section \<open>Properties\<close>

text \<open>
  What the benchmark reports.  However the atomic updates of the client threads interleave, when
  all of them have come to their end \<open>total_requests\<close> is the number of requests sent by all clients
  and \<open>successful_requests\<close> is not above it; and the throughput printed is one thousand divided by
  the average latency printed, since both are made from the sum of the latencies of all threads: it
  does not depend on how many of them ran at the same time.
\<close>
theorem benchmark_figures:
  assumes "interleaved uss us"
    and "\<forall>vs \<in> set uss. \<exists>W now ds cl w. send_requests W now ds cl (w :: 'w) = Some vs \<and> length ds = n"
    and "0 < n" "uss \<noteq> []" "int (length uss) * int n < 2 ^ 31" "total_latency_ns (count_updates us) \<noteq> 0"
  shows "total_requests (count_updates us) = int (length uss) * int n \<and>
    successful_requests (count_updates us) \<le> total_requests (count_updates us) \<and>
    throughput (count_updates us) = 1000 / average_latency_ms (count_updates us)"
proof -
  have c: "count (\<Sum>vs \<leftarrow> xss. mset vs) Count_request = length xss * n \<and>
      count (\<Sum>vs \<leftarrow> xss. mset vs) Count_success \<le> length xss * n"
    if "\<forall>vs \<in> set xss. \<exists>W now ds cl w. send_requests W now ds cl (w :: 'w) = Some vs \<and> length ds = n" for xss
    using that by (induction xss) (auto dest!: send_requests_count)
  define k where "k = count (mset us) Count_success"
  have k: "count (mset us) Count_request = length uss * n" "int k \<le> int (length uss) * int n"
    using c [OF assms(2)] by (simp_all add: k_def interleaved_mset [OF assms(1)] flip: of_nat_mult)
  have "in_int32 (int (length uss) * int n)" using assms(5) by (simp add: in_int32_def order_trans [of _ 0])
  moreover have "in_int32 (int k)" using k(2) assms(5) by (simp add: in_int32_def order_trans [of _ 0])
  ultimately have tot: "total_requests (count_updates us) = int (length uss) * int n"
    "successful_requests (count_updates us) \<le> int (length uss) * int n"
    using k by (simp_all add: count_updates_mset metrics_of_def flip: k_def)
  moreover have "total_requests (count_updates us) \<noteq> 0" using tot(1) assms(3,4) by simp
  ultimately show ?thesis using assms(6) by (simp add: throughput_def average_latency_ms_def field_simps)
qed

lemma benchmark_figures_witness:
  "let m = count_updates [Add_latency 1000000000, Add_latency 1000000000, Count_request, Count_request]
   in total_requests m = 2 \<and> throughput m = 1000 / average_latency_ms m"
proof -
  have req: "send_requests dead_world (\<lambda>t. (t * 1000000000, t)) [3] sample_client 50 =
      Some [Add_latency 1000000000, Count_request]"
    by (simp add: send_request_def chubby_lock_def sample_client_defs)
  have il: "interleaved [[Add_latency 1000000000, Count_request], [Add_latency 1000000000, Count_request]]
      [Add_latency 1000000000, Add_latency 1000000000, Count_request, Count_request]"
    by (rule one_moves [of 0], simp, simp, simp, rule one_moves [of 1], simp, simp, simp,
        rule one_moves [of 0], simp, simp, simp, rule one_moves [of 1], simp, simp, simp,
        rule all_done, simp)
  have lat: "total_latency_ns (count_updates [Add_latency 1000000000, Add_latency 1000000000,
      Count_request, Count_request]) \<noteq> 0"
    by (simp add: count_updates_def no_metrics_def in_int64_def)
  have "\<forall>vs \<in> set [[Add_latency 1000000000, Count_request], [Add_latency 1000000000, Count_request]].
      \<exists>W now ds cl w. send_requests W now ds cl (w :: int) = Some vs \<and> length ds = 1"
    using req by (auto intro!: exI [of _ dead_world] exI [of _ "\<lambda>t. (t * 1000000000, t)"]
        exI [of _ "[3]"] exI [of _ sample_client] exI [of _ "50 :: int"])
  from benchmark_figures [OF il this _ _ _ lat] show ?thesis by (simp add: Let_def)
qed

end
