(* ===== verification/ThreadPool.thy ===== *)
theory ThreadPool
  imports Prelude "HOL-Library.Multiset"
begin

text \<open>
  \<open>ThreadPool\<close> (src/common/thread_pool.cc): worker threads that take tasks from one queue until
  the pool is stopped and the queue is empty.  The steps are the critical sections of
  \<open>enqueue\<close>, of \<open>worker_thread\<close> and of the destructor, each atomic under \<open>queue_mutex\<close>; which
  thread moves next is not determined.  A task is any value of the type \<open>'t\<close>; running it has no
  effect on the pool.
\<close>

section \<open>The queue\<close>

locale fifo =
  fixes empty :: "'q"
    and push :: "'t \<Rightarrow> 'q \<Rightarrow> 'q"
    and front :: "'q \<Rightarrow> 't"
    and pop :: "'q \<Rightarrow> 'q"
    and is_empty :: "'q \<Rightarrow> bool"
    and contents :: "'q \<Rightarrow> 't list"
  assumes contents_empty: "contents empty = []"
    and contents_push: "contents (push x q) = contents q @ [x]"
    and contents_pop: "\<not> is_empty q \<Longrightarrow> contents q = front q # contents (pop q)"
    and is_empty_contents: "is_empty q \<longleftrightarrow> contents q = []"
begin

lemma pushed_then_popped:
  "contents q = [] \<Longrightarrow> front (push x q) = x \<and> contents (pop (push x q)) = []"
  using contents_pop [of "push x q"] by (simp add: is_empty_contents contents_push)

text \<open>What has been taken, followed by what is queued, grows only at its end.\<close>

lemma taken_push: "taken @ contents (push x q) = (taken @ contents q) @ [x]"
  by (simp add: contents_push)

lemma taken_pop: "\<not> is_empty q \<Longrightarrow> (taken @ [front q]) @ contents (pop q) = taken @ contents q"
  by (simp add: contents_pop)

end

text \<open>\<open>std::queue\<close>: a list, front first.\<close>

type_synonym 't queue = "'t list"

definition queue_push :: "'t \<Rightarrow> 't queue \<Rightarrow> 't queue" where
  "queue_push x q = q @ [x]"

definition queue_pop :: "'t queue \<Rightarrow> 't queue" where
  "queue_pop q = tl q"

interpretation tq: fifo "[]" queue_push hd queue_pop List.null "\<lambda>q. q"
  by unfold_locales (auto simp: queue_push_def queue_pop_def)

section \<open>The pool\<close>

datatype 't worker = Waiting | Running 't | Exited

text \<open>
  \<open>accepted\<close>, \<open>started\<close> and \<open>finished\<close> record the tasks given to \<open>enqueue\<close>, taken by a worker
  and run to their end; \<open>late\<close> that \<open>enqueue\<close> was called after \<open>stop\<close> was set.  The code has no
  such fields.
\<close>

record 't pool =
  tasks :: "'t queue"
  stop :: bool
  workers :: "'t worker list"
  accepted :: "'t list"
  started :: "'t list"
  finished :: "'t list"
  late :: bool

definition ThreadPool_new :: "nat \<Rightarrow> 't pool" where
  "ThreadPool_new num_threads =
     \<lparr>tasks = [], stop = False, workers = replicate num_threads Waiting,
      accepted = [], started = [], finished = [], late = False\<rparr>"

definition enqueue :: "'t \<Rightarrow> 't pool \<Rightarrow> 't pool" where
  "enqueue task p =
     p\<lparr>tasks := queue_push task (tasks p), accepted := accepted p @ [task], late := (late p \<or> stop p)\<rparr>"

definition shut_down :: "'t pool \<Rightarrow> 't pool" where
  "shut_down p = p\<lparr>stop := True\<rparr>"

text \<open>The predicate worker threads wait for, and what a woken worker does.\<close>

definition worker_ready :: "'t pool \<Rightarrow> bool" where
  "worker_ready p \<longleftrightarrow> stop p \<or> \<not> List.null (tasks p)"

definition worker_wakes :: "nat \<Rightarrow> 't pool \<Rightarrow> 't pool" where
  "worker_wakes i p =
     (if stop p \<and> List.null (tasks p) then p\<lparr>workers := (workers p)[i := Exited]\<rparr>
      else p\<lparr>workers := (workers p)[i := Running (hd (tasks p))], tasks := queue_pop (tasks p),
             started := started p @ [hd (tasks p)]\<rparr>)"

definition worker_done :: "nat \<Rightarrow> 't \<Rightarrow> 't pool \<Rightarrow> 't pool" where
  "worker_done i t p = p\<lparr>workers := (workers p)[i := Waiting], finished := finished p @ [t]\<rparr>"

inductive worker_step :: "'t pool \<Rightarrow> 't pool \<Rightarrow> bool" where
  step_wake: "i < length (workers p) \<Longrightarrow> workers p ! i = Waiting \<Longrightarrow> worker_ready p \<Longrightarrow>
     worker_step p (worker_wakes i p)"
| step_done: "i < length (workers p) \<Longrightarrow> workers p ! i = Running t \<Longrightarrow>
     worker_step p (worker_done i t p)"

inductive pool_step :: "'t pool \<Rightarrow> 't pool \<Rightarrow> bool" where
  step_enqueue: "pool_step p (enqueue task p)"
| step_stop: "pool_step p (shut_down p)"
| step_worker: "worker_step p q \<Longrightarrow> pool_step p q"

inductive pool_reachable :: "nat \<Rightarrow> 't pool \<Rightarrow> bool" for n where
  reach_new: "pool_reachable n (ThreadPool_new n)"
| reach_step: "pool_reachable n p \<Longrightarrow> pool_step p q \<Longrightarrow> pool_reachable n q"

text \<open>The destructor's joins return when every worker has left its loop.\<close>

definition joined_all :: "'t pool \<Rightarrow> bool" where
  "joined_all p \<longleftrightarrow> (\<forall>w \<in> set (workers p). w = Exited)"

section \<open>The invariant\<close>

fun running :: "'t worker \<Rightarrow> 't list" where
  "running (Running t) = [t]"
| "running _ = []"

definition in_progress :: "'t pool \<Rightarrow> 't list" where
  "in_progress p = concat (map running (workers p))"

definition pool_inv :: "'t pool \<Rightarrow> bool" where
  "pool_inv p \<longleftrightarrow>
     accepted p = started p @ tasks p \<and>
     mset (started p) = mset (finished p) + mset (in_progress p) \<and>
     (\<forall>w \<in> set (workers p). w = Exited \<longrightarrow> stop p \<and> (tasks p = [] \<or> late p))"

lemma in_progress_update:
  "i < length ws \<Longrightarrow>
   mset (concat (map running (ws[i := w]))) + mset (running (ws ! i)) =
   mset (concat (map running ws)) + mset (running w)"
proof (induction ws arbitrary: i)
  case (Cons x ws)
  then show ?case by (cases i) (auto simp: ac_simps)
qed simp

lemma set_update_cases: "\<forall>w \<in> set ws. P w \<Longrightarrow> P x \<Longrightarrow> \<forall>w \<in> set (ws[i := x]). P w"
  using set_update_subset_insert [of ws i x] by blast

lemma pool_inv_new: "pool_inv (ThreadPool_new n)"
proof -
  have "concat (map running (replicate n Waiting)) = []" by (induction n) auto
  then show ?thesis by (auto simp: pool_inv_def ThreadPool_new_def in_progress_def)
qed

lemma pool_inv_wake:
  assumes inv: "pool_inv p" and i: "i < length (workers p)" "workers p ! i = Waiting"
    and ready: "worker_ready p"
  shows "pool_inv (worker_wakes i p)"
proof (cases "stop p \<and> List.null (tasks p)")
  case True
  then have "pool_inv (p\<lparr>workers := (workers p)[i := Exited]\<rparr>)"
    using inv i in_progress_update [OF i(1), of Exited]
    by (auto simp: pool_inv_def in_progress_def intro!: set_update_cases)
  with True show ?thesis by (simp add: worker_wakes_def)
next
  case False
  with ready have ne: "\<not> List.null (tasks p)" by (auto simp: worker_ready_def)
  then obtain t ts where t: "tasks p = t # ts" by (cases "tasks p") auto
  have "\<forall>w \<in> set ((workers p)[i := Running t]). w = Exited \<longrightarrow> stop p \<and> (ts = [] \<or> late p)"
    using inv t by (intro set_update_cases) (auto simp: pool_inv_def)
  then show ?thesis
    using inv i t False in_progress_update [OF i(1), of "Running t"]
    by (simp add: pool_inv_def in_progress_def worker_wakes_def queue_pop_def)
qed

lemma pool_inv_done:
  assumes "pool_inv p" "i < length (workers p)" "workers p ! i = Running t"
  shows "pool_inv (worker_done i t p)"
proof -
  have "\<forall>w \<in> set ((workers p)[i := Waiting]). w = Exited \<longrightarrow> stop p \<and> (tasks p = [] \<or> late p)"
    using assms(1) by (intro set_update_cases) (auto simp: pool_inv_def)
  then show ?thesis
    using assms in_progress_update [OF assms(2), of Waiting]
    by (simp add: pool_inv_def in_progress_def worker_done_def)
qed

lemma pool_inv_worker: "worker_step p q \<Longrightarrow> pool_inv p \<Longrightarrow> pool_inv q"
  by (induction rule: worker_step.induct) (auto intro: pool_inv_wake pool_inv_done)

lemma pool_inv_step: "pool_step p q \<Longrightarrow> pool_inv p \<Longrightarrow> pool_inv q"
proof (induction rule: pool_step.induct)
  case (step_enqueue p task)
  then show ?case by (simp add: pool_inv_def enqueue_def queue_push_def in_progress_def)
next
  case (step_stop p)
  then show ?case by (simp add: pool_inv_def shut_down_def in_progress_def)
next
  case (step_worker p q)
  then show ?case by (rule pool_inv_worker)
qed

lemma pool_reachable_inv: "pool_reachable n p \<Longrightarrow> pool_inv p"
  by (induction rule: pool_reachable.induct) (auto intro: pool_inv_new pool_inv_step)

inductive_cases worker_stepE: "worker_step p q"

lemma workers_worker_step: "worker_step p q \<Longrightarrow> length (workers q) = length (workers p)"
  by (auto elim!: worker_stepE simp: worker_wakes_def worker_done_def)

lemma workers_reachable: "pool_reachable n p \<Longrightarrow> length (workers p) = n"
proof (induction rule: pool_reachable.induct)
  case reach_new
  show ?case by (simp add: ThreadPool_new_def)
next
  case (reach_step p q)
  from reach_step(2,3) show ?case
    by (cases rule: pool_step.cases) (auto simp: enqueue_def shut_down_def workers_worker_step)
qed

lemma joined_in_progress: "joined_all p \<Longrightarrow> in_progress p = []"
  by (auto simp: joined_all_def in_progress_def)

section \<open>The work that is left\<close>

fun weight :: "'t worker \<Rightarrow> nat" where
  "weight Exited = 0"
| "weight Waiting = 1"
| "weight (Running t) = 2"

definition work_left :: "'t pool \<Rightarrow> nat" where
  "work_left p = 3 * length (tasks p) + sum_list (map weight (workers p))"

lemma weight_update:
  "i < length ws \<Longrightarrow>
   sum_list (map weight (ws[i := w])) + weight (ws ! i) = sum_list (map weight ws) + weight w"
proof (induction ws arbitrary: i)
  case (Cons x ws)
  then show ?case by (cases i) auto
qed simp

lemma worker_step_work: "worker_step p q \<Longrightarrow> work_left q < work_left p"
proof (induction rule: worker_step.induct)
  case (step_wake i p)
  show ?case
  proof (cases "stop p \<and> List.null (tasks p)")
    case True
    then show ?thesis
      using step_wake weight_update [of i "workers p" Exited] by (simp add: worker_wakes_def work_left_def)
  next
    case False
    with step_wake obtain t ts where "tasks p = t # ts"
      by (cases "tasks p") (auto simp: worker_ready_def)
    with False show ?thesis
      using step_wake weight_update [of i "workers p" "Running t"]
      by (simp add: worker_wakes_def work_left_def queue_pop_def)
  qed
next
  case (step_done i p t)
  then show ?case
    using weight_update [of i "workers p" Waiting] by (simp add: worker_done_def work_left_def)
qed

section \<open>Properties\<close>

text \<open>
  C26: no task is lost.  When the destructor's joins have returned and no task was enqueued after
  \<open>stop\<close>, every task that \<open>enqueue\<close> has taken was started, in the order of the calls, and has run to
  its end, each as often as it was enqueued.
\<close>
theorem pool_runs_every_task:
  assumes "pool_reachable n p" "0 < n" "joined_all p" "\<not> late p"
  shows "started p = accepted p \<and> mset (finished p) = mset (accepted p)"
proof -
  have inv: "pool_inv p" using assms(1) by (rule pool_reachable_inv)
  have "workers p \<noteq> []" using workers_reachable [OF assms(1)] assms(2) by auto
  then obtain w where "w \<in> set (workers p)" by (cases "workers p") auto
  with assms(3,4) inv have "tasks p = []" by (auto simp: joined_all_def pool_inv_def)
  with inv joined_in_progress [OF assms(3)] show ?thesis by (simp add: pool_inv_def)
qed

definition drained_pool :: "nat pool" where
  "drained_pool =
     worker_wakes 0 (shut_down (worker_done 0 7 (worker_wakes 0 (enqueue 7 (ThreadPool_new 1)))))"

lemma drained_pool_reachable: "pool_reachable 1 drained_pool"
proof -
  let ?p1 = "enqueue 7 (ThreadPool_new 1) :: nat pool"
  let ?p2 = "worker_wakes 0 ?p1" and ?p4 = "shut_down (worker_done 0 7 (worker_wakes 0 ?p1))"
  have "worker_step ?p1 ?p2"
    by (rule step_wake) (simp_all add: enqueue_def ThreadPool_new_def worker_ready_def queue_push_def)
  moreover have "worker_step ?p2 (worker_done 0 7 ?p2)"
    by (rule step_done) (simp_all add: enqueue_def ThreadPool_new_def worker_wakes_def queue_push_def)
  moreover have "worker_step ?p4 (worker_wakes 0 ?p4)"
    by (rule step_wake) (simp_all add: enqueue_def ThreadPool_new_def worker_ready_def worker_wakes_def
        worker_done_def shut_down_def queue_push_def)
  ultimately show ?thesis
    unfolding drained_pool_def by (meson reach_new reach_step step_enqueue step_stop step_worker)
qed

lemma pool_runs_every_task_witness: "mset (finished drained_pool) = {#7#}"
proof -
  have "joined_all drained_pool \<and> \<not> late drained_pool \<and> accepted drained_pool = [7]" by code_simp
  with pool_runs_every_task [OF drained_pool_reachable] show ?thesis by simp
qed

text \<open>
  The pool shuts down.  Once \<open>stop\<close> is set and as long as a worker has not left, some worker can
  move; and every move of a worker uses up some of the work that is left, a natural number, so that
  the joins of the destructor return.
\<close>
theorem pool_shuts_down:
  "(stop p \<and> \<not> joined_all p \<longrightarrow> (\<exists>q. worker_step p q)) \<and>
   (worker_step p q \<longrightarrow> work_left q < work_left p)"
proof (intro conjI impI)
  assume "stop p \<and> \<not> joined_all p"
  then obtain i where i: "stop p" "i < length (workers p)" "workers p ! i \<noteq> Exited"
    by (auto simp: joined_all_def in_set_conv_nth)
  show "\<exists>q. worker_step p q"
  proof (cases "workers p ! i")
    case Waiting
    with i show ?thesis using step_wake [of i p] by (auto simp: worker_ready_def)
  next
    case (Running t)
    with i show ?thesis using step_done [of i p t] by auto
  qed (use i in simp)
qed (rule worker_step_work)

lemma pool_shuts_down_witness:
  "work_left (worker_wakes 0 (shut_down (ThreadPool_new 1 :: nat pool))) < work_left (shut_down (ThreadPool_new 1 :: nat pool))"
proof -
  have "worker_step (shut_down (ThreadPool_new 1 :: nat pool)) (worker_wakes 0 (shut_down (ThreadPool_new 1)))"
    by (rule step_wake) (simp_all add: shut_down_def ThreadPool_new_def worker_ready_def)
  with pool_shuts_down [of "shut_down (ThreadPool_new 1 :: nat pool)"] show ?thesis by blast
qed

end
