(* ===== verification/LockOrder.thy ===== *)
theory LockOrder
  imports Prelude
begin

text \<open>
  The order in which the handlers of \<open>PaxosImpl\<close> take the server's mutex \<open>mu\<close> and the mutex
  \<open>mu_\<close> of a slot, and what follows for threads that run them side by side.  A thread is the list
  of lock and unlock actions of its handler; a step is one action of one thread; an acquisition
  waits while any thread holds the mutex.
\<close>

datatype mutex = Mu | SlotMu int

datatype action = Acq mutex | Rel mutex

section \<open>The footprints of the handlers\<close>

text \<open>The paths that reach the slot; the early returns take and release \<open>mu\<close> only.\<close>

definition Elect_locks :: "action list" where
  "Elect_locks = [Acq Mu, Rel Mu]"

definition Prepare_locks :: "int \<Rightarrow> action list" where
  "Prepare_locks seq = [Acq Mu, Rel Mu, Acq (SlotMu seq), Rel (SlotMu seq)]"

definition Accept_locks :: "int \<Rightarrow> action list" where
  "Accept_locks seq =
     [Acq Mu, Rel Mu, Acq (SlotMu seq), Acq Mu, Rel Mu, Rel (SlotMu seq)]"

definition Learn_locks :: "int \<Rightarrow> action list" where
  "Learn_locks seq = [Acq Mu, Rel Mu, Acq (SlotMu seq), Rel (SlotMu seq)]"

definition Heartbeat_locks :: "int list \<Rightarrow> action list" where
  "Heartbeat_locks seqs =
     [Acq Mu] @ concat (map (\<lambda>q. [Acq (SlotMu q), Rel (SlotMu q)]) seqs) @ [Rel Mu]"

section \<open>Threads\<close>

record threads =
  owner :: "mutex \<Rightarrow> nat option"
  todo :: "action list list"

definition start_threads :: "action list list \<Rightarrow> threads" where
  "start_threads ps = \<lparr>owner = (\<lambda>_. None), todo = ps\<rparr>"

inductive lock_step :: "threads \<Rightarrow> threads \<Rightarrow> bool" where
  acquire: "i < length (todo s) \<Longrightarrow> todo s ! i = Acq l # rest \<Longrightarrow> owner s l = None \<Longrightarrow>
     lock_step s \<lparr>owner = (owner s)(l := Some i), todo = (todo s)[i := rest]\<rparr>"
| release: "i < length (todo s) \<Longrightarrow> todo s ! i = Rel l # rest \<Longrightarrow> owner s l = Some i \<Longrightarrow>
     lock_step s \<lparr>owner = (owner s)(l := None), todo = (todo s)[i := rest]\<rparr>"

inductive lock_steps :: "threads \<Rightarrow> threads \<Rightarrow> bool" where
  none: "lock_steps s s"
| more: "lock_steps s t \<Longrightarrow> lock_step t u \<Longrightarrow> lock_steps s u"

definition all_done :: "threads \<Rightarrow> bool" where
  "all_done s \<longleftrightarrow> (\<forall>p \<in> set (todo s). p = [])"

definition deadlocked :: "threads \<Rightarrow> bool" where
  "deadlocked s \<longleftrightarrow> \<not> all_done s \<and> (\<forall>t. \<not> lock_step s t)"

section \<open>The discipline that excludes deadlock\<close>

fun rank :: "mutex \<Rightarrow> nat" where
  "rank Mu = 0"
| "rank (SlotMu _) = 1"

text \<open>
  \<open>ordered H p\<close>: a thread that holds the mutexes \<open>H\<close> and still has to do \<open>p\<close> acquires a mutex
  only above all it holds, releases what it holds, and ends holding nothing.
\<close>

fun ordered :: "mutex set \<Rightarrow> action list \<Rightarrow> bool" where
  "ordered H [] \<longleftrightarrow> H = {}"
| "ordered H (Acq l # p) \<longleftrightarrow> (\<forall>h \<in> H. rank h < rank l) \<and> ordered (insert l H) p"
| "ordered H (Rel l # p) \<longleftrightarrow> l \<in> H \<and> ordered (H - {l}) p"

definition held :: "threads \<Rightarrow> nat \<Rightarrow> mutex set" where
  "held s i = {l. owner s l = Some i}"

definition disciplined :: "threads \<Rightarrow> bool" where
  "disciplined s \<longleftrightarrow>
     (\<forall>i < length (todo s). ordered (held s i) (todo s ! i)) \<and>
     (\<forall>l i. owner s l = Some i \<longrightarrow> i < length (todo s))"

lemma disciplined_start: "\<forall>p \<in> set ps. ordered {} p \<Longrightarrow> disciplined (start_threads ps)"
  by (auto simp: disciplined_def start_threads_def held_def)

lemma disciplined_step: "lock_step s t \<Longrightarrow> disciplined s \<Longrightarrow> disciplined t"
proof (induction rule: lock_step.induct)
  case (acquire i s l rest)
  let ?t = "\<lparr>owner = (owner s)(l := Some i), todo = (todo s)[i := rest]\<rparr>"
  have "held ?t j = (if j = i then insert l (held s i) else held s j)" for j
    using acquire.hyps(3) by (auto simp: held_def)
  moreover have "ordered (held s i) (Acq l # rest)"
    using acquire.prems acquire.hyps(1,2) unfolding disciplined_def by metis
  then have "ordered (insert l (held s i)) rest" by simp
  ultimately show ?case
    using acquire by (auto simp: disciplined_def nth_list_update)
next
  case (release i s l rest)
  let ?t = "\<lparr>owner = (owner s)(l := None), todo = (todo s)[i := rest]\<rparr>"
  have "held ?t j = (if j = i then held s i - {l} else held s j)" for j
    using release.hyps(3) by (auto simp: held_def)
  moreover have "ordered (held s i) (Rel l # rest)"
    using release.prems release.hyps(1,2) unfolding disciplined_def by metis
  then have "ordered (held s i - {l}) rest" by simp
  ultimately show ?case
    using release by (auto simp: disciplined_def nth_list_update)
qed

lemma disciplined_steps: "lock_steps s t \<Longrightarrow> disciplined s \<Longrightarrow> disciplined t"
  by (induction rule: lock_steps.induct) (auto intro: disciplined_step)

text \<open>A thread that holds a slot's mutex is never waiting; so whoever holds \<open>mu\<close> is not either.\<close>

lemma slot_holder_moves:
  assumes d: "disciplined s" and o: "owner s (SlotMu q) = Some i"
  shows "\<exists>t. lock_step s t"
proof -
  have i: "i < length (todo s)" "ordered (held s i) (todo s ! i)" "SlotMu q \<in> held s i"
    using d o by (auto simp: disciplined_def held_def)
  obtain l p where "todo s ! i = Rel l # p" "owner s l = Some i"
  proof (cases "todo s ! i")
    case Nil
    with i show ?thesis by simp
  next
    case (Cons x p)
    show ?thesis
    proof (cases x)
      case (Acq l)
      with Cons i have "rank (SlotMu q) < rank l" by auto
      then show ?thesis by (cases l) auto
    next
      case (Rel l)
      with Cons i have "owner s l = Some i" by (auto simp: held_def)
      with Cons Rel that show ?thesis by simp
    qed
  qed
  from lock_step.release [OF i(1) this] show ?thesis by (rule exI)
qed

lemma mu_holder_moves:
  assumes d: "disciplined s" and o: "owner s Mu = Some i"
  shows "\<exists>t. lock_step s t"
proof -
  have i: "i < length (todo s)" "ordered (held s i) (todo s ! i)" "Mu \<in> held s i"
    using d o by (auto simp: disciplined_def held_def)
  show ?thesis
  proof (cases "todo s ! i")
    case Nil
    with i show ?thesis by simp
  next
    case (Cons x p)
    show ?thesis
    proof (cases x)
      case (Rel l)
      with Cons i have "owner s l = Some i" by (auto simp: held_def)
      with Cons i(1) Rel show ?thesis using lock_step.release [of i s l p] by auto
    next
      case (Acq l)
      with Cons i have "rank Mu < rank l" by auto
      then obtain q where l: "l = SlotMu q" by (cases l) auto
      show ?thesis
      proof (cases "owner s l")
        case None
        with Cons Acq i(1) show ?thesis using lock_step.acquire [of i s l p] by auto
      next
        case (Some j)
        with l d show ?thesis by (auto intro: slot_holder_moves)
      qed
    qed
  qed
qed

lemma disciplined_progress: "disciplined s \<Longrightarrow> \<not> deadlocked s"
proof
  assume d: "disciplined s" and dl: "deadlocked s"
  from dl obtain i where i: "i < length (todo s)" "todo s ! i \<noteq> []"
    by (auto simp: deadlocked_def all_done_def in_set_conv_nth)
  have stuck: "\<not> lock_step s t" for t using dl by (simp add: deadlocked_def)
  obtain x p where x: "todo s ! i = x # p" using i(2) by (cases "todo s ! i") auto
  show False
  proof (cases x)
    case (Rel l)
    with d i x have "owner s l = Some i" by (fastforce simp: disciplined_def held_def)
    with Rel i x stuck show False using lock_step.release [of i s l p] by auto
  next
    case (Acq l)
    show False
    proof (cases "owner s l")
      case None
      with Acq i x stuck show False using lock_step.acquire [of i s l p] by auto
    next
      case (Some j)
      with d stuck show False
        by (cases l) (auto dest: mu_holder_moves slot_holder_moves)
    qed
  qed
qed

section \<open>Which handlers keep to it\<close>

lemma ordered_Elect: "ordered {} Elect_locks"
  by (simp add: Elect_locks_def)

lemma ordered_Prepare: "ordered {} (Prepare_locks q)"
  by (simp add: Prepare_locks_def)

lemma ordered_Learn: "ordered {} (Learn_locks q)"
  by (simp add: Learn_locks_def)

lemma ordered_slots:
  "ordered {Mu} (concat (map (\<lambda>q. [Acq (SlotMu q), Rel (SlotMu q)]) seqs) @ [Rel Mu])"
proof (induction seqs)
  case (Cons q seqs)
  have "insert (SlotMu q) {Mu} - {SlotMu q} = {Mu}" by auto
  with Cons show ?case by simp
qed simp

lemma ordered_Heartbeat: "ordered {} (Heartbeat_locks seqs)"
  using ordered_slots [of seqs] by (simp add: Heartbeat_locks_def)

lemma not_ordered_Accept: "\<not> ordered {} (Accept_locks q)"
  by (simp add: Accept_locks_def)

section \<open>Properties\<close>

text \<open>
  C27: \<open>Elect\<close>, \<open>Prepare\<close>, \<open>Learn\<close> and \<open>Heartbeat\<close> never deadlock among themselves: any number of
  them, on any slots, run side by side in any interleaving, never reach a state in which a handler is
  unfinished and none can move.
\<close>
theorem handlers_without_accept_never_deadlock:
  assumes "\<forall>p \<in> set ps. p = Elect_locks \<or> (\<exists>q. p = Prepare_locks q) \<or> (\<exists>q. p = Learn_locks q) \<or>
      (\<exists>qs. p = Heartbeat_locks qs)"
    and "lock_steps (start_threads ps) s"
  shows "\<not> deadlocked s"
proof -
  have "\<forall>p \<in> set ps. ordered {} p"
    using assms(1) by (auto simp: ordered_Elect ordered_Prepare ordered_Learn ordered_Heartbeat)
  from disciplined_steps [OF assms(2) disciplined_start [OF this]] show ?thesis
    by (rule disciplined_progress)
qed

lemma handlers_without_accept_never_deadlock_witness:
  "\<not> deadlocked (start_threads [Heartbeat_locks [1, 2], Learn_locks 1])"
  by (rule handlers_without_accept_never_deadlock [OF _ lock_steps.none]) auto

text \<open>
  C40: \<open>Accept\<close> and \<open>Heartbeat\<close> can deadlock.  \<open>Accept\<close> takes \<open>mu\<close> again while it holds the mutex of
  the slot, \<open>Heartbeat\<close> takes the mutex of a slot while it holds \<open>mu\<close>; when a heartbeat carries the
  slot that is being accepted, there is an interleaving that leaves both waiting for each other.
\<close>
theorem accept_heartbeat_deadlock:
  "\<exists>s. lock_steps (start_threads [Accept_locks q, Heartbeat_locks (q # qs)]) s \<and> deadlocked s"
proof -
  let ?r = "concat (map (\<lambda>q. [Acq (SlotMu q), Rel (SlotMu q)]) qs) @ [Rel Mu]"
  let ?h = "[Acq (SlotMu q), Rel (SlotMu q)] @ ?r"
  let ?a = "[Acq Mu, Rel Mu, Rel (SlotMu q)]"
  let ?o = "Map.empty(Mu \<mapsto> 1, SlotMu q \<mapsto> (0 :: nat))"
  let ?s = "\<lparr>owner = ?o, todo = [?a, ?h]\<rparr>"
  have h: "Heartbeat_locks (q # qs) = Acq Mu # ?h" by (simp add: Heartbeat_locks_def)
  let ?t0 = "start_threads [Accept_locks q, Heartbeat_locks (q # qs)]"
  let ?t1 = "\<lparr>owner = Map.empty(Mu \<mapsto> 0), todo = [Rel Mu # Acq (SlotMu q) # ?a, Acq Mu # ?h]\<rparr>"
  let ?t2 = "\<lparr>owner = Map.empty, todo = [Acq (SlotMu q) # ?a, Acq Mu # ?h]\<rparr>"
  let ?t3 = "\<lparr>owner = Map.empty(SlotMu q \<mapsto> 0), todo = [?a, Acq Mu # ?h]\<rparr>"
  have "lock_step ?t0 ?t1"
    using lock_step.acquire [of 0 ?t0 Mu "Rel Mu # Acq (SlotMu q) # ?a"]
    by (simp add: start_threads_def Accept_locks_def h)
  moreover have "lock_step ?t1 ?t2"
    using lock_step.release [of 0 ?t1 Mu "Acq (SlotMu q) # ?a"] by simp
  moreover have "lock_step ?t2 ?t3"
    using lock_step.acquire [of 0 ?t2 "SlotMu q" ?a] by simp
  moreover have "lock_step ?t3 ?s"
    using lock_step.acquire [of 1 ?t3 Mu ?h] by (simp add: fun_upd_twist)
  ultimately have "lock_steps ?t0 ?s"
    by (meson lock_steps.none lock_steps.more)
  moreover have "deadlocked ?s"
  proof -
    have "\<not> lock_step ?s t" for t
      by (auto simp: less_Suc_eq nth_Cons' elim!: lock_step.cases)
    then show ?thesis by (simp add: deadlocked_def all_done_def)
  qed
  ultimately show ?thesis by blast
qed

end
