(* ===== verification/Threads.thy ===== *)
theory Threads
  imports Election
begin

text \<open>
  Everything \<open>PaxosImpl\<close> does, interleaved.  The theories Proposer, Heartbeats and Election run one
  operation from its first line to its last; here a cell has any number of threads in the middle of
  proposals, rounds of heartbeats and elections, and a step of the system is a step of one of them,
  chosen by the scheduler.

  A step goes from one point at which other threads can come in between to the next: it is a section
  under a mutex, or the preparation of one call together with the handler that serves it.  A step that
  needs a mutex that is held is not possible; what waits for ever has no step.  The mutex \<open>mu\<close> of a
  server is the field \<open>mu_locked\<close>; the mutex \<open>mu\<close> of a slot, which \<open>StartOnNewSlot\<close> holds from its first
  line to its end, is an entry of the set of held slot mutexes.  The mutex \<open>mu_\<close> of a slot is held
  inside a handler only, and a handler is one step (their interleaving is the subject of LockOrder).
  The calls of the accept and of the learn broadcast are made by threads of their own: they take place
  in any order, and one that waits does not hold up the others.
\<close>

section \<open>Threads\<close>

text \<open>
  The point a thread has come to, with the local variables that are still needed: \<open>seq\<close>, \<open>v\<close>,
  \<open>my_view\<close> of the functions, the variables of a phase (\<open>prep\<close>, \<open>acc\<close>, \<open>ballot\<close>) and the servers that
  are still to be called.
\<close>

datatype control =
    Begin call
  | Spawning int string
  | Checking int string int
  | Preparing int string int nat prep "string list"
  | Prepared int string int prep
  | Accepting int string int string int acc "string list"
  | Stepping_down int string int
  | Learning int string "string list"
  | Forwarding int string
  | Relocking
  | Beat_begin
  | Beating int "(int, proto_slot) smap" "int list" "string list"
  | Adopting int "(int, proto_slot) smap" "int list" "string list" "(int, proto_slot) smap"
  | Ballot_begin int int
  | Balloting int int ballot "string list"
  | Returned
  | Raised exn
  | Killed

text \<open>
  What a function still has to do when the call it has made is over.  \<open>Joining\<close>: \<open>Start\<close> joins its
  \<open>std::thread\<close>.  \<open>Holding_mu\<close>: \<open>StartOnForward\<close>, which releases \<open>mu\<close> at its end.  \<open>Holding_slot\<close>:
  \<open>StartOnNewSlot\<close>, which releases the mutex of the slot.  \<open>Awaiting\<close>: a server waits for the answer
  to \<open>ForwardLeader\<close>.  \<open>Rethrowing\<close>: \<open>StartOnNewSlot\<close> has forwarded after it had unlocked.
\<close>

datatype frame = Joining | Holding_mu | Holding_slot int | Awaiting delivery | Rethrowing

record task =
  t_at :: string
  t_control :: control
  t_stack :: "(string \<times> frame) list"

text \<open>Go on in the same function, or call another one, here or on the server of an RPC.\<close>

datatype move = Goto control | Push frame string control

type_synonym slot_locks = "(string \<times> int) set"

type_synonym 'd step = "('d cluster \<times> slot_locks \<times> move) option"

section \<open>Proposals\<close>

text \<open>
  \<open>Start\<close> up to \<open>unlock\<close>, and then the creation of the thread, which reads \<open>view\<close> again without the
  mutex.
\<close>

definition Start_enter :: "slot_locks \<Rightarrow> 'd cluster \<Rightarrow> string \<Rightarrow> int \<Rightarrow> string \<Rightarrow> 'd step" where
  "Start_enter H c a seq v =
     (case node c a of
        None \<Rightarrow> Some (c, H, Goto Returned)
      | Some s \<Rightarrow>
          if mu_locked s then None
          else if seq < lowest_slot s then Some (c, H, Goto Returned)
          else
            (case addSlots s seq of
               (sl, s1) \<Rightarrow>
                 (let c1 = put_node a s1 c in
                  if slot_status sl \<noteq> DECIDED \<and> is_dead s = 0 then
                    (if view s smod num_servers s = me s then
                       (if \<not> leader_dead s then Some (c1, H, Goto (Spawning seq v))
                        else Some (c1, H, Goto Returned))
                     else Some (c1, H, Push Joining a (Begin (CallForward seq v))))
                  else Some (c1, H, Goto Returned))))"

definition Start_spawn :: "slot_locks \<Rightarrow> 'd cluster \<Rightarrow> string \<Rightarrow> int \<Rightarrow> string \<Rightarrow> 'd step" where
  "Start_spawn H c a seq v =
     (case node c a of
        None \<Rightarrow> Some (c, H, Goto Returned)
      | Some s \<Rightarrow> Some (c, H, Push Joining a (Begin (CallNewSlot seq v (view s)))))"

text \<open>\<open>StartOnForward\<close>: with \<open>mu\<close> locked, either \<open>StartOnNewSlot\<close> or the call of the leader.\<close>

definition StartOnForward_enter :: "slot_locks \<Rightarrow> 'd cluster \<Rightarrow> string \<Rightarrow> int \<Rightarrow> string \<Rightarrow> 'd step" where
  "StartOnForward_enter H c a seq v =
     (case node c a of
        None \<Rightarrow> Some (c, H, Goto Returned)
      | Some s \<Rightarrow>
          if mu_locked s then None
          else
            (case addSlots (s\<lparr>mu_locked := True\<rparr>) seq of
               (sl, s1) \<Rightarrow>
                 Some (put_node a s1 c, H, Push Holding_mu a
                   (if slot_status sl \<noteq> DECIDED \<and> view s smod num_servers s = me s \<and> \<not> leader_dead s
                    then Begin (CallNewSlot seq v (view s)) else Forwarding seq v))))"

definition forward_call :: "slot_locks \<Rightarrow> 'd cluster \<Rightarrow> string \<Rightarrow> int \<Rightarrow> string \<Rightarrow> 'd step" where
  "forward_call H c a seq v =
     (case node c a of
        None \<Rightarrow> Some (c, H, Goto Returned)
      | Some s \<Rightarrow>
          if map_of (paxos_stubs_map s) (leader_address s) = None
          then Some (kill_node a c, H, Goto Killed)
          else
            (case next_fate c of
               (fate, c0) \<Rightarrow>
                 Some (c0, H,
                   (if fate = Lost \<or> node c0 (leader_address s) = None then Goto Relocking
                    else Push (Awaiting fate) (leader_address s) (Begin (CallStart seq v))))))"

text \<open>
  \<open>StartOnNewSlot\<close>: the mutex of the slot and the test of its status; then \<open>mu\<close> for the test of
  \<open>highest_accepted_seq\<close>.
\<close>

definition StartOnNewSlot_enter ::
  "slot_locks \<Rightarrow> 'd cluster \<Rightarrow> string \<Rightarrow> int \<Rightarrow> string \<Rightarrow> int \<Rightarrow> 'd step" where
  "StartOnNewSlot_enter H c a seq v my_view =
     (case own_slot c a seq of
        None \<Rightarrow> Some (c, H, Goto Returned)
      | Some (s, sl) \<Rightarrow>
          if (a, seq) \<in> H then None
          else if slot_status sl = DECIDED \<or> is_dead s \<noteq> 0 then Some (c, H, Goto Returned)
          else Some (c, insert (a, seq) H, Push (Holding_slot seq) a (Checking seq v my_view)))"

text \<open>From the end of the prepare phase on.\<close>

definition accept_or_learn ::
  "'d cluster \<Rightarrow> string \<Rightarrow> int \<Rightarrow> string \<Rightarrow> int \<Rightarrow> prep \<Rightarrow> control" where
  "accept_or_learn c a seq v my_view p =
     (if p_decided p then Learning seq (p_decided_V p) (stub_addresses c a)
      else Accepting seq v my_view (if p_highest_va p = '''' then v else p_highest_va p)
             (p_highest_na p) acc_init (stub_addresses c a))"

definition StartOnNewSlot_check ::
  "slot_locks \<Rightarrow> 'd cluster \<Rightarrow> string \<Rightarrow> int \<Rightarrow> string \<Rightarrow> int \<Rightarrow> 'd step" where
  "StartOnNewSlot_check H c a seq v my_view =
     (case own_slot c a seq of
        None \<Rightarrow> Some (c, H, Goto Returned)
      | Some (s, sl) \<Rightarrow>
          if mu_locked s then None
          else if seq \<le> highest_accepted_seq s then
            (case next_n (slot_n sl) (slot_highest_N sl) (num_servers s) of
               None \<Rightarrow> None
             | Some n' \<Rightarrow>
                 Some (upd_slot a seq (\<lambda>sl. sl\<lparr>slot_n := n'\<rparr>) c, H,
                   Goto (Preparing seq v my_view (length (stub_addresses c a)) (prep_init v)
                           (stub_addresses c a))))
          else Some (c, H, Goto (accept_or_learn c a seq v my_view (prep_init v))))"

definition prepare_call ::
  "'d env \<Rightarrow> slot_locks \<Rightarrow> 'd cluster \<Rightarrow> string \<Rightarrow> int \<Rightarrow> string \<Rightarrow> int \<Rightarrow> nat \<Rightarrow> prep \<Rightarrow>
   string list \<Rightarrow> 'd step" where
  "prepare_call E H c a seq v my_view nsrv p bs =
     (case bs of
        [] \<Rightarrow> Some (c, H, Goto (Prepared seq v my_view p))
      | b # bs' \<Rightarrow>
          (case own_slot c a seq of
             None \<Rightarrow> Some (c, H, Goto (Prepared seq v my_view p))
           | Some (s, sl) \<Rightarrow>
               (case vec_get (done_vec s) (me s) of
                  None \<Rightarrow> Some (c, H, Goto (Raised Out_of_bounds))
                | Some d \<Rightarrow>
                    (case rpc b (\<lambda>t. Prepare E t \<lparr>pr_seq = seq, pr_proposal_number = slot_n sl,
                                                pr_latest_done = d, pr_sender_id = me s\<rparr>) c of
                       (Blocked, c1) \<Rightarrow> None
                     | (Ok r, c1) \<Rightarrow>
                         (case prep_reply nsrv r p of
                            (p', left) \<Rightarrow>
                              Some (note_highest_N a seq p r c1, H,
                                Goto (if left \<or> prep_stop nsrv p' then Prepared seq v my_view p'
                                      else Preparing seq v my_view nsrv p' bs')))
                     | (_, c1) \<Rightarrow>
                         Some (c1, H, Goto (if prep_stop nsrv p then Prepared seq v my_view p
                                            else Preparing seq v my_view nsrv p bs'))))))"

definition prepare_end ::
  "slot_locks \<Rightarrow> 'd cluster \<Rightarrow> string \<Rightarrow> int \<Rightarrow> string \<Rightarrow> int \<Rightarrow> prep \<Rightarrow> 'd step" where
  "prepare_end H c a seq v my_view p =
     Some (c, H, Goto (if my_view < p_highest_na p then Stepping_down seq v (p_highest_na p)
                       else accept_or_learn c a seq v my_view p))"

definition step_down_section ::
  "slot_locks \<Rightarrow> 'd cluster \<Rightarrow> string \<Rightarrow> int \<Rightarrow> string \<Rightarrow> int \<Rightarrow> 'd step" where
  "step_down_section H c a seq v highest_na =
     (case node c a of
        None \<Rightarrow> Some (c, H, Goto Returned)
      | Some s \<Rightarrow>
          if mu_locked s then None
          else if view s < highest_na then
            Some (put_node a (s\<lparr>view := highest_na, leader_dead := False, missed_heartbeats := 0\<rparr>) c, H,
              Push Rethrowing a (Begin (CallForward seq v)))
          else Some (c, H, Goto (Begin (CallForward seq v))))"

text \<open>
  One call of the accept broadcast, to the server \<open>pick\<close>, or the end of the phase when all have been
  made.  (The thread of a call that brings a decided value stores it under \<open>mu\<close>; nothing reads it.)
\<close>

definition accept_call ::
  "'d env \<Rightarrow> string \<Rightarrow> slot_locks \<Rightarrow> 'd cluster \<Rightarrow> string \<Rightarrow> int \<Rightarrow> string \<Rightarrow> int \<Rightarrow> string \<Rightarrow>
   int \<Rightarrow> acc \<Rightarrow> string list \<Rightarrow> 'd step" where
  "accept_call E pick H c a seq v my_view va na st bs =
     (if bs = [] \<or> node c a = None then
        Some (c, H, Goto (if a_decided st then Returned
                          else if my_view < na then Stepping_down seq v na
                          else Learning seq va (stub_addresses c a)))
      else if pick \<notin> set bs then None
      else
        (case node c a of
           None \<Rightarrow> None
         | Some s \<Rightarrow>
             (case vec_get (done_vec s) (me s) of
                None \<Rightarrow> Some (kill_node a c, H, Goto Killed)
              | Some d \<Rightarrow>
                  (case rpc pick (\<lambda>t. Accept E t \<lparr>ar_seq = seq, ar_view = my_view, ar_value = va,
                                                ar_sender_id = me s, ar_latest_done = d\<rparr>) c of
                     (Blocked, c1) \<Rightarrow> None
                   | (Ok r, c1) \<Rightarrow>
                       Some (c1, H, Goto (Accepting seq v my_view va na (acc_reply seq r st) (remove1 pick bs)))
                   | (_, c1) \<Rightarrow>
                       Some (c1, H, Goto (Accepting seq v my_view va na st (remove1 pick bs)))))))"

definition learn_call ::
  "'d env \<Rightarrow> string \<Rightarrow> slot_locks \<Rightarrow> 'd cluster \<Rightarrow> string \<Rightarrow> int \<Rightarrow> string \<Rightarrow> string list \<Rightarrow> 'd step" where
  "learn_call E pick H c a seq va bs =
     (if bs = [] \<or> node c a = None then Some (c, H, Goto Returned)
      else if pick \<notin> set bs then None
      else
        (case node c a of
           None \<Rightarrow> None
         | Some s \<Rightarrow>
             if mu_locked s then None
             else
               (case vec_get (done_vec s) (me s) of
                  None \<Rightarrow> Some (kill_node a c, H, Goto Killed)
                | Some d \<Rightarrow>
                    (case rpc pick (\<lambda>t. Learn E t \<lparr>dr_seq = seq, dr_value = va, dr_sender_id = me s,
                                                 dr_latest_done = d\<rparr>) c of
                       (Blocked, c1) \<Rightarrow> None
                     | (_, c1) \<Rightarrow> Some (c1, H, Goto (Learning seq va (remove1 pick bs)))))))"

section \<open>Heartbeats and elections\<close>

definition beat_enter :: "slot_locks \<Rightarrow> 'd cluster \<Rightarrow> string \<Rightarrow> 'd step" where
  "beat_enter H c a =
     (case node c a of
        None \<Rightarrow> Some (c, H, Goto Returned)
      | Some s \<Rightarrow>
          if mu_locked s then None
          else if view s smod group_size s \<noteq> me s then Some (c, H, Goto Returned)
          else Some (c, H, Goto (Beating (view s) (proto_of_slots (request_slots (view s) (slots s) [])) []
                                   (smap_keys (paxos_stubs_map s)))))"

definition beat_call ::
  "slot_locks \<Rightarrow> 'd cluster \<Rightarrow> string \<Rightarrow> int \<Rightarrow> (int, proto_slot) smap \<Rightarrow> int list \<Rightarrow> string list \<Rightarrow>
   'd step" where
  "beat_call H c a curr_view ps dn bs =
     (case bs of
        [] \<Rightarrow> Some (c, H, Goto Returned)
      | b # bs' \<Rightarrow>
          (case node c a of
             None \<Rightarrow> Some (c, H, Goto Returned)
           | Some s \<Rightarrow>
               if mu_locked s then None
               else
                 (let dn' = dn @ done_vec s;
                      req = \<lparr>hb_id = me s, hb_view = curr_view, hb_done = dn', hb_slots = ps\<rparr>
                  in case rpc b (\<lambda>t. Heartbeat t req) c of
                       (Blocked, c1) \<Rightarrow> None
                     | (Ok resp, c1) \<Rightarrow>
                         Some (c1, H, Goto (if b \<noteq> server_address s
                                            then Adopting curr_view ps dn' bs' (hp_slots resp)
                                            else Beating curr_view ps dn' bs'))
                     | (_, c1) \<Rightarrow> Some (c1, H, Goto (Beating curr_view ps dn' bs')))))"

definition beat_adopt ::
  "slot_locks \<Rightarrow> 'd cluster \<Rightarrow> string \<Rightarrow> int \<Rightarrow> (int, proto_slot) smap \<Rightarrow> int list \<Rightarrow> string list \<Rightarrow>
   (int, proto_slot) smap \<Rightarrow> 'd step" where
  "beat_adopt H c a curr_view ps dn bs rs =
     (case node c a of
        None \<Rightarrow> Some (c, H, Goto Returned)
      | Some s \<Rightarrow>
          if mu_locked s then None
          else Some (put_node a (adopt_slots (slots_of_proto rs) s) c, H, Goto (Beating curr_view ps dn bs)))"

definition ballot_enter :: "slot_locks \<Rightarrow> 'd cluster \<Rightarrow> string \<Rightarrow> int \<Rightarrow> int \<Rightarrow> 'd step" where
  "ballot_enter H c a my_view offset =
     (case node c a of
        None \<Rightarrow> Some (c, H, Goto Returned)
      | Some s \<Rightarrow>
          Some (c, H, Goto (Balloting my_view offset ballot_init (smap_keys (paxos_stubs_map s)))))"

definition ballot_call ::
  "slot_locks \<Rightarrow> 'd cluster \<Rightarrow> string \<Rightarrow> int \<Rightarrow> int \<Rightarrow> ballot \<Rightarrow> string list \<Rightarrow> 'd step" where
  "ballot_call H c a my_view offset e bs =
     (case node c a of
        None \<Rightarrow> Some (c, H, Goto Returned)
      | Some s \<Rightarrow>
          (case bs of
             [] \<Rightarrow>
               if mu_locked s then None
               else
                 (case elect_finish (to_int32 (my_view + offset)) (length (smap_keys (paxos_stubs_map s))) e s of
                    Some s' \<Rightarrow> Some (put_node a s' c, H, Goto Returned)
                  | None \<Rightarrow> Some (c, H, Goto (Ballot_begin my_view offset)))
           | b # bs' \<Rightarrow>
               if b = server_address s then Some (c, H, Goto (Balloting my_view offset e bs'))
               else
                 (case rpc b (\<lambda>t. Elect t \<lparr>er_view = to_int32 (my_view + offset)\<rparr>) c of
                    (Blocked, c1) \<Rightarrow> None
                  | (Ok r, c1) \<Rightarrow> Some (c1, H, Goto (Balloting my_view offset (ballot_reply r e) bs'))
                  | (_, c1) \<Rightarrow> Some (c1, H, Goto (Balloting my_view offset e bs')))))"

section \<open>A step of one thread\<close>

fun local_step ::
  "'d env \<Rightarrow> string \<Rightarrow> slot_locks \<Rightarrow> 'd cluster \<Rightarrow> string \<Rightarrow> control \<Rightarrow> 'd step" where
  "local_step E pick H c a (Begin (CallStart seq v)) = Start_enter H c a seq v"
| "local_step E pick H c a (Begin (CallForward seq v)) = StartOnForward_enter H c a seq v"
| "local_step E pick H c a (Begin (CallNewSlot seq v my_view)) = StartOnNewSlot_enter H c a seq v my_view"
| "local_step E pick H c a (Spawning seq v) = Start_spawn H c a seq v"
| "local_step E pick H c a (Checking seq v my_view) = StartOnNewSlot_check H c a seq v my_view"
| "local_step E pick H c a (Preparing seq v my_view nsrv p bs) = prepare_call E H c a seq v my_view nsrv p bs"
| "local_step E pick H c a (Prepared seq v my_view p) = prepare_end H c a seq v my_view p"
| "local_step E pick H c a (Accepting seq v my_view va na st bs) =
     accept_call E pick H c a seq v my_view va na st bs"
| "local_step E pick H c a (Stepping_down seq v na) = step_down_section H c a seq v na"
| "local_step E pick H c a (Learning seq va bs) = learn_call E pick H c a seq va bs"
| "local_step E pick H c a (Forwarding seq v) = forward_call H c a seq v"
| "local_step E pick H c a Relocking = None"
| "local_step E pick H c a Beat_begin = beat_enter H c a"
| "local_step E pick H c a (Beating curr_view ps dn bs) = beat_call H c a curr_view ps dn bs"
| "local_step E pick H c a (Adopting curr_view ps dn bs rs) = beat_adopt H c a curr_view ps dn bs rs"
| "local_step E pick H c a (Ballot_begin my_view offset) = ballot_enter H c a my_view offset"
| "local_step E pick H c a (Balloting my_view offset e bs) = ballot_call H c a my_view offset e bs"
| "local_step E pick H c a _ = None"

text \<open>Where the thread is after a move, and at which control.\<close>

definition next_place :: "string \<Rightarrow> move \<Rightarrow> string" where
  "next_place a mv = (case mv of Goto k \<Rightarrow> a | Push fr b k \<Rightarrow> b)"

definition next_control :: "move \<Rightarrow> control" where
  "next_control mv = (case mv of Goto k \<Rightarrow> k | Push fr b k \<Rightarrow> k)"

lemma next_simps [simp]:
  "next_place a (Goto k) = a" "next_place a (Push fr b k) = b"
  "next_control (Goto k) = k" "next_control (Push fr b k) = k"
  by (simp_all add: next_place_def next_control_def)


text \<open>
  The end of a function on the server at \<open>b\<close>, seen from its caller.  An exception that reaches the
  \<open>std::thread\<close> of \<open>Start\<close> ends the process; a process that ends fails the calls made to it.  A caller
  of \<open>ForwardLeader\<close> without the answer \<open>OK\<close> locks \<open>mu\<close>, which it holds.
\<close>

fun unwind :: "frame \<Rightarrow> string \<Rightarrow> control \<Rightarrow> slot_locks \<Rightarrow> 'd cluster \<Rightarrow> 'd cluster \<times> slot_locks \<times> control" where
  "unwind Joining b (Raised x) H c = (kill_node b c, H, Killed)"
| "unwind Joining b k H c = (c, H, k)"
| "unwind Holding_mu b Killed H c = (c, H, Killed)"
| "unwind Holding_mu b k H c = (unlock_mu b c, H, k)"
| "unwind (Holding_slot q) b k H c = (c, H - {(b, q)}, k)"
| "unwind (Awaiting fate) b k H c = (c, H, if k = Returned \<and> fate \<noteq> Reply_lost then Returned else Relocking)"
| "unwind Rethrowing b Returned H c = (c, H, Raised System_error)"
| "unwind Rethrowing b k H c = (c, H, k)"

definition over :: "control \<Rightarrow> bool" where
  "over k \<longleftrightarrow> (case k of Returned \<Rightarrow> True | Raised x \<Rightarrow> True | Killed \<Rightarrow> True | _ \<Rightarrow> False)"

definition advance ::
  "'d env \<Rightarrow> string \<Rightarrow> 'd cluster \<Rightarrow> slot_locks \<Rightarrow> task \<Rightarrow> ('d cluster \<times> slot_locks \<times> task) option" where
  "advance E pick c H th =
     (if over (t_control th) then
        (case t_stack th of
           [] \<Rightarrow> None
         | (b, fr) # st \<Rightarrow>
             (case unwind fr b (t_control th) H c of
                (c', H', k) \<Rightarrow> Some (c', H', \<lparr>t_at = b, t_control = k, t_stack = st\<rparr>)))
      else
        (case local_step E pick H c (t_at th) (t_control th) of
           None \<Rightarrow> None
         | Some (c', H', Goto k) \<Rightarrow> Some (c', H', th\<lparr>t_control := k\<rparr>)
         | Some (c', H', Push fr b k) \<Rightarrow>
             Some (c', H', \<lparr>t_at = b, t_control = k, t_stack = (t_at th, fr) # t_stack th\<rparr>)))"

section \<open>A step of the system\<close>

record 'd system =
  cell_state :: "'d cluster"
  slot_held :: slot_locks
  tasks :: "task list"

text \<open>
  \<open>Move i pick\<close>: a step of thread \<open>i\<close>, with \<open>pick\<close> as the next server of a broadcast.  The others: a
  client's proposal arrives, the heartbeat thread of a server starts a round, its detector ticks (and
  starts the election it calls for), its timer fires, its process ends.
\<close>

datatype sys_event =
    Move nat string
  | Arrival string int string
  | Beat_due string
  | Tick string
  | Timer_due string
  | Crash string

definition add_task :: "string \<Rightarrow> control \<Rightarrow> 'd system \<Rightarrow> 'd system" where
  "add_task a k y = y\<lparr>tasks := tasks y @ [\<lparr>t_at = a, t_control = k, t_stack = []\<rparr>]\<rparr>"

definition upd_node :: "string \<Rightarrow> ('d paxos_impl \<Rightarrow> 'd paxos_impl) \<Rightarrow> 'd system \<Rightarrow> 'd system" where
  "upd_node a f y =
     (case node (cell_state y) a of
        None \<Rightarrow> y
      | Some s \<Rightarrow> y\<lparr>cell_state := put_node a (f s) (cell_state y)\<rparr>)"

definition detector_tick :: "string \<Rightarrow> 'd system \<Rightarrow> 'd system" where
  "detector_tick a y =
     (case node (cell_state y) a of
        None \<Rightarrow> y
      | Some s \<Rightarrow>
          (let y' = upd_node a (\<lambda>s. snd (DetectLeaderFailure s)) y in
           case fst (DetectLeaderFailure s) of
             Ok (Some (my_view, offset), timer) \<Rightarrow> add_task a (Ballot_begin my_view offset) y'
           | _ \<Rightarrow> y'))"

fun sys_step :: "'d env \<Rightarrow> 'd system \<Rightarrow> sys_event \<Rightarrow> 'd system option" where
  "sys_step E y (Move i pick) =
     (if i < length (tasks y) then
        (case advance E pick (cell_state y) (slot_held y) (tasks y ! i) of
           None \<Rightarrow> None
         | Some (c, H, th) \<Rightarrow> Some \<lparr>cell_state = c, slot_held = H, tasks = (tasks y)[i := th]\<rparr>)
      else None)"
| "sys_step E y (Arrival a seq v) = Some (add_task a (Begin (CallStart seq v)) y)"
| "sys_step E y (Beat_due a) = Some (add_task a Beat_begin y)"
| "sys_step E y (Tick a) = Some (detector_tick a y)"
| "sys_step E y (Timer_due a) = Some (upd_node a (\<lambda>s. snd (election_timer s)) y)"
| "sys_step E y (Crash a) = Some (y\<lparr>cell_state := kill_node a (cell_state y)\<rparr>)"

fun sys_run :: "'d env \<Rightarrow> sys_event list \<Rightarrow> 'd system \<Rightarrow> 'd system option" where
  "sys_run E [] y = Some y"
| "sys_run E (e # es) y = Option.bind (sys_step E y e) (sys_run E es)"

definition idle :: "'d cluster \<Rightarrow> 'd system" where
  "idle c = \<lparr>cell_state = c, slot_held = {}, tasks = []\<rparr>"

text \<open>A predicate that every event keeps holds at the end of a run.\<close>

lemma sys_run_invariant:
  assumes step: "\<And>e y y'. e \<in> set es \<Longrightarrow> Q y \<Longrightarrow> sys_step E y e = Some y' \<Longrightarrow> Q y'"
    and init: "Q y" and run: "sys_run E es y = Some y'"
  shows "Q y'"
proof -
  have "set es' \<subseteq> set es \<Longrightarrow> Q y \<Longrightarrow> sys_run E es' y = Some y' \<Longrightarrow> Q y'" for es' y
    by (induction es' arbitrary: y) (auto simp: bind_eq_Some_conv intro: step)
  then show ?thesis using init run by blast
qed

section \<open>A sample run\<close>

text \<open>
  Two proposals for the same slot at the leader, interleaved: the first has the slot's mutex, sends its
  accepts and has told two servers; the second waits.
\<close>

definition sample_schedule :: "sys_event list" where
  "sample_schedule =
     [Arrival ''127.0.0.1:50051'' 1 ''a'', Arrival ''127.0.0.1:50051'' 1 ''b'',
      Move 0 [], Move 1 [], Move 0 [], Move 1 [], Move 0 [], Move 0 [],
      Move 0 ''127.0.0.1:50051'', Move 0 ''127.0.0.1:50053'', Move 0 ''127.0.0.1:50052'', Move 0 [],
      Move 0 ''127.0.0.1:50052'', Move 0 ''127.0.0.1:50051'']"

lemma sample_schedule_run:
  "Option.bind (sys_run mem_env sample_schedule (idle sample_cell))
     (\<lambda>y. Option.bind (node (cell_state y) ''127.0.0.1:50051'') (\<lambda>s. decided s 1)) = Some ''a''"
  "Option.bind (sys_run mem_env sample_schedule (idle sample_cell))
     (\<lambda>y. Option.bind (node (cell_state y) ''127.0.0.1:50052'') (\<lambda>s. decided s 1)) = Some ''a''"
  "Option.bind (sys_run mem_env sample_schedule (idle sample_cell))
     (\<lambda>y. Some (map (\<lambda>th. (t_at th, t_control th)) (tasks y))) =
   Some [(''127.0.0.1:50051'', Learning 1 ''a'' [''127.0.0.1:50053'']),
         (''127.0.0.1:50051'', Begin (CallNewSlot 1 ''b'' 0))]"
  by code_simp+

end
