(* ===== verification/ThreadRuns.thy ===== *)
theory ThreadRuns
  imports Threads ProposerRuns "HOL-Library.Multiset"
begin

text \<open>
  The operations of the theory Proposer are schedules of one thread: when \<open>Start\<close> returns, raises or
  ends the process there, a thread of Threads that nobody interrupts can take steps to the same end,
  on the same cluster and with the same slot mutexes held as before.
\<close>

section \<open>Runs of one thread\<close>

inductive solo ::
  "'d env \<Rightarrow> 'd cluster \<times> slot_locks \<times> task \<Rightarrow> 'd cluster \<times> slot_locks \<times> task \<Rightarrow> bool" for E where
  solo_refl: "solo E x x"
| solo_step: "advance E pick c H th = Some y \<Longrightarrow> solo E y z \<Longrightarrow> solo E (c, H, th) z"

declare solo_refl [simp, intro]

lemma solo_trans: "solo E x y \<Longrightarrow> solo E y z \<Longrightarrow> solo E x z"
  by (induction rule: solo.induct) (auto intro: solo_step)

abbreviation at :: "string \<Rightarrow> control \<Rightarrow> (string \<times> frame) list \<Rightarrow> task" where
  "at a k st \<equiv> \<lparr>t_at = a, t_control = k, t_stack = st\<rparr>"

lemma solo_goto:
  "local_step E pick H c a k = Some (c1, H1, Goto k1) \<Longrightarrow> \<not> over k \<Longrightarrow>
   solo E (c1, H1, at a k1 st) z \<Longrightarrow> solo E (c, H, at a k st) z"
  by (rule solo_step [where pick = pick]) (simp_all add: advance_def)

lemma solo_goto1:
  "local_step E pick H c a k = Some (c1, H1, Goto k1) \<Longrightarrow> \<not> over k \<Longrightarrow>
   solo E (c, H, at a k st) (c1, H1, at a k1 st)"
  by (rule solo_goto) auto

lemma solo_push:
  "local_step E pick H c a k = Some (c1, H1, Push fr b k1) \<Longrightarrow> \<not> over k \<Longrightarrow>
   solo E (c1, H1, at b k1 ((a, fr) # st)) z \<Longrightarrow> solo E (c, H, at a k st) z"
  by (rule solo_step [where pick = pick]) (simp_all add: advance_def)

lemma solo_pop:
  "over k \<Longrightarrow> unwind fr b k H c = (c1, H1, k1) \<Longrightarrow> solo E (c1, H1, at b k1 st) z \<Longrightarrow>
   solo E (c, H, at a k ((b, fr) # st)) z"
  by (rule solo_step) (simp_all add: advance_def)

lemma over_simps [simp]:
  "over Returned" "over (Raised x)" "over Killed"
  "\<not> over (Begin k)" "\<not> over (Spawning seq v)" "\<not> over (Checking seq v my_view)"
  "\<not> over (Preparing seq v my_view nsrv p bs)" "\<not> over (Prepared seq v my_view p)"
  "\<not> over (Accepting seq v my_view va na ac bs)" "\<not> over (Stepping_down seq v na)"
  "\<not> over (Learning seq va bs)" "\<not> over (Forwarding seq v)" "\<not> over Relocking"
  by (simp_all add: over_def)

text \<open>How a thread ends that began with \<open>k\<close>, when the operation has the outcome \<open>out\<close>.\<close>

definition finishes ::
  "'d env \<Rightarrow> 'd cluster \<times> slot_locks \<times> task \<Rightarrow> string \<Rightarrow> (string \<times> frame) list \<Rightarrow> slot_locks \<Rightarrow>
   'd cluster outcome \<Rightarrow> bool" where
  "finishes E x a st H out \<longleftrightarrow>
     (case out of
        Done c \<Rightarrow> solo E x (c, H, at a Returned st)
      | Thrown e c \<Rightarrow> solo E x (c, H, at a (Raised e) st)
      | Died c \<Rightarrow> solo E x (c, H, at a Killed st)
      | _ \<Rightarrow> True)"

lemma finishes_simps [simp]:
  "finishes E x a st H (Done c) = solo E x (c, H, at a Returned st)"
  "finishes E x a st H (Thrown e c) = solo E x (c, H, at a (Raised e) st)"
  "finishes E x a st H (Died c) = solo E x (c, H, at a Killed st)"
  "finishes E x a st H Stuck" "finishes E x a st H Out_of_fuel"
  by (simp_all add: finishes_def)

lemma finishes_solo: "solo E x y \<Longrightarrow> finishes E y a st H out \<Longrightarrow> finishes E x a st H out"
  by (cases out) (auto intro: solo_trans)

lemma finishes_goto:
  "local_step E pick H c a k = Some (c1, H1, Goto k1) \<Longrightarrow> \<not> over k \<Longrightarrow>
   finishes E (c1, H1, at a k1 st) a st H' out \<Longrightarrow> finishes E (c, H, at a k st) a st H' out"
  by (rule finishes_solo [OF solo_goto]) auto

lemma finishes_push:
  "local_step E pick H c a k = Some (c1, H1, Push fr b k1) \<Longrightarrow> \<not> over k \<Longrightarrow>
   finishes E (c1, H1, at b k1 ((a, fr) # st)) a st H' out \<Longrightarrow> finishes E (c, H, at a k st) a st H' out"
  by (rule finishes_solo [OF solo_push]) auto

section \<open>The loops\<close>

lemma solo_prepare_loop:
  "case prepare_loop E a seq nsrv bs p c of
     Inl out \<Rightarrow> finishes E (c, H, at a (Preparing seq v vw nsrv p bs) st) a st H out
   | Inr (p', c') \<Rightarrow>
       solo E (c, H, at a (Preparing seq v vw nsrv p bs) st) (c', H, at a (Prepared seq v vw p') st)"
proof (induction bs arbitrary: p c)
  case Nil
  show ?case by (auto intro!: solo_goto1 simp: prepare_call_def)
next
  case (Cons b bs)
  show ?case
  proof (cases "own_slot c a seq")
    case None
    then show ?thesis by (auto intro!: solo_goto1 simp: prepare_call_def)
  next
    case (Some z)
    obtain s sl where own: "own_slot c a seq = Some (s, sl)" using Some by (cases z) simp
    show ?thesis
    proof (cases "vec_get (done_vec s) (me s)")
      case None
      with own show ?thesis by (auto intro!: solo_goto1 simp: prepare_call_def)
    next
      case d: (Some d)
      obtain r c1 where call: "rpc b (\<lambda>t. Prepare E t \<lparr>pr_seq = seq, pr_proposal_number = slot_n sl,
          pr_latest_done = d, pr_sender_id = me s\<rparr>) c = (r, c1)" by fastforce
      have go: "case prepare_loop E a seq nsrv bs p' c' of
            Inl out \<Rightarrow> finishes E (c, H, at a (Preparing seq v vw nsrv p (b # bs)) st) a st H out
          | Inr (p'', c'') \<Rightarrow> solo E (c, H, at a (Preparing seq v vw nsrv p (b # bs)) st)
              (c'', H, at a (Prepared seq v vw p'') st)"
        if "local_step E pick H c a (Preparing seq v vw nsrv p (b # bs)) =
              Some (c', H, Goto (Preparing seq v vw nsrv p' bs))" for pick p' c'
        using Cons.IH [where c = c' and p = p'] finishes_goto [OF that] solo_goto [OF that]
        by (simp del: local_step.simps split: sum.splits prod.splits)
      show ?thesis
      proof (cases r)
        case (Ok x)
        obtain p' left where rep: "prep_reply nsrv x p = (p', left)" by fastforce
        show ?thesis
        proof (cases "left \<or> prep_stop nsrv p'")
          case True
          with own d call Ok rep show ?thesis by (auto simp: Let_def prepare_call_def intro!: solo_goto1)
        next
          case False
          with own d call Ok rep go [where c' = "note_highest_N a seq p x c1" and p' = p']
          show ?thesis by (simp add: Let_def prepare_call_def)
        qed
      next
        case (Error e)
        with own d call go [where c' = c1 and p' = p] show ?thesis
          by (auto simp: prepare_call_def intro!: solo_goto1)
      next
        case (Raise e)
        with own d call go [where c' = c1 and p' = p] show ?thesis
          by (auto simp: prepare_call_def intro!: solo_goto1)
      qed (use own d call in simp)
    qed
  qed
qed

text \<open>The broadcasts: any order of the calls that are left is one that the picks can take.\<close>

lemma solo_accept_loop:
  "mset rs = mset bs \<Longrightarrow>
   case accept_loop E a seq vw va bs ac c of
     Inl out \<Rightarrow> finishes E (c, H, at a (Accepting seq v vw va na ac rs) st) a st H out
   | Inr (ac', c') \<Rightarrow> \<exists>rs'. (rs' = [] \<or> node c' a = None) \<and>
       solo E (c, H, at a (Accepting seq v vw va na ac rs) st) (c', H, at a (Accepting seq v vw va na ac' rs') st)"
proof (induction bs arbitrary: rs ac c)
  case Nil
  then have "rs = []" by simp
  then show ?case by (auto intro!: exI [of _ "[]"])
next
  case (Cons b bs)
  have b: "b \<in> set rs" "rs \<noteq> []" using mset_eq_setD [OF Cons.prems] by auto
  have rs: "mset (remove1 b rs) = mset bs" using Cons.prems by simp
  show ?case
  proof (cases "node c a")
    case None
    then show ?thesis by auto
  next
    case s: (Some s)
    show ?thesis
    proof (cases "vec_get (done_vec s) (me s)")
      case None
      with s b show ?thesis by (auto simp: accept_call_def intro!: solo_goto1 [where pick = b])
    next
      case d: (Some d)
      obtain r c1 where call: "rpc b (\<lambda>t. Accept E t \<lparr>ar_seq = seq, ar_view = vw, ar_value = va,
          ar_sender_id = me s, ar_latest_done = d\<rparr>) c = (r, c1)" by fastforce
      have go: "case accept_loop E a seq vw va bs ac1 c1 of
            Inl out \<Rightarrow> finishes E (c, H, at a (Accepting seq v vw va na ac rs) st) a st H out
          | Inr (ac', c') \<Rightarrow> \<exists>rs'. (rs' = [] \<or> node c' a = None) \<and>
              solo E (c, H, at a (Accepting seq v vw va na ac rs) st) (c', H, at a (Accepting seq v vw va na ac' rs') st)"
        if "local_step E b H c a (Accepting seq v vw va na ac rs) =
              Some (c1, H, Goto (Accepting seq v vw va na ac1 (remove1 b rs)))" for ac1
        using Cons.IH [OF rs, where c = c1 and ac = ac1] finishes_goto [OF that] solo_goto [OF that]
        by (fastforce simp del: local_step.simps split: sum.splits prod.splits)
      show ?thesis
        using s d call b go [of "acc_reply seq (case r of Ok x \<Rightarrow> x) ac"] go [of ac]
        by (cases r) (auto simp: accept_call_def)
    qed
  qed
qed

lemma solo_learn_loop:
  "mset rs = mset bs \<Longrightarrow>
   finishes E (c, H, at a (Learning seq va rs) st) a st H (learn_loop E a seq va bs c)"
proof (induction bs arbitrary: rs c)
  case Nil
  then show ?case by (auto simp: learn_call_def intro!: solo_goto1)
next
  case (Cons b bs)
  have b: "b \<in> set rs" "rs \<noteq> []" using mset_eq_setD [OF Cons.prems] by auto
  have rs: "mset (remove1 b rs) = mset bs" using Cons.prems by simp
  show ?case
  proof (cases "node c a")
    case None
    then show ?thesis by (auto simp: learn_call_def intro!: solo_goto1)
  next
    case s: (Some s)
    show ?thesis
    proof (cases "mu_locked s \<or> vec_get (done_vec s) (me s) = None")
      case True
      with s b show ?thesis by (auto simp: learn_call_def intro!: solo_goto1 [where pick = b])
    next
      case False
      then obtain d where d: "vec_get (done_vec s) (me s) = Some d" "\<not> mu_locked s" by auto
      obtain r c1 where call: "rpc b (\<lambda>t. Learn E t \<lparr>dr_seq = seq, dr_value = va, dr_sender_id = me s,
          dr_latest_done = d\<rparr>) c = (r, c1)" by fastforce
      have "finishes E (c, H, at a (Learning seq va rs) st) a st H (learn_loop E a seq va bs c1)"
        if "local_step E b H c a (Learning seq va rs) = Some (c1, H, Goto (Learning seq va (remove1 b rs)))"
        by (rule finishes_goto [OF that _ Cons.IH [OF rs]]) simp
      with s d call b show ?thesis by (cases r) (auto simp: learn_call_def)
    qed
  qed
qed

section \<open>Frames\<close>

lemma finishes_Joining:
  "finishes E x a ((a, Joining) # st) H out \<Longrightarrow> finishes E x a st H (joined a out)"
  by (cases out) (auto simp: joined_def elim!: solo_trans intro!: solo_pop)

lemma finishes_Holding_slot:
  "finishes E x a ((a, Holding_slot q) # st) H out \<Longrightarrow> finishes E x a st (H - {(a, q)}) out"
  by (cases out) (auto elim!: solo_trans intro!: solo_pop)

lemma finishes_Holding_mu:
  "finishes E x a ((a, Holding_mu) # st) H out \<Longrightarrow>
   finishes E x a st H
     (case out of Done c2 \<Rightarrow> Done (unlock_mu a c2) | Thrown e c2 \<Rightarrow> Thrown e (unlock_mu a c2) | out \<Rightarrow> out)"
  by (cases out) (auto elim!: solo_trans intro!: solo_pop)

lemma finishes_Rethrowing:
  "finishes E x a ((a, Rethrowing) # st) H out \<Longrightarrow>
   finishes E x a st H (case out of Done c' \<Rightarrow> Thrown System_error c' | out \<Rightarrow> out)"
  by (cases out) (auto elim!: solo_trans intro!: solo_pop)

lemma finishes_Awaiting:
  "finishes E x l ((a, Awaiting fate) # st) H out \<Longrightarrow>
   finishes E x a st H (case out of Done c2 \<Rightarrow> if fate \<noteq> Reply_lost then Done c2 else Stuck | _ \<Rightarrow> Stuck)"
  by (cases out) (auto elim!: solo_trans intro!: solo_pop)

section \<open>What the thread may rely on\<close>

text \<open>
  The slot mutexes in \<open>H\<close> are those the thread itself holds: their servers are not marked dead, and
  their \<open>mu\<close> is locked, by the thread as well, except for the servers in \<open>X\<close>.
\<close>

definition orderly :: "string set \<Rightarrow> slot_locks \<Rightarrow> 'd cluster \<Rightarrow> bool" where
  "orderly X H c \<longleftrightarrow>
     (\<forall>b s. node c b = Some s \<longrightarrow> smap_ok (paxos_stubs_map s) \<and>
        (\<forall>q. (b, q) \<in> H \<longrightarrow> is_dead s = 0 \<and> (b \<in> X \<or> mu_locked s)))"

lemma orderlyD:
  "orderly X H c \<Longrightarrow> node c b = Some s \<Longrightarrow> smap_ok (paxos_stubs_map s)"
  "orderly X H c \<Longrightarrow> node c b = Some s \<Longrightarrow> (b, q) \<in> H \<Longrightarrow> is_dead s = 0"
  "orderly X H c \<Longrightarrow> node c b = Some s \<Longrightarrow> (b, q) \<in> H \<Longrightarrow> b \<in> X \<or> mu_locked s"
  by (auto simp: orderly_def)

lemma orderly_put:
  "orderly X H c \<Longrightarrow> node c a = Some s \<Longrightarrow> same_config s t \<Longrightarrow> mu_locked t = mu_locked s \<Longrightarrow>
   orderly X H (put_node a t c)"
  by (auto simp: orderly_def same_config_def)

lemma orderly_lock:
  "orderly {a} H c \<Longrightarrow> node c a = Some s \<Longrightarrow> same_config s t \<Longrightarrow> mu_locked t \<Longrightarrow>
   orderly {} H (put_node a t c)"
  by (auto simp: orderly_def same_config_def)

lemma orderly_rel:
  assumes "orderly X H c" "cluster_rel same_config c c'" "lock_state c' = lock_state c"
  shows "orderly X H c'"
proof -
  have "smap_ok (paxos_stubs_map t) \<and> (\<forall>q. (b, q) \<in> H \<longrightarrow> is_dead t = 0 \<and> (b \<in> X \<or> mu_locked t))"
    if t: "node c' b = Some t" for b t
  proof -
    obtain s where s: "node c b = Some s" "same_config s t" using cluster_relD [OF assms(2) t] by blast
    have "mu_locked t = mu_locked s" using fun_cong [OF assms(3), of b] s(1) t by (simp add: lock_state_def)
    then show ?thesis using assms(1) s by (auto simp: orderly_def same_config_def)
  qed
  then show ?thesis by (simp add: orderly_def)
qed

lemma orderly_insert:
  "orderly {} H c \<Longrightarrow> node c a = Some s \<Longrightarrow> is_dead s = 0 \<Longrightarrow> orderly {a} (insert (a, seq) H) c"
  by (auto simp: orderly_def)

lemma same_config_steps:
  "same_config s (s\<lparr>view := vw, leader_dead := False, missed_heartbeats := i\<rparr>)"
  "same_config s (snd (addSlots s q))"
  "same_config s (snd (addSlots (s\<lparr>mu_locked := b\<rparr>) q))"
  by (simp_all add: same_config_def)

definition may_enter :: "call \<Rightarrow> slot_locks \<Rightarrow> 'd cluster \<Rightarrow> string \<Rightarrow> bool" where
  "may_enter k H c a \<longleftrightarrow>
     (case k of
        CallStart seq v \<Rightarrow> orderly {} H c
      | CallForward seq v \<Rightarrow> orderly {a} H c
      | CallNewSlot seq v my_view \<Rightarrow> orderly {} H c \<and> (a, seq) \<notin> H)"

definition scheduled ::
  "'d env \<Rightarrow> ('d cluster \<Rightarrow> string \<Rightarrow> call \<Rightarrow> 'd cluster outcome) \<Rightarrow> bool" where
  "scheduled E rec \<longleftrightarrow>
     (\<forall>c a k H st. may_enter k H c a \<longrightarrow> finishes E (c, H, at a (Begin k) st) a st H (rec c a k))"

lemma scheduledD:
  "scheduled E rec \<Longrightarrow> may_enter k H c a \<Longrightarrow> finishes E (c, H, at a (Begin k) st) a st H (rec c a k)"
  by (simp add: scheduled_def)

section \<open>The functions\<close>

lemma solo_step_down:
  assumes rec: "scheduled E rec" and c: "orderly {a} H c"
  shows "finishes E (c, H, at a (Stepping_down seq v na) st) a st H (step_down rec c a seq v na)"
proof (cases "node c a")
  case None
  then show ?thesis by (auto simp: step_down_def step_down_section_def intro!: solo_goto1)
next
  case (Some s)
  let ?c1 = "put_node a (s\<lparr>view := na, leader_dead := False, missed_heartbeats := 0\<rparr>) c"
  have c1: "orderly {a} H ?c1" by (rule orderly_put [OF c Some same_config_steps(1)]) simp
  have "finishes E (c, H, at a (Stepping_down seq v na) st) a st H
      (case rec ?c1 a (CallForward seq v) of Done c' \<Rightarrow> Thrown System_error c' | out \<Rightarrow> out)"
    if "view s < na" "\<not> mu_locked s"
    by (rule finishes_push [OF _ _ finishes_Rethrowing [OF scheduledD [OF rec]]])
      (use Some that c1 in \<open>simp_all add: step_down_section_def may_enter_def\<close>)
  moreover have "finishes E (c, H, at a (Stepping_down seq v na) st) a st H (rec c a (CallForward seq v))"
    if "\<not> view s < na" "\<not> mu_locked s"
    by (rule finishes_goto [OF _ _ scheduledD [OF rec]])
      (use Some that c in \<open>simp_all add: step_down_section_def may_enter_def\<close>)
  ultimately show ?thesis using Some by (simp add: step_down_def)
qed

lemma mset_run_order:
  assumes "fair_order E" "orderly X H c"
  shows "mset (stub_addresses c a) = mset (run_order E (stub_addresses c a))"
proof -
  have "distinct (stub_addresses c a)"
    using assms(2) by (auto simp: stub_addresses_def orderly_def distinct_smap_keys split: option.split)
  with assms(1) show ?thesis by (metis fair_order_def set_eq_iff_mset_eq_distinct)
qed

lemma solo_learn_phase:
  assumes "fair_order E" "orderly X H c"
  shows "finishes E (c, H, at a (Learning seq va (stub_addresses c a)) st) a st H (learn_phase E c a seq va)"
  unfolding learn_phase_def by (rule solo_learn_loop) (rule mset_run_order [OF assms])

lemma solo_accept_phase:
  assumes fair: "fair_order E" and rec: "scheduled E rec" and c: "orderly {a} H c"
  shows "finishes E (c, H, at a (accept_or_learn c a seq v vw p) st) a st H (accept_phase E rec c a seq v vw p)"
proof -
  define va where "va = (if p_highest_va p = [] then v else p_highest_va p)"
  let ?loop = "accept_loop E a seq vw va (run_order E (stub_addresses c a)) acc_init c"
  let ?k = "\<lambda>ac rs. Accepting seq v vw va (p_highest_na p) ac rs"
  note loop = solo_accept_loop [OF mset_run_order [OF fair c, of a], where E = E and a = a and seq = seq and vw = vw
      and va = va and ac = acc_init and c = c and H = H and v = v and na = "p_highest_na p" and st = st]
  have "finishes E (c, H, at a (?k acc_init (stub_addresses c a)) st) a st H
      (case ?loop of Inl out \<Rightarrow> out
       | Inr (ac, c1) \<Rightarrow>
           if a_decided ac then Done c1
           else if vw < p_highest_na p then step_down rec c1 a seq v (p_highest_na p)
           else learn_phase E c1 a seq va)"
  proof (cases ?loop)
    case (Inl out)
    with loop show ?thesis by simp
  next
    case (Inr z)
    then obtain ac c1 where z: "?loop = Inr (ac, c1)" by (cases z) simp
    obtain rs where rs: "rs = [] \<or> node c1 a = None"
      "solo E (c, H, at a (?k acc_init (stub_addresses c a)) st) (c1, H, at a (?k ac rs) st)"
      using loop z by auto
    have c1: "orderly {a} H c1"
      using cfg.C_accept_loop [OF UNIV_I, where E = E and a = a and seq = seq and vw = vw and va = va
            and bs = "run_order E (stub_addresses c a)" and st = acc_init and c = c]
        lock_state_accept_loop [OF z] z
      by (intro orderly_rel [OF c]) simp_all
    have next_k: "local_step E pick H c1 a (?k ac rs) =
        Some (c1, H, Goto (if a_decided ac then Returned else if vw < p_highest_na p
           then Stepping_down seq v (p_highest_na p) else Learning seq va (stub_addresses c1 a)))" for pick
      using rs(1) by (simp add: accept_call_def)
    show ?thesis unfolding z sum.case prod.case
      by (rule finishes_solo [OF rs(2) finishes_goto [OF next_k]])
        (use solo_step_down [OF rec c1] solo_learn_phase [OF fair c1] in auto)
  qed
  then show ?thesis
    using solo_learn_phase [OF fair c]
    unfolding accept_or_learn_def accept_phase_def Let_def va_def [symmetric] by simp
qed

lemma solo_StartOnNewSlot:
  assumes fair: "fair_order E" and rec: "scheduled E rec" and c: "orderly {} H c" "(a, seq) \<notin> H"
  shows "finishes E (c, H, at a (Begin (CallNewSlot seq v vw)) st) a st H
    (StartOnNewSlot_body E rec c a seq v vw)"
proof (cases "own_slot c a seq")
  case None
  then show ?thesis by (auto simp: StartOnNewSlot_body_def StartOnNewSlot_enter_def intro!: solo_goto1)
next
  case (Some z)
  obtain s sl where own: "own_slot c a seq = Some (s, sl)" using Some by (cases z) simp
  let ?H = "insert (a, seq) H" and ?st = "(a, Holding_slot seq) # st"
  show ?thesis
  proof (cases "slot_status sl = DECIDED \<or> is_dead s \<noteq> 0")
    case True
    then show ?thesis using own c(2)
      by (auto simp: StartOnNewSlot_body_def StartOnNewSlot_enter_def intro!: solo_goto1)
  next
    case False
    have cH: "orderly {a} ?H c" using False own by (intro orderly_insert [OF c(1)]) (auto simp: own_slot_Some)
    have enter: "local_step E pick H c a (Begin (CallNewSlot seq v vw)) =
        Some (c, ?H, Push (Holding_slot seq) a (Checking seq v vw))" for pick
      using own c(2) False by (simp add: StartOnNewSlot_enter_def)
    let ?out = "if mu_locked s then Stuck
      else if seq \<le> highest_accepted_seq s then
        (case next_n (slot_n sl) (slot_highest_N sl) (num_servers s) of
           None \<Rightarrow> Stuck
         | Some n' \<Rightarrow>
             (case prepare_loop E a seq (length (stub_addresses c a)) (stub_addresses c a)
                     (prep_init v) (upd_slot a seq (\<lambda>sl. sl\<lparr>slot_n := n'\<rparr>) c) of
                Inl out \<Rightarrow> out
              | Inr (p, c1) \<Rightarrow>
                  if vw < p_highest_na p then step_down rec c1 a seq v (p_highest_na p)
                  else accept_phase E rec c1 a seq v vw p))
      else accept_phase E rec c a seq v vw (prep_init v)"
    have body: "finishes E (c, ?H, at a (Checking seq v vw) ?st) a ?st ?H ?out"
    proof (cases "\<not> mu_locked s \<and> seq \<le> highest_accepted_seq s \<and>
        next_n (slot_n sl) (slot_highest_N sl) (num_servers s) \<noteq> None")
      case True
      then obtain n' where n': "next_n (slot_n sl) (slot_highest_N sl) (num_servers s) = Some n'" by auto
      let ?c0 = "upd_slot a seq (\<lambda>sl. sl\<lparr>slot_n := n'\<rparr>) c" and ?bs = "stub_addresses c a"
      let ?loop = "prepare_loop E a seq (length ?bs) ?bs (prep_init v) ?c0"
      have c0: "cluster_rel same_config c ?c0" by (rule cfg.C_upd_slot) (rule cfg.R_slot_n, simp_all)
      have check: "local_step E pick ?H c a (Checking seq v vw) =
          Some (?c0, ?H, Goto (Preparing seq v vw (length ?bs) (prep_init v) ?bs))" for pick
        using own True n' by (simp add: StartOnNewSlot_check_def)
      note loop = solo_prepare_loop [where E = E and a = a and seq = seq and nsrv = "length ?bs" and bs = ?bs
          and p = "prep_init v" and c = ?c0 and H = ?H and v = v and vw = vw and st = ?st]
      have "finishes E (?c0, ?H, at a (Preparing seq v vw (length ?bs) (prep_init v) ?bs) ?st) a ?st ?H
          (case ?loop of Inl out \<Rightarrow> out
           | Inr (p, c1) \<Rightarrow>
               if vw < p_highest_na p then step_down rec c1 a seq v (p_highest_na p)
               else accept_phase E rec c1 a seq v vw p)"
      proof (cases ?loop)
        case (Inl out)
        with loop show ?thesis by simp
      next
        case (Inr z)
        then obtain p c1 where z: "?loop = Inr (p, c1)" by (cases z) simp
        have "cluster_rel same_config ?c0 c1"
          using cfg.C_prepare_loop [OF UNIV_I, where E = E and a = a and seq = seq and nsrv = "length ?bs" and bs = ?bs
              and p = "prep_init v" and c = ?c0] z by simp
        then have "cluster_rel same_config c c1" by (rule cfg.C_trans [OF c0])
        then have c1: "orderly {a} ?H c1"
          using lock_state_prepare_loop [OF z] by (intro orderly_rel [OF cH]) simp_all
        have "local_step E pick ?H c1 a (Prepared seq v vw p) = Some (c1, ?H, Goto
            (if vw < p_highest_na p then Stepping_down seq v (p_highest_na p)
             else accept_or_learn c1 a seq v vw p))" for pick by (simp add: prepare_end_def)
        then have "finishes E (c1, ?H, at a (Prepared seq v vw p) ?st) a ?st ?H
            (if vw < p_highest_na p then step_down rec c1 a seq v (p_highest_na p)
             else accept_phase E rec c1 a seq v vw p)"
          by (rule finishes_goto) (use solo_step_down [OF rec c1] solo_accept_phase [OF fair rec c1] in auto)
        moreover have "solo E (?c0, ?H, at a (Preparing seq v vw (length ?bs) (prep_init v) ?bs) ?st)
            (c1, ?H, at a (Prepared seq v vw p) ?st)" using loop z by simp
        ultimately show ?thesis unfolding z by (auto intro: finishes_solo)
      qed
      then show ?thesis using True n' by (simp add: finishes_goto [OF check])
    next
      case False
      have check: "local_step E pick ?H c a (Checking seq v vw) =
          Some (c, ?H, Goto (accept_or_learn c a seq v vw (prep_init v)))"
        if "\<not> mu_locked s" "\<not> seq \<le> highest_accepted_seq s" for pick
        using own that by (simp add: StartOnNewSlot_check_def)
      show ?thesis
        using False finishes_goto [OF check _ solo_accept_phase [OF fair rec cH]] by (auto split: option.split)
    qed
    have "?H - {(a, seq)} = H" using c(2) by auto
    with finishes_push [OF enter _ finishes_Holding_slot [OF body]] have
      "finishes E (c, H, at a (Begin (CallNewSlot seq v vw)) st) a st H ?out" by simp
    then show ?thesis using own False by (simp add: StartOnNewSlot_body_def)
  qed
qed

lemma ForwardLeader_Inl: "ForwardLeader rec l seq v c = Inl out \<Longrightarrow> out = Stuck \<or> out = Out_of_fuel"
  by (auto simp: ForwardLeader_def split: prod.splits if_splits outcome.splits)

lemma solo_StartOnForward:
  assumes rec: "scheduled E rec" and new: "\<And>c k seq v vw. rec c a (CallNewSlot seq v vw) = Out_of_fuel \<or>
      (\<exists>rec'. rec c a (CallNewSlot seq v vw) = StartOnNewSlot_body E rec' c a seq v vw)"
    and c: "orderly {a} H c"
  shows "finishes E (c, H, at a (Begin (CallForward seq v)) st) a st H (StartOnForward_body rec c a seq v)"
proof (cases "node c a")
  case None
  then show ?thesis by (auto simp: StartOnForward_body_def StartOnForward_enter_def intro!: solo_goto1)
next
  case (Some s)
  obtain sl s1 where add: "addSlots (s\<lparr>mu_locked := True\<rparr>) seq = (sl, s1)" by fastforce
  have s1: "s1 = snd (addSlots (s\<lparr>mu_locked := True\<rparr>) seq)" using add by simp
  let ?c1 = "put_node a s1 c" and ?st = "(a, Holding_mu) # st" and ?l = "leader_address s"
  let ?own = "slot_status sl \<noteq> DECIDED \<and> view s smod num_servers s = me s \<and> \<not> leader_dead s"
  have l1: "leader_address s1 = ?l" "paxos_stubs_map s1 = paxos_stubs_map s" "mu_locked s1" "is_dead s1 = is_dead s"
    by (simp_all add: s1 leader_address_def)
  have c1: "orderly {} H ?c1"
    by (rule orderly_lock [OF c Some]) (simp_all add: s1 same_config_def)
  show ?thesis
  proof (cases "mu_locked s")
    case True
    with Some show ?thesis by (simp add: StartOnForward_body_def)
  next
    case free: False
    show ?thesis
    proof (cases ?own)
      case True
      have enter: "local_step E pick H c a (Begin (CallForward seq v)) =
          Some (?c1, H, Push Holding_mu a (Begin (CallNewSlot seq v (view s))))" for pick
        using Some free add True by (simp add: StartOnForward_enter_def)
      have slot: "own_slot ?c1 a seq = Some (s1, sl)"
        using add by (simp add: own_slot_Some s1) (metis add fst_conv get_addSlots s1 snd_conv)
      have "finishes E (?c1, H, at a (Begin (CallNewSlot seq v (view s))) ?st) a ?st H
          (rec ?c1 a (CallNewSlot seq v (view s)))"
      proof (cases "is_dead s = 0")
        case True
        then have "StartOnNewSlot_body E rec' ?c1 a seq v (view s) = Stuck" for rec'
          using slot l1 \<open>?own\<close> by (simp add: StartOnNewSlot_body_def)
        then show ?thesis using new [of ?c1 seq v "view s"] by auto
      next
        case False
        then have "(a, seq) \<notin> H" using orderlyD(2) [OF c Some] by blast
        with c1 show ?thesis by (intro scheduledD [OF rec]) (simp add: may_enter_def)
      qed
      with Some free add True finishes_push [OF enter _ finishes_Holding_mu] show ?thesis
        by (simp add: StartOnForward_body_def Let_def)
    next
      case False
      have enter: "local_step E pick H c a (Begin (CallForward seq v)) =
          Some (?c1, H, Push Holding_mu a (Forwarding seq v))" for pick
        using Some free add False by (simp add: StartOnForward_enter_def)
      obtain fate c0 where fate: "next_fate ?c1 = (fate, c0)" by fastforce
      have c0: "orderly {} H c0" using c1 node_next_fate [OF fate] by (simp add: orderly_def)
      let ?out = "if map_of (paxos_stubs_map s) ?l = None then Died (kill_node a ?c1)
          else (case ForwardLeader rec ?l seq v ?c1 of
                  Inl out \<Rightarrow> out
                | Inr (ok, c2) \<Rightarrow> if ok then Done c2 else Stuck)"
      have "finishes E (?c1, H, at a (Forwarding seq v) ?st) a ?st H ?out"
      proof (cases "map_of (paxos_stubs_map s) ?l = None")
        case True
        then show ?thesis using l1 by (auto simp: forward_call_def intro!: solo_goto1)
      next
        case stub: False
        show ?thesis
        proof (cases "fate = Lost \<or> node c0 ?l = None")
          case True
          then show ?thesis using stub fate by (auto simp: ForwardLeader_def)
        next
          case False
          have call: "local_step E pick H ?c1 a (Forwarding seq v) =
              Some (c0, H, Push (Awaiting fate) ?l (Begin (CallStart seq v)))" for pick
            using False stub fate l1 by (simp add: forward_call_def)
          have "finishes E (c0, H, at ?l (Begin (CallStart seq v)) ((a, Awaiting fate) # ?st)) ?l
              ((a, Awaiting fate) # ?st) H (rec c0 ?l (CallStart seq v))"
            by (rule scheduledD [OF rec]) (simp add: may_enter_def c0)
          from finishes_push [OF call _ finishes_Awaiting [OF this]] show ?thesis
            using stub fate False
            by (cases "rec c0 ?l (CallStart seq v)") (auto simp: ForwardLeader_def)
        qed
      qed
      from finishes_push [OF enter _ finishes_Holding_mu [OF this]] Some free add False show ?thesis
        by (auto simp: StartOnForward_body_def Let_def dest!: ForwardLeader_Inl split: if_splits sum.splits)
    qed
  qed
qed

lemma solo_Start:
  assumes rec: "scheduled E rec" and c: "orderly {} H c"
  shows "finishes E (c, H, at a (Begin (CallStart seq v)) st) a st H (Start_body rec c a seq v)"
proof (cases "node c a")
  case None
  then show ?thesis by (auto simp: Start_body_def Start_enter_def intro!: solo_goto1)
next
  case (Some s)
  obtain sl s1 where add: "addSlots s seq = (sl, s1)" by fastforce
  have s1: "s1 = snd (addSlots s seq)" using add by simp
  let ?c1 = "put_node a s1 c"
  have c1: "orderly {} H ?c1"
    by (rule orderly_put [OF c Some]) (simp_all add: s1 same_config_def)
  have fw: "orderly {a} H ?c1" using c1 by (simp add: orderly_def)
  have free: "(a, seq) \<notin> H" if "\<not> mu_locked s" using orderlyD(3) [OF c Some] that by blast
  have call: "finishes E (?c1, H, at a (Begin k) ((a, Joining) # st)) a st H (joined a (rec ?c1 a k))"
    if "may_enter k H ?c1 a" for k
    by (rule finishes_Joining [OF scheduledD [OF rec that]])
  have spawn: "finishes E (?c1, H, at a (Spawning seq v) st) a st H (joined a (rec ?c1 a (CallNewSlot seq v (view s))))"
    if "\<not> mu_locked s"
    by (rule finishes_push [OF _ _ call]) (use c1 free that in \<open>simp_all add: Start_spawn_def may_enter_def s1\<close>)
  show ?thesis
  proof (cases "mu_locked s")
    case True
    with Some show ?thesis by (simp add: Start_body_def)
  next
    case False
    note sec = Start_enter_def Let_def
    consider "seq < lowest_slot s" | "\<not> seq < lowest_slot s" "slot_status sl = DECIDED \<or> is_dead s \<noteq> 0"
      | "\<not> seq < lowest_slot s" "slot_status sl \<noteq> DECIDED" "is_dead s = 0" by blast
    then show ?thesis
    proof cases
      case 1
      with Some False show ?thesis by (auto simp: Start_body_def sec intro!: solo_goto1)
    next
      case 2
      with Some False add show ?thesis by (auto simp: Start_body_def sec intro!: solo_goto1)
    next
      case 3
      show ?thesis
      proof (cases "view s smod num_servers s = me s")
        case True
        then have "local_step E pick H c a (Begin (CallStart seq v)) =
            Some (?c1, H, Goto (if leader_dead s then Returned else Spawning seq v))" for pick
          using Some False add 3 by (simp add: sec)
        from finishes_goto [OF this] spawn [OF False] Some False add 3 True show ?thesis
          by (auto simp: Start_body_def Let_def)
      next
        case other: False
        then have "local_step E pick H c a (Begin (CallStart seq v)) =
            Some (?c1, H, Push Joining a (Begin (CallForward seq v)))" for pick
          using Some False add 3 by (simp add: sec)
        from finishes_push [OF this _ call] fw Some False add 3 other show ?thesis
          by (simp add: Start_body_def Let_def may_enter_def)
      qed
    qed
  qed
qed

lemma scheduled_exec: "fair_order E \<Longrightarrow> scheduled E (exec f E)"
proof (induction f)
  case 0
  show ?case by (simp add: scheduled_def)
next
  case (Suc f)
  note IH = Suc.IH [OF Suc.prems]
  have new: "exec f E c a (CallNewSlot seq v vw) = Out_of_fuel \<or>
      (\<exists>rec'. exec f E c a (CallNewSlot seq v vw) = StartOnNewSlot_body E rec' c a seq v vw)" for c a seq v vw
    by (cases f) auto
  show ?case
    using solo_Start [OF IH] solo_StartOnForward [OF IH new] solo_StartOnNewSlot [OF Suc.prems IH]
    by (auto simp: scheduled_def may_enter_def split: call.splits)
qed

text \<open>A thread that nobody interrupts is a run of a system with that thread only.\<close>

lemma sys_run_solo:
  assumes "solo E (c, H, th) (c', H', th')"
  shows "\<exists>ps. sys_run E (map (Move 0) ps) \<lparr>cell_state = c, slot_held = H, tasks = [th]\<rparr> =
    Some \<lparr>cell_state = c', slot_held = H', tasks = [th']\<rparr>"
  using assms
proof (induction "(c, H, th)" "(c', H', th')" arbitrary: c H th rule: solo.induct)
  case solo_refl
  then show ?case by (intro exI [of _ "[]"]) simp
next
  case (solo_step pick c H th z)
  obtain c1 H1 th1 where z: "z = (c1, H1, th1)" by (cases z)
  obtain ps where "sys_run E (map (Move 0) ps) \<lparr>cell_state = c1, slot_held = H1, tasks = [th1]\<rparr> =
      Some \<lparr>cell_state = c', slot_held = H', tasks = [th']\<rparr>"
    using solo_step(3) z by blast
  with solo_step(1) z show ?case by (intro exI [of _ "pick # ps"]) simp
qed

text \<open>\<open>alone E c a seq v k c'\<close>: a proposal that arrives in an idle cell can, undisturbed, end with \<open>k\<close>.\<close>

definition alone :: "'d env \<Rightarrow> 'd cluster \<Rightarrow> string \<Rightarrow> int \<Rightarrow> string \<Rightarrow> control \<Rightarrow> 'd cluster \<Rightarrow> bool" where
  "alone E c a seq v k c' \<longleftrightarrow>
     (\<exists>ps. sys_run E (Arrival a seq v # map (Move 0) ps) (idle c) =
        Some \<lparr>cell_state = c', slot_held = {}, tasks = [at a k []]\<rparr>)"

lemma aloneI: "solo E (c, {}, at a (Begin (CallStart seq v)) []) (c', {}, at a k []) \<Longrightarrow> alone E c a seq v k c'"
  unfolding alone_def by (drule sys_run_solo) (simp add: idle_def add_task_def)

section \<open>Properties\<close>

text \<open>
  C14: \<open>Start\<close> as a whole is a schedule of its steps.  On a cell whose servers have address tables,
  when \<open>Start\<close> returns, raises or ends the process of its server, the system of threads has a run in
  which the proposal arrives and its thread takes its steps without being interrupted, which ends in the
  same way on the same cluster, with no mutex of a slot held any more.
\<close>
theorem start_is_a_schedule:
  assumes "fair_order E" "\<And>b s. node c b = Some s \<Longrightarrow> smap_ok (paxos_stubs_map s)"
  shows "case Start E c a seq v of
      Done c' \<Rightarrow> alone E c a seq v Returned c'
    | Thrown x c' \<Rightarrow> alone E c a seq v (Raised x) c'
    | Died c' \<Rightarrow> alone E c a seq v Killed c'
    | _ \<Rightarrow> True"
proof -
  have "orderly {} {} c" using assms(2) by (simp add: orderly_def)
  then have "finishes E (c, {}, at a (Begin (CallStart seq v)) []) a [] {} (Start E c a seq v)"
    unfolding Start_def by (intro scheduledD [OF scheduled_exec [OF assms(1)]]) (simp add: may_enter_def)
  then show ?thesis by (auto simp: finishes_def intro: aloneI split: outcome.splits)
qed

lemma sample_Start_done: "case Start mem_env sample_cell ''127.0.0.1:50051'' 1 ''a'' of Done c' \<Rightarrow> True | _ \<Rightarrow> False"
  by code_simp

lemma start_is_a_schedule_witness:
  "\<exists>c'. Start mem_env sample_cell ''127.0.0.1:50051'' 1 ''a'' = Done c' \<and>
     alone mem_env sample_cell ''127.0.0.1:50051'' 1 ''a'' Returned c'"
proof -
  have "smap_ok (paxos_stubs_map s)" if "node sample_cell b = Some s" for b s
    using that by (auto simp: sample_cell_def node_def smap_ok_def split: if_splits)
  then show ?thesis
    using start_is_a_schedule [of mem_env sample_cell "''127.0.0.1:50051''" 1 "''a''"] sample_Start_done
    by (auto split: outcome.splits)
qed

end
