(* ===== verification/ThreadValues.thy ===== *)
theory ThreadValues
  imports Threads Validity
begin

text \<open>
  Integrity in every interleaving: the values in the local variables of the threads are from the same
  set as the values of the slots, and no step brings in another one.
\<close>

section \<open>Honest threads\<close>

fun honest_control :: "string set \<Rightarrow> control \<Rightarrow> bool" where
  "honest_control V (Begin k) \<longleftrightarrow> call_value k \<in> V"
| "honest_control V (Spawning q u) \<longleftrightarrow> u \<in> V"
| "honest_control V (Checking q u vw) \<longleftrightarrow> u \<in> V"
| "honest_control V (Preparing q u vw n p bs) \<longleftrightarrow> u \<in> V \<and> picked V p"
| "honest_control V (Prepared q u vw p) \<longleftrightarrow> u \<in> V \<and> picked V p"
| "honest_control V (Accepting q u vw va na ac bs) \<longleftrightarrow> u \<in> V \<and> va \<in> V"
| "honest_control V (Stepping_down q u na) \<longleftrightarrow> u \<in> V"
| "honest_control V (Learning q va bs) \<longleftrightarrow> va \<in> V"
| "honest_control V (Forwarding q u) \<longleftrightarrow> u \<in> V"
| "honest_control V (Beating vw ps dn bs) \<longleftrightarrow> honest_proto V ps"
| "honest_control V (Adopting vw ps dn bs rs) \<longleftrightarrow> honest_proto V ps \<and> honest_proto V rs"
| "honest_control V _ \<longleftrightarrow> True"

abbreviation honest_cell :: "'d env \<Rightarrow> string set \<Rightarrow> (string \<times> string) set \<Rightarrow> 'd cluster \<Rightarrow> bool" where
  "honest_cell E V K \<equiv> everywhere (honest E V K)"

lemma honest_cell_numbers:
  assumes "closed E V K" "honest_cell E V K c"
  shows "honest_cell E V K (upd_slot a q (\<lambda>sl. sl\<lparr>slot_n := n\<rparr>) c)"
    and "honest_cell E V K (note_highest_N a q p r c)"
    and "honest_cell E V K (unlock_mu a c)"
proof -
  have ev: "everywhere (\<lambda>s. closed E V K \<and> honest E V K s) = honest_cell E V K"
    using assms(1) by (simp add: everywhere_def fun_eq_iff)
  have "\<exists>i j. sl\<lparr>slot_n := n\<rparr> = sl\<lparr>slot_n := i, slot_highest_N := j\<rparr>" for sl :: paxos_slot
    by (rule exI [of _ n], rule exI [of _ "slot_highest_N sl"]) simp
  then show "honest_cell E V K (upd_slot a q (\<lambda>sl. sl\<lparr>slot_n := n\<rparr>) c)"
    using hon.I_numbers [where E = E and V = V and K = K, unfolded ev, OF assms(2)] by blast
  show "honest_cell E V K (note_highest_N a q p r c)"
    by (rule hon.I_note_highest_N [where E = E and V = V and K = K, unfolded ev, OF assms(2)])
  show "honest_cell E V K (unlock_mu a c)"
    by (rule hon.I_unlock [where E = E and V = V and K = K, unfolded ev, OF assms(2)])
qed

lemma honest_cell_put:
  "honest_cell E V K c \<Longrightarrow> node c a = Some s \<Longrightarrow> (honest E V K s \<Longrightarrow> honest E V K t) \<Longrightarrow> honest_cell E V K (put_node a t c)"
  by (auto intro: everywhere_put dest: everywhereD)

text \<open>\<open>honest_move\<close>: the cell and the control after a step.\<close>

definition honest_move :: "'d env \<Rightarrow> string set \<Rightarrow> (string \<times> string) set \<Rightarrow> 'd cluster \<Rightarrow> move \<Rightarrow> bool" where
  "honest_move E V K c mv \<longleftrightarrow> honest_cell E V K c \<and> honest_control V (next_control mv)"

lemma honest_accept_or_learn:
  "v \<in> V \<Longrightarrow> picked V p \<Longrightarrow> honest_control V (accept_or_learn c a q v vw p)"
  by (simp add: accept_or_learn_def picked_def)

lemma picked_init: "v \<in> V \<Longrightarrow> picked V (prep_init v)"
  by (simp add: picked_def prep_init_def)

lemma honest_sections:
  assumes V: "closed E V K" and c: "honest_cell E V K c"
  shows "Start_enter H c a q u = Some (c', H', mv) \<Longrightarrow> u \<in> V \<Longrightarrow> honest_move E V K c' mv"
    and "StartOnForward_enter H c a q u = Some (c', H', mv) \<Longrightarrow> u \<in> V \<Longrightarrow> honest_move E V K c' mv"
    and "StartOnNewSlot_check H c a q u vw = Some (c', H', mv) \<Longrightarrow> u \<in> V \<Longrightarrow> honest_move E V K c' mv"
    and "step_down_section H c a q u na = Some (c', H', mv) \<Longrightarrow> u \<in> V \<Longrightarrow> honest_move E V K c' mv"
    and "forward_call H c a q u = Some (c', H', mv) \<Longrightarrow> u \<in> V \<Longrightarrow> honest_move E V K c' mv"
proof -
  have empty: "[] \<in> V" using V by (simp add: closed_def)
  have add: "honest_cell E V K (put_node a (snd (addSlots s q)) c)"
    "honest_cell E V K (put_node a (snd (addSlots (s\<lparr>mu_locked := True\<rparr>) q)) c)"
    "honest_cell E V K (put_node a (s\<lparr>view := na, leader_dead := False, missed_heartbeats := 0\<rparr>) c)"
    if "node c a = Some s" for s
    using that by (auto intro!: honest_cell_put [OF c that] honest_addSlots(2) [OF empty] simp: honest_def)
  show "Start_enter H c a q u = Some (c', H', mv) \<Longrightarrow> u \<in> V \<Longrightarrow> honest_move E V K c' mv"
    using c add(1) by (auto simp: Start_enter_def honest_move_def Let_def split_beta split: option.splits if_splits)
  show "StartOnForward_enter H c a q u = Some (c', H', mv) \<Longrightarrow> u \<in> V \<Longrightarrow> honest_move E V K c' mv"
    using c add(2) by (auto simp: StartOnForward_enter_def honest_move_def split_beta split: option.splits if_splits)
  show "StartOnNewSlot_check H c a q u vw = Some (c', H', mv) \<Longrightarrow> u \<in> V \<Longrightarrow> honest_move E V K c' mv"
    using c honest_cell_numbers(1) [OF V c]
    by (auto simp: StartOnNewSlot_check_def honest_move_def picked_init intro!: honest_accept_or_learn split: option.splits if_splits)
  show "step_down_section H c a q u na = Some (c', H', mv) \<Longrightarrow> u \<in> V \<Longrightarrow> honest_move E V K c' mv"
    using c add(3) by (auto simp: step_down_section_def honest_move_def split: option.splits if_splits)
  have "honest_cell E V K c0" if "next_fate c = (f, c0)" for f c0
    using node_next_fate [OF that] c by (simp add: everywhere_def)
  then show "forward_call H c a q u = Some (c', H', mv) \<Longrightarrow> u \<in> V \<Longrightarrow> honest_move E V K c' mv"
    using c everywhere_kill [OF c, of a]
    by (auto simp: forward_call_def honest_move_def split: option.splits prod.splits if_splits)
qed

lemma honest_prepare_call:
  assumes V: "closed E V K" and c: "honest_cell E V K c"
    and step: "prepare_call E H c a q u vw n p bs = Some (c', H', mv)" "u \<in> V" "picked V p"
  shows "honest_move E V K c' mv"
proof -
  have call: "honest_cell E V K c1" if "rpc b (\<lambda>t. Prepare E t req) c = (r, c1)" for b req r c1
    by (rule everywhere_rpc [OF c that honest_Prepare(1) [OF V]])
  have reply: "picked V p'" if "rpc b (\<lambda>t. Prepare E t req) c = (Ok x, c1)" "prep_reply n x p = (p', left)" for b req x c1 p' left
    using rpc_reply [OF that(1)] honest_Prepare(2) [OF V everywhereD [OF c]] picked_reply [OF step(3) _ _ that(2)] by blast
  show ?thesis
    using step c
    by (auto simp: prepare_call_def honest_move_def split: list.splits option.splits prod.splits result.splits if_splits
        intro: call honest_cell_numbers(2) [OF V call] dest: reply)
qed

lemma honest_accept_call:
  assumes V: "closed E V K" and c: "honest_cell E V K c"
    and step: "accept_call E pick H c a q u vw va na ac bs = Some (c', H', mv)" "u \<in> V" "va \<in> V"
  shows "honest_move E V K c' mv"
proof -
  have "honest_cell E V K c1" if "rpc b (\<lambda>t. Accept E t req) c = (r, c1)" "ar_value req = va" for b req r c1
    by (rule everywhere_rpc [OF c that(1) honest_Accept [OF V]]) (simp_all add: that(2) step(3))
  with step c everywhere_kill [OF c, of a] show ?thesis
    by (auto simp: accept_call_def honest_move_def split: option.splits prod.splits result.splits if_splits)
qed

lemma honest_learn_call:
  assumes V: "closed E V K" and c: "honest_cell E V K c"
    and step: "learn_call E pick H c a q va bs = Some (c', H', mv)" "va \<in> V"
  shows "honest_move E V K c' mv"
proof -
  have "honest_cell E V K c1" if "rpc b (\<lambda>t. Learn E t req) c = (r, c1)" "dr_value req = va" for b req r c1
    by (rule everywhere_rpc [OF c that(1) honest_Learn [OF V]]) (simp_all add: that(2) step(2))
  with step c everywhere_kill [OF c, of a] show ?thesis
    by (auto simp: learn_call_def honest_move_def split: option.splits prod.splits result.splits if_splits)
qed

lemma honest_beats:
  assumes V: "closed E V K" and c: "honest_cell E V K c"
  shows "beat_enter H c a = Some (c', H', mv) \<Longrightarrow> honest_move E V K c' mv"
    and "beat_call H c a vw ps dn bs = Some (c', H', mv) \<Longrightarrow> honest_proto V ps \<Longrightarrow> honest_move E V K c' mv"
    and "beat_adopt H c a vw ps dn bs rs = Some (c', H', mv) \<Longrightarrow> honest_proto V ps \<Longrightarrow> honest_proto V rs \<Longrightarrow>
      honest_move E V K c' mv"
proof -
  have empty: "[] \<in> V" using V by (simp add: closed_def)
  have request: "honest_proto V (proto_of_slots (request_slots (view s) (slots s) []))" if "node c a = Some s" for s
    by (rule honest_protoI, rule request_slots_values) (use everywhereD [OF c that] in \<open>simp_all add: honest_def\<close>)
  with c show "beat_enter H c a = Some (c', H', mv) \<Longrightarrow> honest_move E V K c' mv"
    by (auto simp: beat_enter_def honest_move_def split: option.splits if_splits)
  show "honest_move E V K c' mv" if step: "beat_call H c a vw ps dn bs = Some (c', H', mv)" and ps: "honest_proto V ps"
  proof -
    have "honest_cell E V K c1" if "rpc b (\<lambda>t. Heartbeat t req) c = (r, c1)" "hb_slots req = ps" for b req r c1
      by (rule everywhere_rpc [OF c that(1) honest_Heartbeat(1) [OF empty]]) (use that(2) ps in simp_all)
    moreover have "honest_proto V (hp_slots x)"
      if "rpc b (\<lambda>t. Heartbeat t req) c = (Ok x, c1)" "hb_slots req = ps" for b req x c1
      using rpc_reply [OF that(1)] honest_Heartbeat(2) [OF empty everywhereD [OF c]] that(2) ps by blast
    ultimately show ?thesis
      using step c ps
      by (auto simp: beat_call_def honest_move_def Let_def split: list.splits option.splits prod.splits result.splits if_splits)
  qed
  show "honest_move E V K c' mv"
    if step: "beat_adopt H c a vw ps dn bs rs = Some (c', H', mv)" and "honest_proto V ps" "honest_proto V rs"
  proof -
    have "honest_cell E V K (put_node a (adopt_slots (slots_of_proto rs) s) c)" if "node c a = Some s" for s
      by (rule honest_cell_put [OF c that]) (use \<open>honest_proto V rs\<close> in \<open>simp add: honest_adopt_slots [OF empty] honest_proto_def\<close>)
    with that c show ?thesis by (auto simp: beat_adopt_def honest_move_def split: option.splits if_splits)
  qed
qed

lemma honest_Elect: "honest E V K s \<Longrightarrow> honest E V K (snd (Elect s req))"
  by (simp add: honest_def)

lemma honest_finish: "elect_finish target n e s = Some t \<Longrightarrow> honest E V K s \<Longrightarrow> honest E V K t"
  by (auto simp: elect_finish_def follow_view_def honest_def split: if_splits)

lemma honest_ballot_call:
  assumes c: "honest_cell E V K c" and step: "ballot_call H c a my_view off e bs = Some (c', H', mv)"
  shows "honest_move E V K c' mv"
proof -
  have "honest_cell E V K c1" if "rpc b (\<lambda>t. Elect t req) c = (r, c1)" for b req r c1
    by (rule everywhere_rpc [OF c that honest_Elect])
  with step c show ?thesis
    by (auto simp: ballot_call_def honest_move_def intro!: honest_cell_put intro: honest_finish
        split: list.splits option.splits prod.splits result.splits if_splits)
qed

lemma honest_local_step:
  assumes V: "closed E V K" and c: "honest_cell E V K c"
    and step: "local_step E pick H c a k = Some (c', H', mv)" and k: "honest_control V k"
  shows "honest_move E V K c' mv"
  using step k c
  by (cases "(E, pick, H, c, a, k)" rule: local_step.cases)
    (auto intro: honest_sections [OF V c] honest_prepare_call [OF V c] honest_accept_call [OF V c]
      honest_learn_call [OF V c] honest_beats [OF V c] honest_ballot_call,
     auto simp: honest_move_def StartOnNewSlot_enter_def Start_spawn_def prepare_end_def ballot_enter_def
      honest_accept_or_learn split: option.splits if_splits)

section \<open>Honest systems\<close>

definition honest_system :: "'d env \<Rightarrow> string set \<Rightarrow> (string \<times> string) set \<Rightarrow> 'd system \<Rightarrow> bool" where
  "honest_system E V K y \<longleftrightarrow>
     honest_cell E V K (cell_state y) \<and> (\<forall>th \<in> set (tasks y). honest_control V (t_control th))"

lemma honest_unwind:
  assumes "closed E V K" "honest_cell E V K c" "unwind fr b k H c = (c', H', k')" "over k"
  shows "honest_cell E V K c' \<and> honest_control V k'"
  using assms everywhere_kill [OF assms(2), of b] honest_cell_numbers(3) [OF assms(1,2), of b]
  by (cases "(fr, b, k, H, c)" rule: unwind.cases) (auto simp: over_def split: control.splits)

lemma honest_advance:
  assumes "closed E V K" "honest_cell E V K c" "honest_control V (t_control th)"
    and "advance E pick c H th = Some (c', H', th')"
  shows "honest_cell E V K c' \<and> honest_control V (t_control th')"
  using assms(3,4) honest_unwind [OF assms(1,2)] honest_local_step [OF assms(1,2)]
  by (fastforce simp: advance_def honest_move_def
      split: if_splits list.splits prod.splits option.splits move.splits)

lemma honest_upd_node:
  "honest_system E V K y \<Longrightarrow> (\<And>s. honest E V K s \<Longrightarrow> honest E V K (f s)) \<Longrightarrow> honest_system E V K (upd_node a f y)"
  by (auto simp: honest_system_def upd_node_def intro!: everywhere_put dest: everywhereD split: option.split)

lemma honest_add_task:
  "honest_system E V K y \<Longrightarrow> honest_control V k \<Longrightarrow> honest_system E V K (add_task a k y)"
  by (simp add: honest_system_def add_task_def)

lemma honest_detector:
  "honest E V K s \<Longrightarrow> honest E V K (snd (DetectLeaderFailure s))"
  "honest E V K s \<Longrightarrow> honest E V K (snd (election_timer s))"
  by (auto simp: DetectLeaderFailure_def election_timer_def with_mu_def Let_def honest_def)

text \<open>The values that have been proposed in a run.\<close>

definition arrived :: "sys_event list \<Rightarrow> string set" where
  "arrived es = {u. \<exists>a q. Arrival a q u \<in> set es}"

lemma honest_sys_step:
  assumes V: "closed E V K" and y: "honest_system E V K y" and e: "arrived [e] \<subseteq> V"
    and step: "sys_step E y e = Some y'"
  shows "honest_system E V K y'"
proof (cases e)
  case (Move i pick)
  then obtain c' H' th' where i: "i < length (tasks y)"
    and adv: "advance E pick (cell_state y) (slot_held y) (tasks y ! i) = Some (c', H', th')"
    and y': "y' = \<lparr>cell_state = c', slot_held = H', tasks = (tasks y)[i := th']\<rparr>"
    using step by (auto split: if_splits option.splits)
  from y i have "honest_cell E V K (cell_state y)" "honest_control V (t_control (tasks y ! i))"
    by (simp_all add: honest_system_def)
  from honest_advance [OF V this adv] y y' set_update_subset_insert [of "tasks y" i th'] show ?thesis
    by (auto simp: honest_system_def)
next
  case (Arrival a q u)
  with step e y show ?thesis by (auto simp: arrived_def intro: honest_add_task)
next
  case (Tick a)
  have "honest_system E V K (upd_node a (\<lambda>s. snd (DetectLeaderFailure s)) y)"
    by (rule honest_upd_node [OF y honest_detector(1)])
  with Tick step y show ?thesis
    by (auto simp: detector_tick_def Let_def intro: honest_add_task split: option.splits result.splits prod.splits)
next
  case (Timer_due a)
  with step honest_upd_node [OF y honest_detector(2)] show ?thesis by auto
next
  case (Crash a)
  with step y show ?thesis by (auto simp: honest_system_def everywhere_kill)
qed (use step y in \<open>auto intro: honest_add_task\<close>)

section \<open>Properties\<close>

text \<open>
  C6: integrity in every interleaving.  Whatever proposals, rounds of heartbeats, elections, failure
  detection, timers and deaths of processes are interleaved, over any network, a cell that started
  with empty slot tables decides nothing but values that clients have proposed (or the empty string),
  and every entry of every database was there at the start or is the key and the value of a proposal.
\<close>
theorem only_arrivals_are_decided:
  assumes "rocks_ok E" "null_str E = []" "\<And>b s. node c b = Some s \<Longrightarrow> slots s = []"
    and "sys_run E es (idle c) = Some y" "node (cell_state y) b = Some t"
  shows "(\<forall>q u. decided t q = Some u \<longrightarrow> u = [] \<or> u \<in> arrived es) \<and>
    (\<forall>key m. store E (paxos_db t) key = Some m \<longrightarrow>
       (\<exists>a s. node c a = Some s \<and> store E (paxos_db s) key = Some m) \<or>
       (\<exists>v \<in> arrived es. getKeyValue v = Inr (key, m)))"
proof -
  let ?V = "insert [] (arrived es)"
  let ?K = "{(k, m). (\<exists>a s. node c a = Some s \<and> store E (paxos_db s) k = Some m) \<or>
      (\<exists>v \<in> arrived es. getKeyValue v = Inr (k, m))}"
  have V: "closed E ?V ?K" using assms(1,2) by (auto simp: closed_def getKeyValue_def)
  have init: "honest_system E ?V ?K (idle c)"
    using assms(3) by (auto simp: honest_system_def idle_def everywhere_def honest_def)
  have "honest_system E ?V ?K y"
    by (rule sys_run_invariant [where Q = "honest_system E ?V ?K", OF _ init assms(4)])
      (rule honest_sys_step [OF V], auto simp: arrived_def)
  then have t: "honest E ?V ?K t" using assms(5) by (auto simp: honest_system_def dest: everywhereD)
  have "u \<in> ?V" if "decided t q = Some u" for q u
    using that honest_get [OF t, of q] by (auto simp: decided_def honest_slot_def split: option.splits if_splits)
  moreover have "(k, m) \<in> ?K" if "store E (paxos_db t) k = Some m" for k m
    using t that by (simp add: honest_def)
  ultimately show ?thesis by blast
qed

lemma only_arrivals_are_decided_witness:
  "\<exists>y t. sys_run mem_env sample_schedule (idle sample_cell) = Some y \<and>
     node (cell_state y) ''127.0.0.1:50051'' = Some t \<and> decided t 1 = Some ''a'' \<and>
     ''a'' \<in> arrived sample_schedule"
proof -
  obtain y t where y: "sys_run mem_env sample_schedule (idle sample_cell) = Some y"
    "node (cell_state y) ''127.0.0.1:50051'' = Some t" "decided t 1 = Some ''a''"
    using sample_schedule_run(1) by (auto simp: bind_eq_Some_conv)
  have start: "slots s = []" if "node sample_cell b = Some s" for b s
    using that by (auto simp: sample_cell_def node_def split: if_splits)
  note integrity = only_arrivals_are_decided [OF mem_env_ok(1) mem_env_sel(5) _ y(1,2)]
  have "''a'' \<in> arrived sample_schedule" using integrity [THEN conjunct1] start y(3) by blast
  with y show ?thesis by blast
qed

end
