(* ===== verification/ThreadOrder.thy ===== *)
theory ThreadOrder
  imports Threads
begin

text \<open>
  What holds in every interleaving.  A relation that every handler and every local section of a
  server respects is respected by every step of the system (locale \<open>thread_relation\<close>); the instance
  says that no decision is lost or changed.  Then the mutex of a slot: two threads are never between
  the lock and the end of \<open>StartOnNewSlot\<close> for the same slot of the same server.
\<close>

section \<open>Relations that threads respect\<close>

locale thread_relation = server_relation E UNIV R
  for E :: "'d env" and R :: "'d paxos_impl \<Rightarrow> 'd paxos_impl \<Rightarrow> bool" +
  assumes R_Elect: "R s (snd (Elect s ereq))"
    and R_Heartbeat: "R s (snd (Heartbeat s hreq))"
    and R_adopt: "R s (adopt_slots m s)"
    and R_finish: "elect_finish target nsrv e s = Some t \<Longrightarrow> R s t"
    and R_detector: "R s (snd (DetectLeaderFailure s))"
    and R_timer: "R s (snd (election_timer s))"
begin

lemma T_kill: "cluster_rel R c (kill_node a c)"
  by (rule C_kill [OF C_refl])

lemma T_lock: "R s (snd (addSlots (s\<lparr>mu_locked := b\<rparr>) q))"
  by (rule R_trans [OF R_lock R_addSlots]) simp

lemma T_fate: "next_fate c = (fate, c0) \<Longrightarrow> cluster_rel R c c0"
  using node_next_fate [of c fate c0] by (simp add: cluster_rel_def R_refl)

lemmas T_sections = C_refl T_kill T_fate C_put R_addSlots T_lock R_view R_adopt R_finish

lemma T_prepare_call:
  "prepare_call E H c a seq v vw nsrv p bs = Some (c', H', mv) \<Longrightarrow> cluster_rel R c c'"
  using C_trans [OF C_rpc [OF _ R_Prepare] C_note_highest_N] C_rpc [OF _ R_Prepare]
  by (auto simp: prepare_call_def C_refl split: list.splits option.splits prod.splits result.splits)

lemma T_accept_call:
  "accept_call E pick H c a seq v vw va na st bs = Some (c', H', mv) \<Longrightarrow> cluster_rel R c c'"
  using C_rpc [OF _ R_Accept]
  by (auto simp: accept_call_def T_sections split: option.splits prod.splits result.splits if_splits)

lemma T_learn_call:
  "learn_call E pick H c a seq va bs = Some (c', H', mv) \<Longrightarrow> cluster_rel R c c'"
  using C_rpc [OF _ R_Learn]
  by (auto simp: learn_call_def T_sections split: option.splits prod.splits result.splits if_splits)

lemma T_beat_call: "beat_call H c a vw ps dn bs = Some (c', H', mv) \<Longrightarrow> cluster_rel R c c'"
  using C_rpc [OF _ R_Heartbeat]
  by (auto simp: beat_call_def T_sections Let_def
      split: list.splits option.splits prod.splits result.splits if_splits)

lemma T_ballot_call: "ballot_call H c a my_view off e bs = Some (c', H', mv) \<Longrightarrow> cluster_rel R c c'"
  using C_rpc [OF _ R_Elect]
  by (auto simp: ballot_call_def T_sections
      split: list.splits option.splits prod.splits result.splits if_splits)

lemma T_StartOnNewSlot_check:
  "StartOnNewSlot_check H c a seq v vw = Some (c', H', mv) \<Longrightarrow> cluster_rel R c c'"
  using C_upd_slot [of seq "\<lambda>sl. sl\<lparr>slot_n := i\<rparr>" c a for i] R_slot_n
  by (auto simp: StartOnNewSlot_check_def C_refl split: option.splits prod.splits if_splits)

lemma T_Start_enter: "Start_enter H c a seq v = Some (c', H', mv) \<Longrightarrow> cluster_rel R c c'"
  by (auto simp: Start_enter_def Let_def T_sections split: option.splits prod.splits if_splits)
     (metis C_put R_addSlots UNIV_I snd_conv)+

lemma T_StartOnForward_enter: "StartOnForward_enter H c a seq v = Some (c', H', mv) \<Longrightarrow> cluster_rel R c c'"
  by (auto simp: StartOnForward_enter_def T_sections split: option.splits prod.splits if_splits)
     (metis C_put T_lock snd_conv)+

lemma T_local: "local_step E pick H c a k = Some (c', H', mv) \<Longrightarrow> cluster_rel R c c'"
  by (cases "(E, pick, H, c, a, k)" rule: local_step.cases)
    (auto simp: StartOnNewSlot_enter_def Start_spawn_def prepare_end_def step_down_section_def forward_call_def
      beat_enter_def beat_adopt_def ballot_enter_def T_sections
      split: option.splits prod.splits if_splits
      dest: T_Start_enter T_StartOnForward_enter T_StartOnNewSlot_check T_prepare_call T_accept_call
        T_learn_call T_beat_call T_ballot_call)

lemma T_unwind: "unwind fr b k H c = (c', H', k') \<Longrightarrow> cluster_rel R c c'"
  by (cases "(fr, b, k, H, c)" rule: unwind.cases) (auto simp: C_refl T_kill C_unlock)

lemma T_advance: "advance E pick c H th = Some (c', H', th') \<Longrightarrow> cluster_rel R c c'"
  by (auto simp: advance_def T_unwind T_local
      split: if_splits list.splits prod.splits option.splits move.splits)

lemma T_upd_node: "(\<And>s. R s (f s)) \<Longrightarrow> cluster_rel R (cell_state y) (cell_state (upd_node a f y))"
  by (auto simp: upd_node_def C_refl C_put split: option.split)

lemma T_step: "sys_step E y e = Some y' \<Longrightarrow> cluster_rel R (cell_state y) (cell_state y')"
proof (cases e)
  case (Tick a)
  have "cell_state (detector_tick a y) = cell_state (upd_node a (\<lambda>s. snd (DetectLeaderFailure s)) y)"
    by (auto simp: detector_tick_def upd_node_def add_task_def Let_def split: option.split result.split prod.split)
  then show "sys_step E y e = Some y' \<Longrightarrow> ?thesis"
    using Tick T_upd_node [of "\<lambda>s. snd (DetectLeaderFailure s)" y a] R_detector by auto
qed (auto simp: add_task_def C_refl T_kill R_timer intro: T_upd_node T_advance
      split: if_splits option.splits prod.splits)

lemma T_run: "sys_run E es y = Some y' \<Longrightarrow> cluster_rel R (cell_state y) (cell_state y')"
  by (induction es arbitrary: y) (auto simp: bind_eq_Some_conv C_refl intro: C_trans T_step)

end

text \<open>
  \<open>endures s t\<close>: what \<open>s\<close> has decided \<open>t\<close> has decided alike, and what never changes is the same.
\<close>

definition endures :: "'d paxos_impl \<Rightarrow> 'd paxos_impl \<Rightarrow> bool" where
  "endures s t \<longleftrightarrow>
     (\<forall>q u. decided s q = Some u \<longrightarrow> decided t q = Some u) \<and>
     me t = me s \<and> num_servers t = num_servers s \<and> group_size t = group_size s \<and>
     first_port t = first_port s \<and> paxos_stubs_map t = paxos_stubs_map s \<and>
     server_address t = server_address s \<and> lowest_slot t = lowest_slot s \<and> is_dead t = is_dead s"

lemma enduresI:
  "decided t = decided s \<Longrightarrow> same_config s t \<Longrightarrow> endures s t"
  by (simp add: endures_def same_config_def)

lemma decided_flags [simp]:
  "decided (s\<lparr>mu_locked := b\<rparr>) = decided s" "decided (s\<lparr>view := vw\<rparr>) = decided s"
  "decided (s\<lparr>leader_dead := x\<rparr>) = decided s" "decided (s\<lparr>leader_election_happened := x\<rparr>) = decided s"
  by (rule decided_cong, simp)+

lemma decided_after_Elect: "decided (snd (Elect s req)) = decided s"
  by (auto simp: Elect_def with_mu_def Let_def intro!: decided_cong)

lemma decided_elect_finish: "elect_finish target nsrv e s = Some t \<Longrightarrow> decided t = decided s"
  by (auto simp: elect_finish_def follow_view_def split: if_splits intro!: decided_cong)

lemma decided_detector:
  "decided (snd (DetectLeaderFailure s)) = decided s" "decided (snd (election_timer s)) = decided s"
  by (auto simp: DetectLeaderFailure_def election_timer_def with_mu_def Let_def intro!: decided_cong)

interpretation fixed: thread_relation E endures for E :: "'d env"
proof unfold_locales
  show "endures s t \<Longrightarrow> endures t u \<Longrightarrow> endures s u" for s t u :: "'d paxos_impl"
    by (simp add: endures_def)
  show "endures s (snd (Learn E s dreq))" for s :: "'d paxos_impl" and dreq
    using same_config_Learn [of s E dreq] by (auto simp: endures_def same_config_def decided_Learn)
  show "endures s (snd (Heartbeat s hreq))" for s :: "'d paxos_impl" and hreq
    by (cases "heartbeat_taken s hreq")
      (auto simp: Heartbeat_taken Heartbeat_not_taken endures_def heartbeat_merge_def decided_adopt_slots)
  show "endures s (adopt_slots m s)" for s :: "'d paxos_impl" and m
    by (auto simp: endures_def decided_adopt_slots)
  show "elect_finish target nsrv e s = Some t \<Longrightarrow> endures s t" for target nsrv e and s t :: "'d paxos_impl"
    using decided_elect_finish [of target nsrv e s t]
    by (auto simp: endures_def elect_finish_def follow_view_def split: if_splits)
  show "endures s (snd (Elect s ereq))" for s :: "'d paxos_impl" and ereq
    using decided_after_Elect [of s ereq] by (auto simp: endures_def Elect_def with_mu_def Let_def)
  show "endures s (snd (DetectLeaderFailure s))" "endures s (snd (election_timer s))" for s :: "'d paxos_impl"
    using decided_detector [of s]
    by (auto simp: endures_def DetectLeaderFailure_def election_timer_def with_mu_def Let_def)
qed (auto intro!: enduresI same_config_Prepare same_config_Accept simp: decided_def same_config_def)

text \<open>
  The second instance: no decision, no promise and no highest accepted slot is taken back.  The view is
  not in it: an election narrows a view of 64 bits, which can bring a server back to a lower one.
\<close>

definition ahead :: "'d paxos_impl \<Rightarrow> 'd paxos_impl \<Rightarrow> bool" where
  "ahead s t \<longleftrightarrow> decided s \<subseteq>\<^sub>m decided t \<and> (\<forall>k. promised s k \<le> promised t k) \<and>
     highest_accepted_seq s \<le> highest_accepted_seq t"

lemma ahead_advanced: "advanced s t \<Longrightarrow> ahead s t"
  by (simp add: advanced_def ahead_def)

lemma ahead_same_slots:
  "slots t = slots s \<Longrightarrow> highest_accepted_seq s \<le> highest_accepted_seq t \<Longrightarrow> ahead s t"
  using decided_cong [of t s] promised_cong [of t s] by (simp add: ahead_def)

interpretation forward: thread_relation E ahead for E :: "'d env"
proof unfold_locales
  show "ahead s t \<Longrightarrow> ahead t u \<Longrightarrow> ahead s u" for s t u :: "'d paxos_impl"
    unfolding ahead_def by (meson map_le_trans order_trans)
  show "ahead s (snd (Heartbeat s hreq))" for s :: "'d paxos_impl" and hreq
    by (cases "heartbeat_taken s hreq")
      (auto simp: Heartbeat_taken Heartbeat_not_taken ahead_def heartbeat_merge_def decided_adopt_slots map_le_def)
  show "ahead s (adopt_slots m s)" for s :: "'d paxos_impl" and m
    by (auto simp: ahead_def decided_adopt_slots map_le_def)
  show "elect_finish target nsrv e s = Some t \<Longrightarrow> ahead s t" for target nsrv e and s t :: "'d paxos_impl"
    by (auto simp: elect_finish_def follow_view_def intro!: ahead_same_slots split: if_splits)
  show "ahead s (snd (Elect s ereq))" "ahead s (snd (DetectLeaderFailure s))" "ahead s (snd (election_timer s))"
    for s :: "'d paxos_impl" and ereq
    by (auto simp: Elect_def DetectLeaderFailure_def election_timer_def with_mu_def Let_def intro!: ahead_same_slots)
qed (rule ahead_advanced, rule adv.R_refl adv.R_Prepare adv.R_Accept adv.R_Learn adv.R_addSlots adv.R_lock
    adv.R_slot_n adv.R_highest_N adv.R_same_slot adv.R_view, simp_all?)+

section \<open>The mutexes of the slots\<close>

text \<open>The slot a thread is working on between the lock and the end of \<open>StartOnNewSlot\<close>.\<close>

fun phase_slot :: "control \<Rightarrow> int option" where
  "phase_slot (Checking q v vw) = Some q"
| "phase_slot (Preparing q v vw nsrv p bs) = Some q"
| "phase_slot (Prepared q v vw p) = Some q"
| "phase_slot (Accepting q v vw va na ac bs) = Some q"
| "phase_slot (Stepping_down q v na) = Some q"
| "phase_slot (Learning q va bs) = Some q"
| "phase_slot _ = None"

definition slots_of_stack :: "(string \<times> frame) list \<Rightarrow> (string \<times> int) list" where
  "slots_of_stack st = concat (map (\<lambda>(b, fr). case fr of Holding_slot q \<Rightarrow> [(b, q)] | _ \<Rightarrow> []) st)"

lemma slots_of_stack_simps [simp]:
  "slots_of_stack [] = []" "slots_of_stack ((b, Holding_slot q) # st) = (b, q) # slots_of_stack st"
  "slots_of_stack ((b, Joining) # st) = slots_of_stack st"
  "slots_of_stack ((b, Holding_mu) # st) = slots_of_stack st"
  "slots_of_stack ((b, Awaiting fate) # st) = slots_of_stack st"
  "slots_of_stack ((b, Rethrowing) # st) = slots_of_stack st"
  by (simp_all add: slots_of_stack_def)

definition phase_ok :: "task \<Rightarrow> bool" where
  "phase_ok th \<longleftrightarrow>
     (\<forall>q. phase_slot (t_control th) = Some q \<longrightarrow> (\<exists>st. t_stack th = (t_at th, Holding_slot q) # st))"

text \<open>The effect of a local step on the slot mutexes and the control of the thread.\<close>

lemma local_step_slots:
  assumes "local_step E pick H c a k = Some (c', H', mv)"
  shows "case mv of
      Goto k' \<Rightarrow> H' = H \<and> (phase_slot k' = phase_slot k \<or> phase_slot k' = None)
    | Push fr b k' \<Rightarrow>
        (case fr of
           Holding_slot q \<Rightarrow> (a, q) \<notin> H \<and> H' = insert (a, q) H \<and> b = a \<and> phase_slot k = None \<and> phase_slot k' = Some q
         | _ \<Rightarrow> H' = H \<and> phase_slot k' = None)"
  using assms
  by (cases "(E, pick, H, c, a, k)" rule: local_step.cases)
    (auto simp: Start_enter_def StartOnForward_enter_def StartOnNewSlot_enter_def Start_spawn_def
      StartOnNewSlot_check_def accept_or_learn_def prepare_call_def prepare_end_def accept_call_def
      step_down_section_def learn_call_def forward_call_def beat_enter_def beat_call_def beat_adopt_def
      ballot_enter_def ballot_call_def Let_def
      split: option.splits prod.splits if_splits list.splits result.splits)

lemma unwind_slots:
  assumes "unwind fr b k H c = (c', H', k')" "over k"
  shows "phase_slot k' = None \<and> H' = (case fr of Holding_slot q \<Rightarrow> H - {(b, q)} | _ \<Rightarrow> H)"
  using assms by (cases "(fr, b, k, H, c)" rule: unwind.cases) (auto simp: over_def split: control.splits)

text \<open>\<open>holds th\<close>: the slot mutexes a thread holds.\<close>

abbreviation holds :: "task \<Rightarrow> (string \<times> int) list" where
  "holds th \<equiv> slots_of_stack (t_stack th)"

lemma advance_slots:
  assumes "advance E pick c H th = Some (c', H', th')"
  shows "H' = H \<and> holds th' = holds th \<or>
    (\<exists>p. p \<notin> H \<and> H' = insert p H \<and> holds th' = p # holds th) \<or>
    (\<exists>p. holds th = p # holds th' \<and> H' = H - {p})"
proof (cases "over (t_control th)")
  case True
  then obtain b fr st k' where st: "t_stack th = (b, fr) # st" "th' = \<lparr>t_at = b, t_control = k', t_stack = st\<rparr>"
    "unwind fr b (t_control th) H c = (c', H', k')"
    using assms by (auto simp: advance_def split: list.splits prod.splits)
  from unwind_slots [OF st(3) True] st(1,2) show ?thesis by (cases fr) auto
next
  case False
  then obtain mv where l: "local_step E pick H c (t_at th) (t_control th) = Some (c', H', mv)"
    and th': "th' = (case mv of Goto k \<Rightarrow> th\<lparr>t_control := k\<rparr>
       | Push fr b k \<Rightarrow> \<lparr>t_at = b, t_control = k, t_stack = (t_at th, fr) # t_stack th\<rparr>)"
    using assms by (auto simp: advance_def split: option.splits prod.splits move.splits)
  from local_step_slots [OF l] th' show ?thesis
    by (auto split: move.splits frame.splits)
qed

lemma advance_phase_ok:
  assumes "advance E pick c H th = Some (c', H', th')" "phase_ok th"
  shows "phase_ok th'"
proof (cases "over (t_control th)")
  case True
  then show ?thesis
    using assms(1) unwind_slots by (fastforce simp: advance_def phase_ok_def split: list.splits prod.splits)
next
  case False
  then obtain mv where l: "local_step E pick H c (t_at th) (t_control th) = Some (c', H', mv)"
    and th': "th' = (case mv of Goto k \<Rightarrow> th\<lparr>t_control := k\<rparr>
       | Push fr b k \<Rightarrow> \<lparr>t_at = b, t_control = k, t_stack = (t_at th, fr) # t_stack th\<rparr>)"
    using assms by (auto simp: advance_def split: option.splits prod.splits move.splits)
  from local_step_slots [OF l] th' assms(2) show ?thesis
    by (auto simp: phase_ok_def split: move.splits frame.splits)
qed

definition locks_ok :: "'d system \<Rightarrow> bool" where
  "locks_ok y \<longleftrightarrow>
     (\<forall>i < length (tasks y). phase_ok (tasks y ! i) \<and> distinct (holds (tasks y ! i)) \<and>
        set (holds (tasks y ! i)) \<subseteq> slot_held y) \<and>
     (\<forall>i < length (tasks y). \<forall>j < length (tasks y). i \<noteq> j \<longrightarrow>
        set (holds (tasks y ! i)) \<inter> set (holds (tasks y ! j)) = {})"

lemma locks_ok_idle: "locks_ok (idle c)"
  by (simp add: locks_ok_def idle_def)

lemma locks_ok_add: "locks_ok y \<Longrightarrow> phase_slot k = None \<Longrightarrow> locks_ok (add_task a k y)"
  by (auto simp: locks_ok_def add_task_def nth_append phase_ok_def less_Suc_eq)

lemma locks_ok_same: "locks_ok y \<Longrightarrow> tasks y' = tasks y \<Longrightarrow> slot_held y' = slot_held y \<Longrightarrow> locks_ok y'"
  by (simp add: locks_ok_def)

lemma locks_ok_move:
  assumes y: "locks_ok y" and i: "i < length (tasks y)"
    and adv: "advance E pick c (slot_held y) (tasks y ! i) = Some (c', H', th')"
  shows "locks_ok \<lparr>cell_state = c', slot_held = H', tasks = (tasks y)[i := th']\<rparr>"
proof -
  have own: "phase_ok (tasks y ! i)" "distinct (holds (tasks y ! i))" "set (holds (tasks y ! i)) \<subseteq> slot_held y"
    using y i by (auto simp: locks_ok_def)
  have others: "phase_ok (tasks y ! j)" "distinct (holds (tasks y ! j))" "set (holds (tasks y ! j)) \<subseteq> slot_held y"
    "set (holds (tasks y ! i)) \<inter> set (holds (tasks y ! j)) = {}" if "j < length (tasks y)" "j \<noteq> i" for j
    using y i that by (auto simp: locks_ok_def)
  have apart: "set (holds (tasks y ! j)) \<inter> set (holds (tasks y ! m)) = {}"
    if "j < length (tasks y)" "m < length (tasks y)" "j \<noteq> m" for j m
    using y that by (auto simp: locks_ok_def)
  have new: "distinct (holds th') \<and> set (holds th') \<subseteq> H' \<and>
      (\<forall>j < length (tasks y). j \<noteq> i \<longrightarrow> set (holds (tasks y ! j)) \<subseteq> H' \<and>
         set (holds th') \<inter> set (holds (tasks y ! j)) = {})"
  proof -
    consider (same) "H' = slot_held y" "holds th' = holds (tasks y ! i)"
      | (take) p where "p \<notin> slot_held y" "H' = insert p (slot_held y)" "holds th' = p # holds (tasks y ! i)"
      | (give) p where "holds (tasks y ! i) = p # holds th'" "H' = slot_held y - {p}"
      using advance_slots [OF adv] by blast
    then show ?thesis
    proof cases
      case same
      then show ?thesis using own others by simp
    next
      case take
      have "p \<notin> set (holds (tasks y ! j))" if "j < length (tasks y)" for j
        using own(3) others(3) take(1) that by (cases "j = i") auto
      with take own i others show ?thesis by (simp add: subset_insertI2)
    next
      case give
      have "p \<notin> set (holds (tasks y ! j))" if "j < length (tasks y)" "j \<noteq> i" for j
        using others(4) [OF that] give(1) by auto
      with give own others show ?thesis by auto
    qed
  qed
  show ?thesis
    unfolding locks_ok_def system.select_convs length_list_update nth_list_update [OF i]
    using new advance_phase_ok [OF adv own(1)] others(1-3) apart by (auto simp: Int_commute)
qed

lemma tasks_upd_node [simp]:
  "tasks (upd_node a f y) = tasks y" "slot_held (upd_node a f y) = slot_held y"
  by (auto simp: upd_node_def split: option.split)

lemma locks_ok_step: "locks_ok y \<Longrightarrow> sys_step E y e = Some y' \<Longrightarrow> locks_ok y'"
proof (cases e)
  case (Tick a)
  then show "locks_ok y \<Longrightarrow> sys_step E y e = Some y' \<Longrightarrow> ?thesis"
    by (auto simp: detector_tick_def Let_def intro!: locks_ok_add
        intro: locks_ok_same [of y] split: option.splits result.splits prod.splits)
qed (auto intro: locks_ok_add locks_ok_same locks_ok_move split: if_splits option.splits prod.splits)

section \<open>Properties\<close>

text \<open>
  C16: nothing is taken back.  In every interleaving of proposals, heartbeats and elections, with lost
  calls, failure detection and processes that end, a server that still runs has every decision it had
  before, its promises and its highest accepted slot have not become smaller, and its place, its table
  and its lowest slot are the same.
\<close>
theorem interleaved_only_grow:
  assumes "sys_run E es y = Some y'" "node (cell_state y') b = Some t"
  shows "\<exists>s. node (cell_state y) b = Some s \<and> decided s \<subseteq>\<^sub>m decided t \<and> (\<forall>q. promised s q \<le> promised t q) \<and>
    highest_accepted_seq s \<le> highest_accepted_seq t \<and>
    me t = me s \<and> paxos_stubs_map t = paxos_stubs_map s \<and> lowest_slot t = lowest_slot s"
  using cluster_relD [OF fixed.T_run [OF assms(1)] assms(2)] cluster_relD [OF forward.T_run [OF assms(1)] assms(2)]
  by (auto simp: endures_def ahead_def)

lemma interleaved_only_grow_witness:
  "\<exists>y t. sys_run mem_env sample_schedule (idle sample_cell) = Some y \<and>
     node (cell_state y) ''127.0.0.1:50052'' = Some t \<and> me t = 1 \<and> lowest_slot t = 0"
proof -
  obtain y t where y: "sys_run mem_env sample_schedule (idle sample_cell) = Some y"
    "node (cell_state y) ''127.0.0.1:50052'' = Some t"
    using sample_schedule_run(2) by (auto simp: bind_eq_Some_conv)
  from interleaved_only_grow [OF y] have "me t = 1 \<and> lowest_slot t = 0" by (simp add: idle_def)
  with y show ?thesis by blast
qed

text \<open>
  C15: one proposer per slot.  In every interleaving, two threads that are between the lock of the
  slot's mutex and the end of \<open>StartOnNewSlot\<close>, for the same slot of the same server, are one thread.
\<close>
theorem one_proposer_per_slot:
  assumes "sys_run E es (idle c) = Some y" "i < length (tasks y)" "j < length (tasks y)"
    and "t_at (tasks y ! i) = t_at (tasks y ! j)"
    and "phase_slot (t_control (tasks y ! i)) = Some q" "phase_slot (t_control (tasks y ! j)) = Some q"
  shows "i = j"
proof (rule ccontr)
  assume "i \<noteq> j"
  have "locks_ok y" by (rule sys_run_invariant [OF _ _ assms(1)]) (auto intro: locks_ok_step simp: locks_ok_idle)
  then have "phase_ok (tasks y ! i)" "phase_ok (tasks y ! j)"
    "set (holds (tasks y ! i)) \<inter> set (holds (tasks y ! j)) = {}"
    using assms(2,3) \<open>i \<noteq> j\<close> by (auto simp: locks_ok_def)
  with assms(4-6) show False by (auto simp: phase_ok_def)
qed

lemma one_proposer_per_slot_witness:
  "\<exists>y. sys_run mem_env sample_schedule (idle sample_cell) = Some y \<and> length (tasks y) = 2 \<and>
     phase_slot (t_control (tasks y ! 0)) = Some 1 \<and> phase_slot (t_control (tasks y ! 1)) \<noteq> Some 1"
proof -
  let ?ctl = "[(''127.0.0.1:50051'', Learning 1 ''a'' [''127.0.0.1:50053'']),
    (''127.0.0.1:50051'', Begin (CallNewSlot 1 ''b'' 0))]"
  obtain y where y: "sys_run mem_env sample_schedule (idle sample_cell) = Some y"
    "map (\<lambda>th. (t_at th, t_control th)) (tasks y) = ?ctl"
    using sample_schedule_run(3) by (auto simp: bind_eq_Some_conv)
  have two: "length (tasks y) = 2" using arg_cong [OF y(2), of length] by simp
  have "map (\<lambda>th. (t_at th, t_control th)) (tasks y) ! i = ?ctl ! i" for i by (simp only: y(2))
  from this [of 0] this [of 1] two
  have at: "t_at (tasks y ! 0) = t_at (tasks y ! 1)" "phase_slot (t_control (tasks y ! 0)) = Some 1"
    by simp_all
  then have "phase_slot (t_control (tasks y ! 1)) \<noteq> Some 1"
    using one_proposer_per_slot [OF y(1), of 0 1 1] two by auto
  with y(1) two at(2) show ?thesis by blast
qed

end
