(* ===== verification/PrepareVotes.thy ===== *)
theory PrepareVotes
  imports ProposerOrder
begin

text \<open>
  The prepare phase of \<open>StartOnNewSlot\<close> keeps two counters besides the number of granted replies:
  how many replies carried each accepted number (\<open>na_count_map\<close>) and how many were no new maximum
  (\<open>reject_count\<close>).  In a table of two or more servers neither has any effect: the reference
  \<open>plain_prepare\<close> keeps only the number of granted replies.
\<close>

section \<open>The reference\<close>

definition plain_reply :: "prepare_response \<Rightarrow> prep \<Rightarrow> prep \<times> bool" where
  "plain_reply r p =
     (if pp_status r = ''OK'' then
        (let p1 = p\<lparr>p_majority := p_majority p + 1\<rparr>;
             p2 = (if p_highest_na p < pp_n_a r
                   then p1\<lparr>p_highest_na := to_int32 (pp_n_a r), p_highest_va := pp_v_a r\<rparr> else p1)
         in if pp_value r \<noteq> '''' then (p2\<lparr>p_decided := True, p_decided_V := pp_value r\<rparr>, True)
            else (p2, False))
      else (p, False))"

fun plain_prepare ::
  "'d env \<Rightarrow> string \<Rightarrow> int \<Rightarrow> nat \<Rightarrow> string list \<Rightarrow> prep \<Rightarrow> 'd cluster \<Rightarrow>
   'd cluster outcome + prep \<times> 'd cluster" where
  "plain_prepare E a seq nsrv [] p c = Inr (p, c)"
| "plain_prepare E a seq nsrv (b # bs) p c =
     (case own_slot c a seq of
        None \<Rightarrow> Inr (p, c)
      | Some (s, sl) \<Rightarrow>
          (case vec_get (done_vec s) (me s) of
             None \<Rightarrow> Inl (Thrown Out_of_bounds c)
           | Some d \<Rightarrow>
               (case rpc b (\<lambda>t. Prepare E t \<lparr>pr_seq = seq, pr_proposal_number = slot_n sl,
                                           pr_latest_done = d, pr_sender_id = me s\<rparr>) c of
                  (Blocked, c1) \<Rightarrow> Inl Stuck
                | (Ok r, c1) \<Rightarrow>
                    (case plain_reply r p of
                       (p', left) \<Rightarrow>
                         (let c2 = note_highest_N a seq p r c1 in
                          if left \<or> int (nsrv div 2) < p_majority p' then Inr (p', c2)
                          else plain_prepare E a seq nsrv bs p' c2))
                | (_, c1) \<Rightarrow>
                    (if int (nsrv div 2) < p_majority p then Inr (p, c1)
                     else plain_prepare E a seq nsrv bs p c1))))"

text \<open>\<open>StartOnNewSlot\<close> with that prepare phase.\<close>

definition plain_StartOnNewSlot ::
  "'d env \<Rightarrow> ('d cluster \<Rightarrow> string \<Rightarrow> call \<Rightarrow> 'd cluster outcome) \<Rightarrow> 'd cluster \<Rightarrow> string \<Rightarrow>
   int \<Rightarrow> string \<Rightarrow> int \<Rightarrow> 'd cluster outcome" where
  "plain_StartOnNewSlot E rec c a seq v my_view =
     (case own_slot c a seq of
        None \<Rightarrow> Done c
      | Some (s, sl) \<Rightarrow>
          if slot_status sl = DECIDED \<or> is_dead s \<noteq> 0 then Done c
          else if mu_locked s then Stuck
          else if seq \<le> highest_accepted_seq s then
            (case next_n (slot_n sl) (slot_highest_N sl) (num_servers s) of
               None \<Rightarrow> Stuck
             | Some n' \<Rightarrow>
                 (case plain_prepare E a seq (length (stub_addresses c a)) (stub_addresses c a)
                         (prep_init v) (upd_slot a seq (\<lambda>sl. sl\<lparr>slot_n := n'\<rparr>) c) of
                    Inl out \<Rightarrow> out
                  | Inr (p, c1) \<Rightarrow>
                      if my_view < p_highest_na p then step_down rec c1 a seq v (p_highest_na p)
                      else accept_phase E rec c1 a seq v my_view p))
          else accept_phase E rec c a seq v my_view (prep_init v))"

section \<open>One reply\<close>

definition forget_counts :: "prep \<Rightarrow> prep" where
  "forget_counts p = p\<lparr>p_reject := 0, p_na_count := []\<rparr>"

lemma forget_counts_sel [simp]:
  "p_highest_na (forget_counts p) = p_highest_na p" "p_highest_va (forget_counts p) = p_highest_va p"
  "p_decided (forget_counts p) = p_decided p" "p_decided_V (forget_counts p) = p_decided_V p"
  "p_majority (forget_counts p) = p_majority p"
  by (simp_all add: forget_counts_def)

text \<open>No accepted number has been counted twice, and a reply that was refused was granted too.\<close>

definition counts_ok :: "prep \<Rightarrow> bool" where
  "counts_ok p \<longleftrightarrow> 0 \<le> p_reject p \<and> p_reject p \<le> p_majority p \<and>
     (\<forall>k i. map_of (p_na_count p) k = Some i \<longrightarrow> i \<le> 1 \<and> k \<le> p_highest_na p)"

lemma counts_ok_init: "counts_ok (prep_init v)"
  by (simp add: counts_ok_def prep_init_def)

lemma na_count_le: "counts_ok p \<Longrightarrow> na_count p \<le> 1"
  by (auto simp: counts_ok_def na_count_def split: option.split)

lemma na_count_new: "counts_ok p \<Longrightarrow> p_highest_na p < k \<Longrightarrow> na_count (p\<lparr>p_highest_na := k\<rparr>) = 0"
  by (fastforce simp: counts_ok_def na_count_def split: option.split)

lemma prep_stop_plain:
  "counts_ok p \<Longrightarrow> 2 \<le> nsrv \<Longrightarrow> prep_stop nsrv p \<longleftrightarrow> int (nsrv div 2) < p_majority p"
  using na_count_le [of p] by (auto simp: prep_stop_def counts_ok_def)

text \<open>The counters after a granted reply.\<close>

definition count_reply :: "prepare_response \<Rightarrow> prep \<Rightarrow> prep" where
  "count_reply r p =
     (let p1 = p\<lparr>p_majority := p_majority p + 1\<rparr>
      in if p_highest_na p1 < pp_n_a r
         then (let na = to_int32 (pp_n_a r);
                   p' = p1\<lparr>p_highest_na := na, p_highest_va := pp_v_a r\<rparr>
               in p'\<lparr>p_na_count := smap_put na (na_count p' + 1) (p_na_count p')\<rparr>)
         else p1\<lparr>p_reject := p_reject p1 + 1\<rparr>)"

lemma counts_ok_reply:
  assumes ok: "counts_ok p" and r: "in_int32 (pp_n_a r)"
  shows "counts_ok (count_reply r p)"
proof (cases "p_highest_na p < pp_n_a r")
  case True
  let ?q = "p\<lparr>p_majority := p_majority p + 1, p_highest_na := pp_n_a r, p_highest_va := pp_v_a r\<rparr>"
  have "na_count ?q = 0" using na_count_new [OF ok True] by (simp add: na_count_def)
  then have "count_reply r p = ?q\<lparr>p_na_count := smap_put (pp_n_a r) 1 (p_na_count p)\<rparr>"
    using r True by (simp add: count_reply_def Let_def)
  moreover have "k \<le> pp_n_a r \<and> i \<le> 1" if "map_of (p_na_count p) k = Some i" for k i
    using ok that True unfolding counts_ok_def by fastforce
  ultimately show ?thesis using ok by (auto simp: counts_ok_def)
qed (use ok in \<open>simp add: count_reply_def counts_ok_def\<close>)

lemma prep_reply_plain:
  assumes ok: "counts_ok p" and n: "2 \<le> nsrv" and r: "in_int32 (pp_n_a r)"
    and run: "prep_reply nsrv r p = (p', left)"
  shows "counts_ok p'" and "plain_reply r (forget_counts p) = (forget_counts p', left)"
proof -
  let ?p = "count_reply r p"
  have ok': "counts_ok ?p" using counts_ok_reply [OF ok r] .
  have few: "\<not> int (nsrv div 2) < na_count ?p" using na_count_le [OF ok'] n by linarith
  have "prep_reply nsrv r p =
      (if pp_status r = ''OK'' then
         (if pp_value r \<noteq> '''' then (?p\<lparr>p_decided := True, p_decided_V := pp_value r\<rparr>, True) else (?p, False))
       else (p, False))"
    using few by (auto simp: prep_reply_def count_reply_def Let_def)
  then have p': "p' = (if pp_status r = ''OK'' then
      (if pp_value r \<noteq> '''' then ?p\<lparr>p_decided := True, p_decided_V := pp_value r\<rparr> else ?p) else p)"
    "left \<longleftrightarrow> pp_status r = ''OK'' \<and> pp_value r \<noteq> ''''"
    using run by (auto split: if_splits)
  show "counts_ok p'" using ok ok' by (auto simp: p' counts_ok_def)
  show "plain_reply r (forget_counts p) = (forget_counts p', left)"
    by (auto simp: plain_reply_def p' forget_counts_def count_reply_def Let_def)
qed

section \<open>The phase\<close>

text \<open>What a server reports as its accepted number is the view it is in.\<close>

definition views_ok :: "'d cluster \<Rightarrow> bool" where
  "views_ok c \<longleftrightarrow> (\<forall>b t. node c b = Some t \<longrightarrow> in_int32 (view t))"

lemma Prepare_reports_view: "Prepare E s req = (Ok r, s') \<Longrightarrow> pp_n_a r = view s"
proof (cases "can_enter s (pr_seq req)")
  case True
  moreover have "slot_n_a (fst (addSlots s q)) = view s" for q by (simp add: addSlots_def Let_def)
  moreover assume "Prepare E s req = (Ok r, s')"
  ultimately show ?thesis by (auto simp: Prepare_ok Prepare_slot_def Let_def)
next
  case False
  assume "Prepare E s req = (Ok r, s')"
  with Prepare_refused [OF False, of E] show ?thesis by simp
qed

lemma views_ok_rpc:
  assumes "views_ok c" "rpc b (\<lambda>t. Prepare E t req) c = (r, c')"
  shows "views_ok c'" and "\<And>x. r = Ok x \<Longrightarrow> in_int32 (pp_n_a x)"
proof -
  have "\<exists>s'. node c' b' = Some s' \<and> view s' = view s" if "node c b' = Some s" for b' s
    by (rule rpc_preserves [OF assms(2) _ _ that, where P = "\<lambda>s s'. view s' = view s"]) (simp_all add: view_handlers)
  with assms(1) rpc_dom [OF assms(2)] show "views_ok c'"
    unfolding views_ok_def by (metis option.exhaust option.sel)
  show "in_int32 (pp_n_a x)" if "r = Ok x" for x
    using assms that Prepare_reports_view [of E _ req x]
    by (fastforce simp: rpc_def next_fate_def views_ok_def split: prod.splits option.splits result.splits if_splits list.splits)
qed

lemma views_ok_upd_slot: "views_ok c \<Longrightarrow> views_ok (upd_slot a seq f c)"
  by (auto simp: views_ok_def upd_slot_def own_slot_Some set_slot_def split: option.splits)

lemma views_ok_note: "views_ok c \<Longrightarrow> views_ok (note_highest_N a seq p r c)"
  by (simp add: note_highest_N_def views_ok_upd_slot)

lemma note_highest_N_plain: "note_highest_N a seq (forget_counts p) r c = note_highest_N a seq p r c"
  by (simp add: note_highest_N_def)

lemma prepare_loop_plain:
  assumes "counts_ok p" "views_ok c" and n: "2 \<le> nsrv"
  shows "plain_prepare E a seq nsrv bs (forget_counts p) c =
     map_sum id (map_prod forget_counts id) (prepare_loop E a seq nsrv bs p c)"
  using assms(1,2)
proof (induction bs arbitrary: p c)
  case Nil
  then show ?case by simp
next
  case (Cons b bs)
  show ?case
  proof (cases "own_slot c a seq")
    case None
    then show ?thesis by simp
  next
    case (Some z)
    obtain s sl where z: "z = (s, sl)" by (cases z)
    show ?thesis
    proof (cases "vec_get (done_vec s) (me s)")
      case None
      then show ?thesis using Some z by simp
    next
      case d: (Some d)
      obtain r c1 where call: "rpc b (\<lambda>t. Prepare E t \<lparr>pr_seq = seq, pr_proposal_number = slot_n sl,
          pr_latest_done = d, pr_sender_id = me s\<rparr>) c = (r, c1)" by fastforce
      note v = views_ok_rpc [OF Cons.prems(2) call]
      note stop = prep_stop_plain [OF Cons.prems(1) n]
      show ?thesis
      proof (cases r)
        case (Ok x)
        obtain p' left where rep: "prep_reply nsrv x p = (p', left)" by fastforce
        note pl = prep_reply_plain [OF Cons.prems(1) n v(2) [OF Ok] rep]
        show ?thesis
          using Some z d call Ok rep pl(2) prep_stop_plain [OF pl(1) n]
            Cons.IH [OF pl(1) views_ok_note [OF v(1)]]
          by (simp add: Let_def note_highest_N_plain)
      qed (use Some z d call stop Cons.IH [OF Cons.prems(1) v(1)] in simp_all)
    qed
  qed
qed

section \<open>Properties\<close>

text \<open>
  C31: the counters of the prepare phase do nothing.  In a cell whose table has at least two servers
  and whose views are in the range of \<open>int\<close>, \<open>StartOnNewSlot\<close> is, for every network and every
  outcome of the calls it makes, the same as with a prepare phase that counts neither the replies
  with the same accepted number nor those that are no new maximum.
\<close>
theorem prepare_counters_do_nothing:
  assumes "2 \<le> length (stub_addresses c a)" "\<forall>b t. node c b = Some t \<longrightarrow> in_int32 (view t)"
  shows "StartOnNewSlot_body E rec c a seq v my_view = plain_StartOnNewSlot E rec c a seq v my_view"
proof -
  have accept: "accept_phase E rec c' a seq v my_view (forget_counts p) = accept_phase E rec c' a seq v my_view p"
    for c' p by (simp only: accept_phase_def forget_counts_sel)
  have init: "forget_counts (prep_init v) = prep_init v" by (simp add: forget_counts_def prep_init_def)
  have "views_ok c" using assms(2) by (simp add: views_ok_def)
  note loop = prepare_loop_plain [OF counts_ok_init views_ok_upd_slot [OF this] assms(1), of E a seq "stub_addresses c a" v,
      unfolded init]
  show ?thesis
    by (auto simp: StartOnNewSlot_body_def plain_StartOnNewSlot_def loop accept
        split: option.split sum.split prod.split)
qed

lemma prepare_counters_do_nothing_witness:
  "StartOnNewSlot_body mem_env (\<lambda>c a k. Done c) sample_cell ''127.0.0.1:50051'' 0 ''a#SHARED'' 0 =
   plain_StartOnNewSlot mem_env (\<lambda>c a k. Done c) sample_cell ''127.0.0.1:50051'' 0 ''a#SHARED'' 0"
proof (rule prepare_counters_do_nothing)
  show "2 \<le> length (stub_addresses sample_cell ''127.0.0.1:50051'')"
    by (simp add: stub_addresses_def smap_keys_def)
  have "view t = 0" if "node sample_cell b = Some t" for b t
    using that by (auto simp: node_def sample_cell_def split: if_splits)
  then show "\<forall>b t. node sample_cell b = Some t \<longrightarrow> in_int32 (view t)" by (simp add: in_int32_def)
qed

text \<open>
  With a table of one server they do something: the first granted reply is counted as a majority for
  its accepted number, so that the server takes the accepted value of the slot, empty when it has
  accepted none, for decided.  A proposal in a slot below one that it has accepted is lost, and the
  slot is decided with the empty string.
\<close>

definition lone_cell :: "(string \<times> string) list cluster" where
  "lone_cell =
     \<lparr>nodes = [(''127.0.0.1:50051'', (sample_server 0)\<lparr>group_size := 1, num_servers := 1, done_vec := [- 1],
        highest_accepted_seq := 5, paxos_stubs_map := [(''127.0.0.1:50051'', ())]\<rparr>)], net = []\<rparr>"

lemma lone_server_decides_nothing:
  "\<exists>c' t. Start mem_env lone_cell ''127.0.0.1:50051'' 3 ''a#SHARED'' = Done c' \<and>
     node c' ''127.0.0.1:50051'' = Some t \<and> decided t 3 = Some [] \<and> store mem_env (paxos_db t) ''a'' = None"
proof -
  have "(case Start mem_env lone_cell ''127.0.0.1:50051'' 3 ''a#SHARED'' of
      Done c' \<Rightarrow> (case node c' ''127.0.0.1:50051'' of
          Some t \<Rightarrow> decided t 3 = Some [] \<and> store mem_env (paxos_db t) ''a'' = None
        | None \<Rightarrow> False)
    | _ \<Rightarrow> False)" by code_simp
  then show ?thesis by (auto split: outcome.splits option.splits)
qed

end
