(* ===== verification/OneLeader.thy ===== *)
theory OneLeader
  imports ThreadOrder Validity PrepareVotes
begin

text \<open>
  Agreement under one leader.  As long as no server starts an election and the network delivers, any
  number of proposals, for any slots and at any servers, and any number of rounds of heartbeats may be
  interleaved, and processes may end at any point, the leader's too: two servers that have decided a slot have decided the same
  value.  What carries the proof is the mutex of the slot, which the leader holds from the test of its
  status to the end of the learn broadcast.
\<close>

section \<open>A cell in one view\<close>
















section \<open>Where the threads are\<close>


























section \<open>The values that are known\<close>
























section \<open>Who may know what\<close>















section \<open>The invariant of the system\<close>













section \<open>Properties\<close>



end
